(* ===== verification/Prelude.thy ===== *)
theory Prelude
  imports Main "HOL-Library.Word"
begin

text \<open>
  Shared vocabulary of the development.  It holds the outcome type of a Rust call (a value, a
  returned error, or a panic), its sequencing operator, the machine integers the sources use, the
  Rust library operations on them that every component needs, and generic facts about lists and
  bytes.  A panic is a third outcome beside a value and an error: an \<open>assert!\<close>, an index out of
  range, an \<open>unwrap\<close> of nothing, and an arithmetic overflow (which panics in a debug build and
  wraps in a release build) are all modelled by it, so that a theorem that a function never panics
  also says that both builds compute the same value.
\<close>

unbundle bit_operations_syntax

section \<open>Named collections\<close>

named_theorems result_simps \<open>rewrite rules for outcomes and their sequencing\<close>
named_theorems byte_simps \<open>rewrite rules for bytes and little-endian reads\<close>

section \<open>Outcomes of a call\<close>

datatype ('e, 'a) result = Ok 'a | Err 'e | Panic

definition rbind :: "('e, 'a) result \<Rightarrow> ('a \<Rightarrow> ('e, 'b) result) \<Rightarrow> ('e, 'b) result" where
  "rbind m f = (case m of Ok x \<Rightarrow> f x | Err e \<Rightarrow> Err e | Panic \<Rightarrow> Panic)"

definition map_err :: "('e \<Rightarrow> 'f) \<Rightarrow> ('e, 'a) result \<Rightarrow> ('f, 'a) result" where
  "map_err g m = (case m of Ok x \<Rightarrow> Ok x | Err e \<Rightarrow> Err (g e) | Panic \<Rightarrow> Panic)"

definition ok_or :: "'a option \<Rightarrow> 'e \<Rightarrow> ('e, 'a) result" where
  "ok_or x e = (case x of Some y \<Rightarrow> Ok y | None \<Rightarrow> Err e)"

definition no_panic :: "('e, 'a) result \<Rightarrow> bool" where
  "no_panic m \<longleftrightarrow> m \<noteq> Panic"

definition is_ok :: "('e, 'a) result \<Rightarrow> bool" where
  "is_ok m \<longleftrightarrow> (case m of Ok _ \<Rightarrow> True | _ \<Rightarrow> False)"

lemma rbind_simps [simp, result_simps]:
  "rbind (Ok x) f = f x"
  "rbind (Err e) f = Err e"
  "rbind Panic f = Panic"
  by (simp_all add: rbind_def)

lemma rbind_eq_Ok [result_simps]: "rbind m f = Ok y \<longleftrightarrow> (\<exists>x. m = Ok x \<and> f x = Ok y)"
  by (cases m) auto

lemma rbind_eq_Panic [result_simps]:
  "rbind m f = Panic \<longleftrightarrow> m = Panic \<or> (\<exists>x. m = Ok x \<and> f x = Panic)"
  by (cases m) auto

lemma rbind_OkE [elim]:
  assumes "rbind m f = Ok y"
  obtains x where "m = Ok x" "f x = Ok y"
  using assms by (auto simp: rbind_eq_Ok)

lemma rbind_prod_OkE:
  assumes "rbind m (\<lambda>(a, b). f a b) = Ok y"
  obtains a b where "m = Ok (a, b)" "f a b = Ok y"
  using assms by (auto simp: rbind_eq_Ok)

lemma guard_OkE:
  assumes "(if c then Err e else x) = Ok y"
  obtains "\<not> c" "x = Ok y"
  using assms by (auto split: if_splits)

lemma rbind_cong [fundef_cong]:
  assumes "m = m'" "\<And>x. m' = Ok x \<Longrightarrow> f x = g x"
  shows "rbind m f = rbind m' g"
  using assms by (cases m') auto

lemma rbind_assoc: "rbind (rbind m f) g = rbind m (\<lambda>x. rbind (f x) g)"
  by (cases m) auto

lemma map_err_simps [simp, result_simps]:
  "map_err g (Ok x) = Ok x"
  "map_err g (Err e) = Err (g e)"
  "map_err g Panic = Panic"
  by (simp_all add: map_err_def)

lemma map_err_eq [result_simps]:
  "map_err g m = Ok y \<longleftrightarrow> m = Ok y"
  "map_err g m = Panic \<longleftrightarrow> m = Panic"
  "map_err g m = Err e \<longleftrightarrow> (\<exists>e'. m = Err e' \<and> e = g e')"
  by (cases m; auto)+

lemma ok_or_simps [simp, result_simps]:
  "ok_or (Some x) e = Ok x"
  "ok_or None e = Err e"
  by (simp_all add: ok_or_def)

lemma ok_or_eq [result_simps]:
  "ok_or x e = Ok y \<longleftrightarrow> x = Some y"
  "ok_or x e \<noteq> Panic"
  by (cases x; simp)+

lemma no_panic_simps [simp, result_simps]:
  "no_panic (Ok x)" "no_panic (Err e)" "\<not> no_panic Panic"
  by (simp_all add: no_panic_def)

lemma no_panic_rbind [intro]:
  "no_panic m \<Longrightarrow> (\<And>x. m = Ok x \<Longrightarrow> no_panic (f x)) \<Longrightarrow> no_panic (rbind m f)"
  by (cases m) auto

lemma no_panic_if: "no_panic x \<Longrightarrow> no_panic y \<Longrightarrow> no_panic (if c then x else y)"
  by simp

lemma no_panic_ok_or [simp, intro]: "no_panic (ok_or x e)"
  by (cases x) auto

lemma no_panic_map_err [simp]: "no_panic (map_err g m) = no_panic m"
  by (cases m) auto

lemma is_ok_simps [simp, result_simps]:
  "is_ok (Ok x)" "\<not> is_ok (Err e)" "\<not> is_ok Panic"
  by (simp_all add: is_ok_def)

lemma is_ok_iff: "is_ok m \<longleftrightarrow> (\<exists>x. m = Ok x)"
  by (cases m) auto

text \<open>
  Comparing two computations of the same shape: if the second one succeeds wherever the first does,
  part by part, so does the whole.
\<close>

lemma rbind_relax:
  assumes "rbind m k = Ok r" "\<And>x. m = Ok x \<Longrightarrow> m' = Ok x"
    and "\<And>x. m = Ok x \<Longrightarrow> k x = Ok r \<Longrightarrow> k' x = Ok r"
  shows "rbind m' k' = Ok r"
  using assms by (auto simp: rbind_eq_Ok)

lemma if_relax:
  assumes "(if c then x else y) = Ok r" "c \<Longrightarrow> x = Ok r \<Longrightarrow> x' = Ok r" "\<not> c \<Longrightarrow> y = Ok r \<Longrightarrow> y' = Ok r"
  shows "(if c then x' else y') = Ok r"
  using assms by (auto split: if_splits)

lemma guard_relax:
  assumes "(if c then Err e else y) = Ok r" "c' \<Longrightarrow> c" "y = Ok r \<Longrightarrow> y' = Ok r"
  shows "(if c' then Err e else y') = Ok r"
  using assms by (auto split: if_splits)

section \<open>Machine integers\<close>

type_synonym byte = "8 word"
type_synonym bytes = "8 word list"
type_synonym u32 = "32 word"
type_synonym u64 = "64 word"

text \<open>A signed 64-bit value is an integer kept in range; leaving the range is a panic.\<close>

definition in_i64 :: "int \<Rightarrow> bool" where
  "in_i64 v \<longleftrightarrow> - (2 ^ 63) \<le> v \<and> v < 2 ^ 63"

definition checked_i64 :: "int \<Rightarrow> ('e, int) result" where
  "checked_i64 v = (if in_i64 v then Ok v else Panic)"

definition u32_max :: nat where
  "u32_max = 2 ^ 32 - 1"

definition checked_u32_add :: "nat \<Rightarrow> nat \<Rightarrow> ('e, nat) result" where
  "checked_u32_add a b = (if a + b \<le> u32_max then Ok (a + b) else Panic)"

lemma checked_i64_Ok [simp]: "checked_i64 v = Ok w \<longleftrightarrow> in_i64 v \<and> w = v"
  by (auto simp: checked_i64_def)

lemma no_panic_checked_i64 [simp]: "no_panic (checked_i64 v) \<longleftrightarrow> in_i64 v"
  by (auto simp: checked_i64_def)

lemma checked_u32_add_Ok [simp]:
  "checked_u32_add a b = Ok c \<longleftrightarrow> a + b \<le> u32_max \<and> c = a + b"
  by (auto simp: checked_u32_add_def)

lemma no_panic_checked_u32_add [simp]: "no_panic (checked_u32_add a b) \<longleftrightarrow> a + b \<le> u32_max"
  by (auto simp: checked_u32_add_def)

section \<open>Little-endian reads\<close>

text \<open>
  The script readers assemble a length from bytes by \<open>b0 | b1 << 8 | \<dots>\<close> on \<open>usize\<close>.
\<close>

definition le16 :: "byte \<Rightarrow> byte \<Rightarrow> nat" where
  "le16 b0 b1 = unat b0 OR push_bit 8 (unat b1)"

definition le32 :: "byte \<Rightarrow> byte \<Rightarrow> byte \<Rightarrow> byte \<Rightarrow> nat" where
  "le32 b0 b1 b2 b3 =
     ((unat b0 OR push_bit 8 (unat b1)) OR push_bit 16 (unat b2)) OR push_bit 24 (unat b3)"

lemma or_push_bit_nat:
  fixes a b :: nat
  assumes "a < 2 ^ n"
  shows "a OR push_bit n b = a + 2 ^ n * b"
proof -
  have "a AND push_bit n b = 0"
  proof (rule bit_eqI)
    fix k
    show "bit (a AND push_bit n b) k = bit 0 k"
    proof (cases "n \<le> k")
      case True
      have "a < 2 ^ k" using assms True by (meson less_le_trans one_le_numeral power_increasing)
      then have "\<not> bit a k" by (simp add: bit_iff_odd)
      then show ?thesis by (simp add: bit_and_iff)
    next
      case False
      then show ?thesis by (simp add: bit_and_iff bit_push_bit_iff)
    qed
  qed
  then have "a + push_bit n b = a OR push_bit n b"
    by (rule disjunctive_add_eq_or)
  then show ?thesis by (simp add: push_bit_eq_mult mult.commute)
qed

lemma unat_byte_less [simp, intro]: "unat (b :: byte) < 256"
  using unsigned_less [of b, where ?'a = nat] by simp

lemma unat_byte_le [simp, intro]: "unat (b :: byte) \<le> 255"
  using unat_byte_less [of b] by linarith

lemma le16_eq [byte_simps]: "le16 b0 b1 = unat b0 + 256 * unat b1"
  using or_push_bit_nat [of "unat b0" 8 "unat b1"] by (simp add: le16_def)

lemma le32_eq [byte_simps]:
  "le32 b0 b1 b2 b3 = unat b0 + 256 * unat b1 + 65536 * unat b2 + 16777216 * unat b3"
proof -
  have b: "unat b0 < 256" "unat b1 < 256" "unat b2 < 256" by simp_all
  have 1: "unat b0 OR push_bit 8 (unat b1) = unat b0 + 256 * unat b1"
    using or_push_bit_nat [of "unat b0" 8 "unat b1"] b by simp
  have 2: "(unat b0 + 256 * unat b1) OR push_bit 16 (unat b2)
      = unat b0 + 256 * unat b1 + 65536 * unat b2"
    using or_push_bit_nat [of "unat b0 + 256 * unat b1" 16 "unat b2"] b by simp
  have 3: "(unat b0 + 256 * unat b1 + 65536 * unat b2) OR push_bit 24 (unat b3)
      = unat b0 + 256 * unat b1 + 65536 * unat b2 + 16777216 * unat b3"
    using or_push_bit_nat [of "unat b0 + 256 * unat b1 + 65536 * unat b2" 24 "unat b3"] b by simp
  show ?thesis by (simp only: le32_def 1 2 3)
qed

lemma unat_of_nat_byte [simp]: "unat (of_nat n :: byte) = n mod 256"
  by (simp add: unat_of_nat)

text \<open>Slices \<open>&s[i..j]\<close> of a vector, for \<open>i \<le> j \<le> s.len()\<close>.\<close>

definition subslice :: "'a list \<Rightarrow> nat \<Rightarrow> nat \<Rightarrow> 'a list" where
  "subslice s i j = take (j - i) (drop i s)"

text \<open>The open slice \<open>&s[i..]\<close> and the read \<open>s[i]\<close>, which panic out of range.\<close>

definition slice_from :: "'a list \<Rightarrow> nat \<Rightarrow> ('e, 'a list) result" where
  "slice_from s i = (if i \<le> length s then Ok (drop i s) else Panic)"

definition index :: "'a list \<Rightarrow> nat \<Rightarrow> ('e, 'a) result" where
  "index s i = (if i < length s then Ok (s ! i) else Panic)"

lemma slice_from_Ok [simp]: "slice_from s i = Ok t \<longleftrightarrow> i \<le> length s \<and> t = drop i s"
  by (auto simp: slice_from_def)

lemma no_panic_slice_from [simp]: "no_panic (slice_from s i) \<longleftrightarrow> i \<le> length s"
  by (auto simp: slice_from_def)

lemma index_Ok [simp]: "index s i = Ok x \<longleftrightarrow> i < length s \<and> x = s ! i"
  by (auto simp: index_def)

lemma no_panic_index [simp]: "no_panic (index s i) \<longleftrightarrow> i < length s"
  by (auto simp: index_def)

lemma length_subslice [simp]: "j \<le> length s \<Longrightarrow> i \<le> j \<Longrightarrow> length (subslice s i j) = j - i"
  by (simp add: subslice_def)

lemma subslice_Cons [simp]: "subslice (x # s) (Suc i) (Suc j) = subslice s i j"
  by (simp add: subslice_def)

lemma subslice_full: "subslice s i (length s) = drop i s"
  by (simp add: subslice_def)

lemma drop_eq_subslice_append:
  "i \<le> j \<Longrightarrow> drop i s = subslice s i j @ drop j s"
proof -
  assume "i \<le> j"
  then have "drop j s = drop (j - i) (drop i s)" by simp
  then show ?thesis by (simp add: subslice_def del: drop_drop)
qed

lemma subslice_append:
  "i \<le> j \<Longrightarrow> j \<le> k \<Longrightarrow> subslice s i j @ subslice s j k = subslice s i k"
proof -
  assume a: "i \<le> j" "j \<le> k"
  have "take (k - i) (drop i s) = take (j - i + (k - j)) (drop i s)" using a by simp
  also have "\<dots> = take (j - i) (drop i s) @ take (k - j) (drop j s)"
    using a by (simp only: take_add) simp
  finally show ?thesis by (simp add: subslice_def)
qed

end
