(* ===== verification/Script_Error.thy ===== *)
theory Script_Error
  imports Prelude
begin

text \<open>
  The script errors of \<open>consensus/src/error.rs\<close>: the enumeration, the text a rejection quotes
  (\<open>as_str\<close>) and the parser of the test-vector names (\<open>from_test_name\<close>).  The Rust variant \<open>Ok\<close> is
  written \<open>NoError\<close> here, since \<open>Ok\<close> is the success outcome of a call.
\<close>

datatype ScriptError =
    NoError
  | UnknownError
  | EvalFalse
  | OpReturn
  | ScriptNum
  | ScriptSize
  | PushSize
  | OpCount
  | StackSize
  | SigCount
  | PubkeyCount
  | Verify
  | EqualVerify
  | CheckMultiSigVerify
  | CheckSigVerify
  | NumEqualVerify
  | BadOpcode
  | DisabledOpcode
  | InvalidStackOperation
  | InvalidAltstackOperation
  | UnbalancedConditional
  | NegativeLocktime
  | UnsatisfiedLocktime
  | SigHashtype
  | SigDer
  | MinimalData
  | SigPushOnly
  | SigHighS
  | SigNullDummy
  | PubkeyType
  | CleanStack
  | MinimalIf
  | SigNullFail
  | DiscourageUpgradableNops
  | DiscourageUpgradableWitnessProgram
  | DiscourageUpgradableTaprootVersion
  | DiscourageOpSuccess
  | DiscourageUpgradablePubkeyType
  | WitnessProgramWrongLength
  | WitnessProgramWitnessEmpty
  | WitnessProgramMismatch
  | WitnessMalleated
  | WitnessMalleatedP2sh
  | WitnessUnexpected
  | WitnessPubkeyType
  | SchnorrSigSize
  | SchnorrSigHashtype
  | SchnorrSig
  | TaprootWrongControlSize
  | TapscriptValidationWeight
  | TapscriptCheckMultiSig
  | TapscriptMinimalIf
  | TapscriptEmptyPubkey
  | OpCodeSeparator
  | SigFindAndDelete

primrec as_str :: "ScriptError \<Rightarrow> string" where
  "as_str NoError = ''No error''"
| "as_str UnknownError = ''unknown error''"
| "as_str EvalFalse = ''Script evaluated without error but finished with a false/empty top stack element''"
| "as_str OpReturn = ''OP_RETURN was encountered''"
| "as_str ScriptNum = ''Script number overflow''"
| "as_str ScriptSize = ''Script is too big''"
| "as_str PushSize = ''Push value size limit exceeded''"
| "as_str OpCount = ''Operation limit exceeded''"
| "as_str StackSize = ''Stack size limit exceeded''"
| "as_str SigCount = ''Signature count negative or greater than pubkey count''"
| "as_str PubkeyCount = ''Pubkey count negative or limit exceeded''"
| "as_str Verify = ''Script failed an OP_VERIFY operation''"
| "as_str EqualVerify = ''Script failed an OP_EQUALVERIFY operation''"
| "as_str CheckMultiSigVerify = ''Script failed an OP_CHECKMULTISIGVERIFY operation''"
| "as_str CheckSigVerify = ''Script failed an OP_CHECKSIGVERIFY operation''"
| "as_str NumEqualVerify = ''Script failed an OP_NUMEQUALVERIFY operation''"
| "as_str BadOpcode = ''Opcode missing or not understood''"
| "as_str DisabledOpcode = ''Attempted to use a disabled opcode''"
| "as_str InvalidStackOperation = ''Operation not valid with the current stack size''"
| "as_str InvalidAltstackOperation = ''Operation not valid with the current altstack size''"
| "as_str UnbalancedConditional = ''Invalid OP_IF construction''"
| "as_str NegativeLocktime = ''Negative locktime''"
| "as_str UnsatisfiedLocktime = ''Locktime requirement not satisfied''"
| "as_str SigHashtype = ''Signature hash type missing or not understood''"
| "as_str SigDer = ''Non-canonical DER signature''"
| "as_str MinimalData = ''Data push larger than necessary''"
| "as_str SigPushOnly = ''Only push operators allowed in signatures''"
| "as_str SigHighS = ''Non-canonical signature: S value is unnecessarily high''"
| "as_str SigNullDummy = ''Dummy CHECKMULTISIG argument must be zero''"
| "as_str PubkeyType = ''Public key is neither compressed or uncompressed''"
| "as_str CleanStack = ''Stack size must be exactly one after execution''"
| "as_str MinimalIf = ''OP_IF/NOTIF argument must be minimal''"
| "as_str SigNullFail = ''Signature must be zero for failed CHECK(MULTI)SIG operation''"
| "as_str DiscourageUpgradableNops = ''NOPx reserved for soft-fork upgrades''"
| "as_str DiscourageUpgradableWitnessProgram = ''Witness version reserved for soft-fork upgrades''"
| "as_str DiscourageUpgradableTaprootVersion = ''Taproot version reserved for soft-fork upgrades''"
| "as_str DiscourageOpSuccess = ''OP_SUCCESSx reserved for soft-fork upgrades''"
| "as_str DiscourageUpgradablePubkeyType = ''Public key version reserved for soft-fork upgrades''"
| "as_str WitnessProgramWrongLength = ''Witness program has incorrect length''"
| "as_str WitnessProgramWitnessEmpty = ''Witness program was passed an empty witness''"
| "as_str WitnessProgramMismatch = ''Witness program hash mismatch''"
| "as_str WitnessMalleated = ''Witness requires empty scriptSig''"
| "as_str WitnessMalleatedP2sh = ''Witness requires only-redeemscript scriptSig''"
| "as_str WitnessUnexpected = ''Witness provided for non-witness script''"
| "as_str WitnessPubkeyType = ''Using non-compressed keys in segwit''"
| "as_str SchnorrSigSize = ''Invalid Schnorr signature size''"
| "as_str SchnorrSigHashtype = ''Invalid Schnorr signature hash type''"
| "as_str SchnorrSig = ''Invalid Schnorr signature''"
| "as_str TaprootWrongControlSize = ''Invalid Taproot control block size''"
| "as_str TapscriptValidationWeight = ''Too much signature validation relative to witness weight''"
| "as_str TapscriptCheckMultiSig = ''OP_CHECKMULTISIG(VERIFY) is not available in tapscript''"
| "as_str TapscriptMinimalIf = ''OP_IF/NOTIF argument must be minimal in tapscript''"
| "as_str TapscriptEmptyPubkey = ''Public key is empty in tapscript''"
| "as_str OpCodeSeparator = ''Using OP_CODESEPARATOR in non-witness script''"
| "as_str SigFindAndDelete = ''Signature is found in scriptCode''"

definition test_names :: "(string \<times> ScriptError) list" where
  "test_names = [
    (''OK'', NoError),
    (''UNKNOWN_ERROR'', UnknownError),
    (''EVAL_FALSE'', EvalFalse),
    (''OP_RETURN'', OpReturn),
    (''SCRIPTNUM'', ScriptNum),
    (''SCRIPTNUM_OVERFLOW'', ScriptNum),
    (''SCRIPT_SIZE'', ScriptSize),
    (''PUSH_SIZE'', PushSize),
    (''OP_COUNT'', OpCount),
    (''STACK_SIZE'', StackSize),
    (''SIG_COUNT'', SigCount),
    (''PUBKEY_COUNT'', PubkeyCount),
    (''VERIFY'', Verify),
    (''EQUALVERIFY'', EqualVerify),
    (''CHECKMULTISIGVERIFY'', CheckMultiSigVerify),
    (''CHECKSIGVERIFY'', CheckSigVerify),
    (''NUMEQUALVERIFY'', NumEqualVerify),
    (''BAD_OPCODE'', BadOpcode),
    (''DISABLED_OPCODE'', DisabledOpcode),
    (''INVALID_STACK_OPERATION'', InvalidStackOperation),
    (''INVALID_ALTSTACK_OPERATION'', InvalidAltstackOperation),
    (''UNBALANCED_CONDITIONAL'', UnbalancedConditional),
    (''NEGATIVE_LOCKTIME'', NegativeLocktime),
    (''UNSATISFIED_LOCKTIME'', UnsatisfiedLocktime),
    (''SIG_HASHTYPE'', SigHashtype),
    (''SIG_DER'', SigDer),
    (''MINIMALDATA'', MinimalData),
    (''SIG_PUSHONLY'', SigPushOnly),
    (''SIG_HIGH_S'', SigHighS),
    (''SIG_NULLDUMMY'', SigNullDummy),
    (''NULLDUMMY'', SigNullDummy),
    (''PUBKEYTYPE'', PubkeyType),
    (''CLEANSTACK'', CleanStack),
    (''MINIMALIF'', MinimalIf),
    (''SIG_NULLFAIL'', SigNullFail),
    (''NULLFAIL'', SigNullFail),
    (''DISCOURAGE_UPGRADABLE_NOPS'', DiscourageUpgradableNops),
    (''DISCOURAGE_UPGRADABLE_WITNESS_PROGRAM'', DiscourageUpgradableWitnessProgram),
    (''DISCOURAGE_UPGRADABLE_TAPROOT_VERSION'', DiscourageUpgradableTaprootVersion),
    (''DISCOURAGE_OP_SUCCESS'', DiscourageOpSuccess),
    (''DISCOURAGE_UPGRADABLE_PUBKEYTYPE'', DiscourageUpgradablePubkeyType),
    (''WITNESS_PROGRAM_WRONG_LENGTH'', WitnessProgramWrongLength),
    (''WITNESS_PROGRAM_WITNESS_EMPTY'', WitnessProgramWitnessEmpty),
    (''WITNESS_PROGRAM_MISMATCH'', WitnessProgramMismatch),
    (''WITNESS_MALLEATED'', WitnessMalleated),
    (''WITNESS_MALLEATED_P2SH'', WitnessMalleatedP2sh),
    (''WITNESS_UNEXPECTED'', WitnessUnexpected),
    (''WITNESS_PUBKEYTYPE'', WitnessPubkeyType),
    (''SCHNORR_SIG_SIZE'', SchnorrSigSize),
    (''SCHNORR_SIG_HASHTYPE'', SchnorrSigHashtype),
    (''SCHNORR_SIG'', SchnorrSig),
    (''TAPROOT_WRONG_CONTROL_SIZE'', TaprootWrongControlSize),
    (''TAPSCRIPT_VALIDATION_WEIGHT'', TapscriptValidationWeight),
    (''TAPSCRIPT_CHECKMULTISIG'', TapscriptCheckMultiSig),
    (''TAPSCRIPT_MINIMALIF'', TapscriptMinimalIf),
    (''TAPSCRIPT_EMPTY_PUBKEY'', TapscriptEmptyPubkey),
    (''OP_CODESEPARATOR'', OpCodeSeparator),
    (''SIG_FINDANDDELETE'', SigFindAndDelete)]"

definition from_test_name :: "string \<Rightarrow> ScriptError option" where
  "from_test_name name = map_of test_names name"

text \<open>Two errors never print alike, so the text of a rejection names its error.\<close>

lemma as_str_inj: "as_str e = as_str e' \<Longrightarrow> e = e'"
  by (cases e; simp only: as_str.simps; cases e';
      simp only: as_str.simps list.inject char.inject simp_thms list.distinct)

end
