(* ===== verification/Flags.thy ===== *)
theory Flags
  imports Prelude
begin

text \<open>
  The verification flags of \<open>consensus/src/flags.rs\<close>: the bit constants, the mask of recognised
  bits, \<open>valid_flags\<close> and \<open>has_flag\<close>.  The lemmas order flag words by inclusion of their bits; a
  soft fork adds bits, so the order is the one in which rules become stricter.
\<close>

named_theorems flag_defs \<open>the flag constants\<close>

definition VERIFY_NONE :: u32 where [flag_defs]: "VERIFY_NONE = 0"
definition VERIFY_P2SH :: u32 where [flag_defs]: "VERIFY_P2SH = push_bit 0 1"
definition VERIFY_STRICTENC :: u32 where [flag_defs]: "VERIFY_STRICTENC = push_bit 1 1"
definition VERIFY_DERSIG :: u32 where [flag_defs]: "VERIFY_DERSIG = push_bit 2 1"
definition VERIFY_LOW_S :: u32 where [flag_defs]: "VERIFY_LOW_S = push_bit 3 1"
definition VERIFY_NULLDUMMY :: u32 where [flag_defs]: "VERIFY_NULLDUMMY = push_bit 4 1"
definition VERIFY_SIGPUSHONLY :: u32 where [flag_defs]: "VERIFY_SIGPUSHONLY = push_bit 5 1"
definition VERIFY_MINIMALDATA :: u32 where [flag_defs]: "VERIFY_MINIMALDATA = push_bit 6 1"
definition VERIFY_DISCOURAGE_UPGRADABLE_NOPS :: u32 where
  [flag_defs]: "VERIFY_DISCOURAGE_UPGRADABLE_NOPS = push_bit 7 1"
definition VERIFY_CLEANSTACK :: u32 where [flag_defs]: "VERIFY_CLEANSTACK = push_bit 8 1"
definition VERIFY_CHECKLOCKTIMEVERIFY :: u32 where
  [flag_defs]: "VERIFY_CHECKLOCKTIMEVERIFY = push_bit 9 1"
definition VERIFY_CHECKSEQUENCEVERIFY :: u32 where
  [flag_defs]: "VERIFY_CHECKSEQUENCEVERIFY = push_bit 10 1"
definition VERIFY_WITNESS :: u32 where [flag_defs]: "VERIFY_WITNESS = push_bit 11 1"
definition VERIFY_DISCOURAGE_UPGRADABLE_WITNESS_PROGRAM :: u32 where
  [flag_defs]: "VERIFY_DISCOURAGE_UPGRADABLE_WITNESS_PROGRAM = push_bit 12 1"
definition VERIFY_MINIMALIF :: u32 where [flag_defs]: "VERIFY_MINIMALIF = push_bit 13 1"
definition VERIFY_NULLFAIL :: u32 where [flag_defs]: "VERIFY_NULLFAIL = push_bit 14 1"
definition VERIFY_WITNESS_PUBKEYTYPE :: u32 where
  [flag_defs]: "VERIFY_WITNESS_PUBKEYTYPE = push_bit 15 1"
definition VERIFY_CONST_SCRIPTCODE :: u32 where
  [flag_defs]: "VERIFY_CONST_SCRIPTCODE = push_bit 16 1"
definition VERIFY_TAPROOT :: u32 where [flag_defs]: "VERIFY_TAPROOT = push_bit 17 1"
definition VERIFY_DISCOURAGE_UPGRADABLE_TAPROOT_VERSION :: u32 where
  [flag_defs]: "VERIFY_DISCOURAGE_UPGRADABLE_TAPROOT_VERSION = push_bit 18 1"
definition VERIFY_DISCOURAGE_OP_SUCCESS :: u32 where
  [flag_defs]: "VERIFY_DISCOURAGE_OP_SUCCESS = push_bit 19 1"
definition VERIFY_DISCOURAGE_UPGRADABLE_PUBKEYTYPE :: u32 where
  [flag_defs]: "VERIFY_DISCOURAGE_UPGRADABLE_PUBKEYTYPE = push_bit 20 1"

definition VERIFY_ALL_PRE_TAPROOT :: u32 where
  [flag_defs]: "VERIFY_ALL_PRE_TAPROOT =
     VERIFY_P2SH OR VERIFY_DERSIG OR VERIFY_NULLDUMMY OR VERIFY_CHECKLOCKTIMEVERIFY
       OR VERIFY_CHECKSEQUENCEVERIFY OR VERIFY_WITNESS"

definition MAX_FLAGS_BIT :: nat where [flag_defs]: "MAX_FLAGS_BIT = 20"

definition ALL_FLAGS :: u32 where
  [flag_defs]: "ALL_FLAGS = push_bit (MAX_FLAGS_BIT + 1) 1 - 1"

definition VERIFY_MINIMALIF_BASE :: u32 where
  [flag_defs]: "VERIFY_MINIMALIF_BASE = push_bit 31 1"

definition valid_flags :: "u32 \<Rightarrow> bool" where
  "valid_flags flags \<longleftrightarrow> flags AND NOT ALL_FLAGS = 0"

definition has_flag :: "u32 \<Rightarrow> u32 \<Rightarrow> bool" where
  "has_flag flags flag \<longleftrightarrow> flags AND flag \<noteq> 0"

section \<open>Inclusion of flag words\<close>

definition flags_le :: "u32 \<Rightarrow> u32 \<Rightarrow> bool" where
  "flags_le f g \<longleftrightarrow> f AND NOT g = 0"

lemma flags_le_bit: "flags_le f g \<longleftrightarrow> (\<forall>n. bit f n \<longrightarrow> bit g n)"
proof
  assume h: "flags_le f g"
  show "\<forall>n. bit f n \<longrightarrow> bit g n"
  proof (intro allI impI)
    fix n assume b: "bit f n"
    have "\<not> bit (f AND NOT g) n" using h by (simp add: flags_le_def)
    moreover have "n < 32" using bit_imp_le_length [OF b] by simp
    ultimately show "bit g n" using b by (simp add: bit_and_iff bit_not_iff)
  qed
next
  assume "\<forall>n. bit f n \<longrightarrow> bit g n"
  then show "flags_le f g"
    by (auto simp: flags_le_def bit_eq_iff bit_and_iff bit_not_iff)
qed

lemma flags_le_refl [simp, intro]: "flags_le f f"
  by (simp add: flags_le_bit)

lemma flags_le_trans: "flags_le f g \<Longrightarrow> flags_le g h \<Longrightarrow> flags_le f h"
  by (simp add: flags_le_bit)

lemma flags_le_none [simp]: "flags_le 0 f"
  by (simp add: flags_le_def)

lemma has_flag_mono: "flags_le f g \<Longrightarrow> has_flag f m \<Longrightarrow> has_flag g m"
  by (auto simp: has_flag_def flags_le_bit bit_eq_iff bit_and_iff)

lemma has_flag_bit: "n < 32 \<Longrightarrow> has_flag f (push_bit n 1) \<longleftrightarrow> bit f n"
  by (auto simp: has_flag_def bit_eq_iff [of _ 0] bit_and_iff bit_exp_iff)

lemma valid_flags_iff: "valid_flags f \<longleftrightarrow> (\<forall>n. bit f n \<longrightarrow> n \<le> 20)"
proof -
  have all: "bit ALL_FLAGS n \<longleftrightarrow> n \<le> 20" if "n < 32" for n
  proof -
    have "ALL_FLAGS = mask 21"
      by (simp add: ALL_FLAGS_def MAX_FLAGS_BIT_def mask_eq_exp_minus_1 push_bit_eq_mult)
    then have "bit ALL_FLAGS n = bit (mask 21 :: u32) n" by (simp only:)
    then show ?thesis using that by (simp only: bit_mask_iff) auto
  qed
  have "valid_flags f \<longleftrightarrow> flags_le f ALL_FLAGS"
    by (simp add: valid_flags_def flags_le_def)
  also have "\<dots> \<longleftrightarrow> (\<forall>n. bit f n \<longrightarrow> n \<le> 20)"
    using all bit_imp_le_length [of f] by (auto simp: flags_le_bit)
  finally show ?thesis .
qed

lemma valid_flags_not_minimalif_base: "valid_flags f \<Longrightarrow> \<not> has_flag f VERIFY_MINIMALIF_BASE"
  using has_flag_bit [of 31 f] by (fastforce simp: VERIFY_MINIMALIF_BASE_def valid_flags_iff)

end
