(* ===== verification/Script_Num.thy ===== *)
theory Script_Num
  imports Prelude
begin

text \<open>
  Script numbers (\<open>consensus/src/scriptnum.rs\<close>) and the boolean cast of stack items
  (\<open>consensus/src/stack.rs\<close>).  A \<open>ScriptNum\<close> is its \<open>i64\<close> value, an integer in range; the byte
  loops run on 64-bit words as in the code.  The lemmas give the value of an encoding as a
  sign-magnitude number, the round trip in both directions, and the bounds that keep the
  arithmetic of the numeric opcodes inside \<open>i64\<close>.
\<close>

datatype ScriptNumError = ScriptNumError

definition DEFAULT_MAX_NUM_SIZE :: nat where
  "DEFAULT_MAX_NUM_SIZE = 4"

section \<open>Decoding\<close>

text \<open>The accumulation \<open>result |= (byte as i64) << (8 * i)\<close>, from index \<open>i\<close> on.\<close>

fun or_bytes :: "nat \<Rightarrow> bytes \<Rightarrow> u64 \<Rightarrow> u64" where
  "or_bytes i [] result = result"
| "or_bytes i (b # bs) result = or_bytes (Suc i) bs (result OR push_bit (8 * i) (ucast b))"

definition decode_bytes :: "bytes \<Rightarrow> ('e, int) result" where
  "decode_bytes data =
     (if data = [] then Ok 0
      else if length data > 8 then Panic \<comment> \<open>shift amount out of range\<close>
      else
        let result = or_bytes 0 data 0 in
        if last data AND 0x80 \<noteq> 0 then
          let mask = push_bit (8 * (length data - 1)) (0x80 :: u64)
          in checked_i64 (- sint (result AND NOT mask))
        else Ok (sint result))"

definition from_bytes :: "bytes \<Rightarrow> bool \<Rightarrow> nat \<Rightarrow> (ScriptNumError, int) result" where
  "from_bytes data require_minimal max_num_size =
     (if length data > max_num_size then Err ScriptNumError
      else if require_minimal \<and> data \<noteq> [] \<and> last data AND 0x7f = 0
              \<and> (length data \<le> 1 \<or> data ! (length data - 2) AND 0x80 = 0)
      then Err ScriptNumError
      else decode_bytes data)"

definition from_bytes_default :: "bytes \<Rightarrow> bool \<Rightarrow> (ScriptNumError, int) result" where
  "from_bytes_default data require_minimal = from_bytes data require_minimal DEFAULT_MAX_NUM_SIZE"

definition getint :: "int \<Rightarrow> int" where
  "getint v = (if v > 2 ^ 31 - 1 then 2 ^ 31 - 1 else if v < - (2 ^ 31) then - (2 ^ 31) else v)"

section \<open>Encoding\<close>

text \<open>The loop \<open>while absvalue > 0\<close>.\<close>

function abs_bytes :: "u64 \<Rightarrow> bytes" where
  "abs_bytes absvalue =
     (if absvalue > 0 then ucast (absvalue AND 0xff) # abs_bytes (drop_bit 8 absvalue) else [])"
  by pat_completeness auto
termination
proof (relation "measure unat")
  fix absvalue :: u64
  assume "absvalue > 0"
  then have "0 < unat absvalue" by (simp add: word_less_nat_alt)
  then have "unat absvalue div 256 < unat absvalue" by simp
  then show "(drop_bit 8 absvalue, absvalue) \<in> measure unat"
    by (simp add: unat_drop_bit_eq drop_bit_eq_div [where ?'a = nat] del: drop_bit_eq_div)
qed simp

declare abs_bytes.simps [simp del]

definition serialize_i64 :: "int \<Rightarrow> bytes" where
  "serialize_i64 v =
     (if v = 0 then []
      else
        let neg = v < 0;
            absvalue = (if neg then NOT (word_of_int v :: u64) + 1 else word_of_int v);
            result = abs_bytes absvalue
        in if last result AND 0x80 \<noteq> 0 then result @ [if neg then 0x80 else 0x00]
           else if neg then butlast result @ [last result OR 0x80]
           else result)"

definition num_add :: "int \<Rightarrow> int \<Rightarrow> ('e, int) result" where
  "num_add a b = checked_i64 (a + b)"

definition num_sub :: "int \<Rightarrow> int \<Rightarrow> ('e, int) result" where
  "num_sub a b = checked_i64 (a - b)"

definition negate :: "int \<Rightarrow> ('e, int) result" where
  "negate v = (if v \<noteq> - (2 ^ 63) then Ok (- v) else Panic)"

definition num_of_bool :: "bool \<Rightarrow> int" where
  "num_of_bool b = (if b then 1 else 0)"

section \<open>Boolean cast of stack items\<close>

text \<open>The loop of \<open>cast_to_bool\<close>, over the bytes that are left of a vector.\<close>

fun cast_to_bool :: "bytes \<Rightarrow> bool" where
  "cast_to_bool [] = False"
| "cast_to_bool (b # bs) = (if b \<noteq> 0 then \<not> (bs = [] \<and> b = 0x80) else cast_to_bool bs)"

definition STACK_TRUE :: bytes where "STACK_TRUE = [1]"
definition STACK_FALSE :: bytes where "STACK_FALSE = []"

definition stack_bool :: "bool \<Rightarrow> bytes" where
  "stack_bool b = (if b then STACK_TRUE else STACK_FALSE)"

lemma cast_to_bool_stack_bool [simp]: "cast_to_bool (stack_bool b) = b"
  by (simp add: stack_bool_def STACK_TRUE_def STACK_FALSE_def)

section \<open>The value of a byte vector\<close>

fun le_nat :: "bytes \<Rightarrow> nat" where
  "le_nat [] = 0"
| "le_nat (b # bs) = unat b + 256 * le_nat bs"

lemma le_nat_less: "le_nat bs < 256 ^ length bs"
proof (induction bs)
  case (Cons b bs)
  have "le_nat (b # bs) < 256 * (le_nat bs + 1)"
    using unat_byte_less [of b] by (simp del: unat_byte_less)
  also have "\<dots> \<le> 256 * 256 ^ length bs"
    using Cons by (intro mult_left_mono) simp_all
  finally show ?case by simp
qed simp

lemma le_nat_append: "le_nat (as @ bs) = le_nat as + 256 ^ length as * le_nat bs"
  by (induction as) (auto simp: algebra_simps)

lemma pow256: "(256::nat) ^ n = 2 ^ (8 * n)"
  by (simp add: power_mult)

text \<open>Bit tests on one byte.\<close>

lemma byte_and_80: "(b :: byte) AND 0x80 \<noteq> 0 \<longleftrightarrow> 128 \<le> unat b"
proof -
  have "b AND 0x80 \<noteq> 0 \<longleftrightarrow> bit b 7"
    using and_exp_eq_0_iff_not_bit [of b 7] by simp
  also have "\<dots> \<longleftrightarrow> odd (unat b div 128)"
    using bit_iff_odd [of "unat b" 7] by (simp add: bit_unsigned_iff bit_imp_le_length)
  also have "\<dots> \<longleftrightarrow> 128 \<le> unat b"
  proof -
    have "unat b div 128 < 2" using less_mult_imp_div_less [of "unat b" 2 128] by simp
    then have "odd (unat b div 128) \<longleftrightarrow> unat b div 128 \<ge> 1" by (cases "unat b div 128") auto
    then show ?thesis by (simp add: Suc_le_eq div_greater_zero_iff)
  qed
  finally show ?thesis .
qed

lemma byte_and_7f: "(b :: byte) AND 0x7f = 0 \<longleftrightarrow> unat b mod 128 = 0"
proof -
  have "b AND 0x7f = take_bit 7 b"
    using take_bit_eq_mask [of 7 b] by (simp add: mask_eq_exp_minus_1)
  moreover have "take_bit 7 b = 0 \<longleftrightarrow> unat (take_bit 7 b) = 0" by (simp only: unat_eq_zero)
  moreover have "unat (take_bit 7 b) = unat b mod 128"
    by (simp only: unsigned_take_bit_eq) (simp add: take_bit_eq_mod)
  ultimately show ?thesis by (simp only:)
qed

lemma byte_or_80: "unat (b :: byte) < 128 \<Longrightarrow> unat (b OR 0x80) = unat b + 128"
proof -
  assume "unat b < 128"
  then have "unat b OR push_bit 7 1 = unat b + 2 ^ 7 * 1" by (intro or_push_bit_nat) simp
  then show ?thesis by (simp add: unsigned_or_eq)
qed

lemmas byte_bits = byte_and_80 byte_and_7f byte_or_80

lemma unat_or_push:
  fixes r :: u64 and b :: byte
  assumes "unat r < 2 ^ n" "n + 8 \<le> 64"
  shows "unat (r OR push_bit n (ucast b)) = unat r + 2 ^ n * unat b"
proof -
  have "unat b < 2 ^ 8" by simp
  then have "2 ^ n * unat b < 2 ^ n * 2 ^ 8" by (intro mult_strict_left_mono) simp_all
  also have "\<dots> = 2 ^ (n + 8)" by (simp add: power_add)
  also have "\<dots> \<le> (2 :: nat) ^ 64" using assms(2) by (intro power_increasing) simp_all
  finally have le: "2 ^ n * unat b < 2 ^ 64" .
  have "unat (push_bit n (ucast b :: u64)) = push_bit n (unat b)"
  proof -
    have "unat b < 2 ^ 64" using unat_byte_less [of b] by (simp del: unat_byte_less)
    then have t: "take_bit 64 (unat b) = unat b" by (rule take_bit_nat_eq_self)
    have "take_bit 64 (push_bit n (unat b)) = push_bit n (unat b)"
      using le by (intro take_bit_nat_eq_self) (simp only: push_bit_eq_mult mult.commute)
    then show ?thesis by (simp only: unsigned_push_bit_eq unsigned_ucast_eq t) (simp add: t)
  qed
  then have "unat (r OR push_bit n (ucast b)) = unat r OR push_bit n (unat b)"
    by (simp add: unsigned_or_eq)
  then show ?thesis using or_push_bit_nat [OF assms(1)] by simp
qed

lemma unat_or_bytes:
  "unat r < 256 ^ i \<Longrightarrow> i + length bs \<le> 8 \<Longrightarrow> unat (or_bytes i bs r) = unat r + 256 ^ i * le_nat bs"
proof (induction bs arbitrary: i r)
  case (Cons b bs)
  let ?r = "r OR push_bit (8 * i) (ucast b)"
  have u: "unat ?r = unat r + 256 ^ i * unat b"
    using unat_or_push [of r "8 * i" b] Cons.prems by (simp add: pow256)
  have "unat ?r < 256 ^ Suc i"
  proof -
    have "unat ?r < 256 ^ i * (unat b + 1)" using u Cons.prems(1) by simp
    also have "\<dots> \<le> 256 ^ i * 256"
      using unat_byte_less [of b] by (intro mult_left_mono) simp_all
    finally show ?thesis by simp
  qed
  then have "unat (or_bytes (Suc i) bs ?r) = unat ?r + 256 ^ Suc i * le_nat bs"
    using Cons.prems(2) by (intro Cons.IH) simp_all
  then have "unat (or_bytes i (b # bs) r) = unat r + 256 ^ i * unat b + 256 ^ Suc i * le_nat bs"
    by (simp only: or_bytes.simps u)
  then show ?case by (simp only: le_nat.simps power_Suc distrib_left mult.assoc mult.left_commute add.assoc)
qed simp

text \<open>The sign-magnitude number a byte vector denotes: its last byte carries the sign.\<close>

definition sm_mag :: "bytes \<Rightarrow> nat" where
  "sm_mag data = le_nat (butlast data) + 256 ^ (length data - 1) * (unat (last data) mod 128)"

definition sm_value :: "bytes \<Rightarrow> int" where
  "sm_value data = (if data = [] then 0 else if 128 \<le> unat (last data) then - int (sm_mag data) else int (sm_mag data))"

lemma sm_mag_less: "data \<noteq> [] \<Longrightarrow> sm_mag data < 128 * 256 ^ (length data - 1)"
proof -
  assume "data \<noteq> []"
  let ?q = "256 ^ (length data - 1) :: nat"
  have "le_nat (butlast data) < ?q" using le_nat_less [of "butlast data"] by simp
  then have "sm_mag data < ?q * (unat (last data) mod 128 + 1)" by (simp add: sm_mag_def)
  also have "\<dots> \<le> ?q * 128" by (intro mult_left_mono) (simp_all add: Suc_le_eq)
  finally show ?thesis by (simp add: mult.commute)
qed

lemma sm_mag_pow: "data \<noteq> [] \<Longrightarrow> sm_mag data < 2 ^ (8 * length data - 1)"
proof -
  assume d: "data \<noteq> []"
  then obtain n where "length data = Suc n" by (cases data) auto
  then have "128 * 256 ^ (length data - 1) = (2 :: nat) ^ (8 * length data - 1)"
    by (simp add: pow256 power_add)
  then show ?thesis using sm_mag_less [OF d] by simp
qed

lemma le_nat_split:
  "data \<noteq> [] \<Longrightarrow> le_nat data = sm_mag data + (if 128 \<le> unat (last data) then 2 ^ (8 * length data - 1) else 0)"
proof -
  assume d: "data \<noteq> []"
  then obtain n where n: "length data = Suc n" by (cases data) auto
  have p: "(2 :: nat) ^ (8 * length data - 1) = 256 ^ n * 128" using n by (simp add: pow256 power_add)
  have "le_nat data = le_nat (butlast data) + 256 ^ n * unat (last data)"
    using le_nat_append [of "butlast data" "[last data]"] d n by simp
  moreover have "unat (last data) = unat (last data) mod 128 + (if 128 \<le> unat (last data) then 128 else 0)"
    using unat_byte_less [of "last data"]
    by (cases "128 \<le> unat (last data)") (simp_all add: le_mod_geq del: unat_byte_less)
  ultimately have "le_nat data = le_nat (butlast data)
      + 256 ^ n * (unat (last data) mod 128 + (if 128 \<le> unat (last data) then 128 else 0))"
    by (simp only:)
  then show ?thesis unfolding sm_mag_def p using n by (simp add: distrib_left del: mult_cancel1)
qed

lemma sint_of_small: "unat (w :: u64) < 2 ^ 63 \<Longrightarrow> sint w = int (unat w)"
proof -
  assume "unat w < 2 ^ 63"
  then have "uint w < 2 ^ 63" by (metis of_nat_less_iff of_nat_numeral of_nat_power uint_nat)
  then have "signed_take_bit 63 (uint w) = uint w"
    by (intro signed_take_bit_int_eq_self) (auto intro: order_trans [of _ 0])
  then have "sint w = uint w" by (simp add: sint_uint)
  then show ?thesis by (simp only: uint_nat)
qed

lemma and_not_top_bit:
  fixes w :: u64
  assumes "unat w < 2 ^ Suc k" "k < 64"
  shows "unat (w AND NOT (push_bit k 1)) = unat w mod 2 ^ k"
proof -
  have "w AND NOT (push_bit k 1) = take_bit k w"
  proof (rule bit_word_eqI)
    fix n assume n: "n < LENGTH(64)"
    have "\<not> bit w n" if "k < n"
    proof -
      have "unat w < 2 ^ n" using assms(1) that
        by (meson less_le_trans one_le_numeral power_increasing Suc_leI)
      then have "\<not> bit (unat w) n" by (simp add: bit_iff_odd)
      then show ?thesis using n by (simp add: bit_unsigned_iff)
    qed
    then show "bit (w AND NOT (push_bit k 1)) n \<longleftrightarrow> bit (take_bit k w) n"
      using n linorder_neqE_nat [of n k]
      by (auto simp: bit_and_iff bit_not_iff bit_take_bit_iff bit_exp_iff)
  qed
  then show ?thesis by (simp only: unsigned_take_bit_eq) (simp add: take_bit_eq_mod)
qed

lemma decode_bytes_eq:
  assumes "length data \<le> 8"
  shows "decode_bytes data = Ok (sm_value data)"
proof (cases "data = []")
  case True
  then show ?thesis by (simp add: decode_bytes_def sm_value_def)
next
  case False
  then obtain n where n: "length data = Suc n" by (cases data) auto
  let ?k = "8 * length data - 1" and ?w = "or_bytes 0 data 0"
  have k: "?k < 64" "?k \<le> 63" using n assms by simp_all
  have w: "unat ?w = le_nat data" using unat_or_bytes [of 0 0 data] assms by simp
  have m: "sm_mag data < 2 ^ ?k" using False by (rule sm_mag_pow)
  also have "\<dots> \<le> (2 :: nat) ^ 63" using k by (intro power_increasing) simp_all
  finally have m63: "sm_mag data < 2 ^ 63" .
  have mask: "push_bit (8 * (length data - 1)) (0x80 :: u64) = push_bit ?k 1"
  proof -
    have "(0x80 :: u64) = push_bit 7 1" by simp
    then show ?thesis using n by (simp only: push_bit_push_bit) (simp add: add.commute)
  qed
  show ?thesis
  proof (cases "128 \<le> unat (last data)")
    case True
    have lw: "le_nat data = sm_mag data + 2 ^ ?k" using le_nat_split [OF False] True by simp
    have "unat (?w AND NOT (push_bit ?k 1)) = (sm_mag data + 2 ^ ?k) mod 2 ^ ?k"
      using and_not_top_bit [of ?w ?k] w lw m k by simp
    also have "\<dots> = sm_mag data" using m by simp
    finally have "sint (?w AND NOT (push_bit ?k 1)) = int (sm_mag data)"
      using sint_of_small m63 by metis
    moreover have "in_i64 (- int (sm_mag data))" using m63 by (simp add: in_i64_def)
    moreover have "decode_bytes data = checked_i64 (- sint (?w AND NOT (push_bit ?k 1)))"
      using True False assms unfolding decode_bytes_def Let_def mask byte_bits by simp
    ultimately show ?thesis using True False by (simp add: sm_value_def checked_i64_def)
  next
    case F: False
    have "unat ?w = sm_mag data" using w le_nat_split [OF False] F by simp
    then have "sint ?w = int (sm_mag data)" using sint_of_small m63 by metis
    then show ?thesis using F False assms
      by (simp add: decode_bytes_def byte_bits Let_def sm_value_def)
  qed
qed

section \<open>The value of an encoding\<close>

lemma unat_and_ff: "unat (ucast ((w :: u64) AND 0xff) :: byte) = unat w mod 256"
proof -
  have "w AND 0xff = take_bit 8 w"
    using take_bit_eq_mask [of 8 w] by (simp add: mask_eq_exp_minus_1)
  then have "unat (w AND 0xff) = unat w mod 256"
    by (simp only: unsigned_take_bit_eq) (simp add: take_bit_eq_mod)
  moreover have "unat (ucast (w AND 0xff) :: byte) = unat (w AND 0xff) mod 256"
    by (simp only: unsigned_ucast_eq) (simp add: take_bit_eq_mod)
  ultimately show ?thesis by simp
qed

lemma unat_shift8: "unat (drop_bit 8 (w :: u64)) = unat w div 256"
  by (simp only: unat_drop_bit_eq) (simp add: drop_bit_eq_div)

lemma unat_of_nat_u64: "n < 2 ^ 64 \<Longrightarrow> unat (of_nat n :: u64) = n"
  by (simp add: unat_of_nat)

lemma abs_bytes_0 [simp]: "abs_bytes 0 = []"
  by (simp add: abs_bytes.simps)

lemma abs_bytes_pos: "w \<noteq> 0 \<Longrightarrow> abs_bytes w = ucast (w AND 0xff) # abs_bytes (drop_bit 8 w)"
  by (subst abs_bytes.simps) (simp add: word_gt_0)

lemma le_nat_abs_bytes: "le_nat (abs_bytes w) = unat w"
proof (induction w rule: abs_bytes.induct)
  case (1 w)
  show ?case
  proof (cases "w = 0")
    case False
    then have "le_nat (abs_bytes (drop_bit 8 w)) = unat w div 256"
      using 1 by (simp only: word_gt_0 unat_shift8)
    then have "le_nat (abs_bytes w) = unat w mod 256 + 256 * (unat w div 256)"
      by (simp only: abs_bytes_pos [OF False] le_nat.simps unat_and_ff)
    then show ?thesis by simp
  qed simp
qed

lemma last_abs_bytes: "w \<noteq> 0 \<Longrightarrow> unat (last (abs_bytes w)) \<noteq> 0"
proof (induction w rule: abs_bytes.induct)
  case (1 w)
  show ?case
  proof (cases "drop_bit 8 w = 0")
    case True
    then have "unat w div 256 = 0" by (metis unat_shift8 unat_0)
    then have "unat w mod 256 = unat w" by (simp add: div_eq_0_iff)
    moreover have "abs_bytes w = [ucast (w AND 0xff)]"
      using True by (simp only: abs_bytes_pos [OF 1(2)] abs_bytes_0)
    ultimately have "unat (last (abs_bytes w)) = unat w"
      by (simp only: last.simps unat_and_ff simp_thms if_True)
    then show ?thesis using 1(2) by (simp only: unat_eq_0 not_False_eq_True)
  next
    case False
    then have "unat (last (abs_bytes (drop_bit 8 w))) \<noteq> 0"
      using 1 by (simp only: word_gt_0 not_False_eq_True)
    moreover have "abs_bytes (drop_bit 8 w) \<noteq> []" by (simp only: abs_bytes_pos [OF False]) simp
    ultimately show ?thesis by (simp only: abs_bytes_pos [OF 1(2)] last.simps if_False not_False_eq_True)
  qed
qed

lemma le_nat_0: "le_nat bs = 0 \<longleftrightarrow> (\<forall>b \<in> set bs. b = 0)"
  by (induction bs) (auto simp: unat_eq_zero)

lemma le_nat_inj:
  "bs = [] \<or> unat (last bs) \<noteq> 0 \<Longrightarrow> length bs \<le> 8 \<Longrightarrow> abs_bytes (of_nat (le_nat bs)) = bs"
proof (induction bs)
  case (Cons b bs)
  let ?n = "le_nat (b # bs)" and ?w = "of_nat (le_nat (b # bs)) :: u64"
  have "?n < 256 ^ length (b # bs)" by (rule le_nat_less)
  also have "\<dots> \<le> (256 :: nat) ^ 8" using Cons.prems(2) by (intro power_increasing) simp_all
  finally have lt: "?n < 2 ^ 64" by simp
  then have w: "unat ?w = ?n" by (rule unat_of_nat_u64)
  have "?n \<noteq> 0"
  proof
    assume "?n = 0"
    then have "\<forall>x \<in> set (b # bs). x = 0" by (simp only: le_nat_0)
    then have "last (b # bs) = 0" using last_in_set by blast
    then show False using Cons.prems(1) by simp
  qed
  then have w0: "?w \<noteq> 0" using w by (metis unat_0)
  have b: "ucast (?w AND 0xff) = b"
    by (rule word_unat_eq_iff [THEN iffD2]) (simp only: unat_and_ff w, simp)
  have "drop_bit 8 ?w = of_nat (le_nat bs)"
  proof (rule word_unat_eq_iff [THEN iffD2])
    have "unat (drop_bit 8 ?w) = ?n div 256" by (simp only: unat_shift8 w)
    also have "\<dots> = le_nat bs" using unat_byte_less [of b] by (simp del: unat_byte_less)
    also have "\<dots> = unat (of_nat (le_nat bs) :: u64)"
      using lt by (intro unat_of_nat_u64 [symmetric]) simp
    finally show "unat (drop_bit 8 ?w) = unat (of_nat (le_nat bs) :: u64)" .
  qed
  moreover have "abs_bytes (of_nat (le_nat bs)) = bs"
    using Cons.prems by (intro Cons.IH) (auto split: if_splits)
  ultimately show ?case using b by (simp only: abs_bytes_pos [OF w0])
qed simp

lemma unat_absvalue:
  assumes "in_i64 v" "v \<noteq> 0"
  shows "unat (if v < 0 then NOT (word_of_int v :: u64) + 1 else word_of_int v) = nat \<bar>v\<bar>"
proof -
  have neg: "NOT (word_of_int v :: u64) + 1 = word_of_int (- v)"
    by (simp add: minus_eq_not_plus_1 [symmetric])
  have pos: "unat (word_of_int x :: u64) = nat x" if "0 \<le> x" "x < 2 ^ 64" for x
    using that by (simp only: unat_eq_nat_uint uint_word_of_int_eq) (simp add: take_bit_int_eq_self)
  show ?thesis
  proof (cases "v < 0")
    case True
    have "unat (word_of_int (- v) :: u64) = nat (- v)"
      using assms True by (intro pos) (simp_all add: in_i64_def)
    then show ?thesis using True by (simp only: neg if_True abs_of_neg)
  next
    case False
    have "unat (word_of_int v :: u64) = nat v"
      using assms False by (intro pos) (simp_all add: in_i64_def)
    then show ?thesis using False by simp
  qed
qed

section \<open>Round trips\<close>

lemma byte_mod_128: "unat (b :: byte) mod 128 = 0 \<longleftrightarrow> b = 0 \<or> b = 0x80"
proof
  assume m: "unat b mod 128 = 0"
  have "unat b div 128 < 2" using less_mult_imp_div_less [of "unat b" 2 128] by simp
  then have "unat b div 128 = 0 \<or> unat b div 128 = 1" by linarith
  then have "unat b = 0 \<or> unat b = 128" using m div_mult_mod_eq [of "unat b" 128] by auto
  then show "b = 0 \<or> b = 0x80" by (simp add: word_unat_eq_iff)
qed auto

lemma sm_value_eq_0: "data \<noteq> [] \<Longrightarrow> sm_value data = 0 \<longleftrightarrow> sm_mag data = 0"
  by (simp add: sm_value_def)

lemma sm_mag_snoc: "sm_mag (xs @ [b]) = le_nat xs + 256 ^ length xs * (unat b mod 128)"
  by (simp add: sm_mag_def)

lemma sm_value_sign:
  "data \<noteq> [] \<Longrightarrow> sm_mag data = nat \<bar>v\<bar> \<Longrightarrow> 128 \<le> unat (last data) \<longleftrightarrow> v < 0 \<Longrightarrow> sm_value data = v"
  by (simp add: sm_value_def)

lemma cast_to_bool_iff: "cast_to_bool data \<longleftrightarrow> sm_value data \<noteq> 0"
proof (induction data)
  case Nil
  then show ?case by (simp add: sm_value_def)
next
  case (Cons b bs)
  show ?case
  proof (cases "bs = []")
    case True
    then have "sm_value (b # bs) = 0 \<longleftrightarrow> unat b mod 128 = 0"
      by (simp add: sm_value_eq_0 sm_mag_def)
    then show ?thesis using True by (simp only: byte_mod_128 cast_to_bool.simps) auto
  next
    case False
    then have "sm_mag (b # bs) = unat b + 256 * sm_mag bs"
      by (cases bs) (simp_all add: sm_mag_def algebra_simps)
    then show ?thesis using Cons False unat_eq_0 [of b] by (cases "b = 0") (simp_all add: sm_value_eq_0)
  qed
qed

text \<open>The minimality test of \<open>from_bytes\<close>, as a predicate on byte vectors.\<close>

definition minimal_num :: "bytes \<Rightarrow> bool" where
  "minimal_num data \<longleftrightarrow> data = [] \<or> unat (last data) mod 128 \<noteq> 0
     \<or> (length data > 1 \<and> 128 \<le> unat (data ! (length data - 2)))"

lemma from_bytes_eq:
  assumes "max_num_size \<le> 8"
  shows "from_bytes data m max_num_size =
    (if length data \<le> max_num_size \<and> (m \<longrightarrow> minimal_num data) then Ok (sm_value data)
     else Err ScriptNumError)"
proof -
  have "(data ! (length data - 2) AND 0x80 = 0) = (\<not> 128 \<le> unat (data ! (length data - 2)))"
    using byte_and_80 by blast
  moreover have "decode_bytes data = Ok (sm_value data)" if "length data \<le> max_num_size"
    using that assms by (intro decode_bytes_eq) simp
  ultimately show ?thesis
    by (auto simp: from_bytes_def minimal_num_def byte_and_7f)
qed

lemma serialize_shape:
  assumes "in_i64 v" "v \<noteq> 0"
  obtains xs b where "unat b \<noteq> 0" "le_nat (xs @ [b]) = nat \<bar>v\<bar>"
    "serialize_i64 v = (if 128 \<le> unat b then xs @ [b, if v < 0 then 0x80 else 0x00]
       else if v < 0 then xs @ [b OR 0x80] else xs @ [b])"
proof -
  let ?a = "if v < 0 then NOT (word_of_int v :: u64) + 1 else word_of_int v"
  have u: "unat ?a = nat \<bar>v\<bar>" by (rule unat_absvalue [OF assms])
  have a0: "?a \<noteq> 0"
  proof -
    have "unat ?a \<noteq> 0" unfolding u using assms(2) by simp
    then show ?thesis by (simp only: unat_eq_0 not_False_eq_True)
  qed
  have "abs_bytes ?a \<noteq> []" by (subst abs_bytes_pos [OF a0]) simp
  then obtain xs b where xb: "abs_bytes ?a = xs @ [b]" by (metis rev_exhaust)
  have "unat b \<noteq> 0" using last_abs_bytes [OF a0] by (simp only: xb last_snoc not_False_eq_True)
  moreover have "le_nat (xs @ [b]) = nat \<bar>v\<bar>" using le_nat_abs_bytes [of ?a] by (simp only: xb u)
  moreover have "serialize_i64 v = (if 128 \<le> unat b then xs @ [b, if v < 0 then 0x80 else 0x00]
       else if v < 0 then xs @ [b OR 0x80] else xs @ [b])"
    using assms(2) unfolding serialize_i64_def Let_def xb byte_and_80 last_snoc butlast_snoc
    by simp
  ultimately show ?thesis by (rule that)
qed

lemma sm_value_serialize: "in_i64 v \<Longrightarrow> sm_value (serialize_i64 v) = v"
proof (cases "v = 0")
  case True
  then show ?thesis by (simp add: serialize_i64_def sm_value_def)
next
  case False
  assume "in_i64 v"
  then obtain xs b where b: "unat b \<noteq> 0" and n: "le_nat (xs @ [b]) = nat \<bar>v\<bar>"
    and s: "serialize_i64 v = (if 128 \<le> unat b then xs @ [b, if v < 0 then 0x80 else 0x00]
       else if v < 0 then xs @ [b OR 0x80] else xs @ [b])"
    using serialize_shape [OF _ False] by metis
  have n': "le_nat xs + 256 ^ length xs * unat b = nat \<bar>v\<bar>" using n by (simp add: le_nat_append)
  show ?thesis
  proof (cases "128 \<le> unat b")
    case True
    then have e: "serialize_i64 v = (xs @ [b]) @ [if v < 0 then 0x80 else 0x00]" using s by simp
    then have "sm_mag (serialize_i64 v) = nat \<bar>v\<bar>"
      unfolding e sm_mag_snoc n by simp
    then show ?thesis using e by (intro sm_value_sign) auto
  next
    case F: False
    then have e: "serialize_i64 v = xs @ [if v < 0 then b OR 0x80 else b]" using s by simp
    have "unat (if v < 0 then b OR 0x80 else b) mod 128 = unat b" using F byte_or_80 [of b] by simp
    then have "sm_mag (serialize_i64 v) = nat \<bar>v\<bar>"
      unfolding e sm_mag_snoc using n' by simp
    then show ?thesis using e F byte_or_80 [of b] by (intro sm_value_sign) auto
  qed
qed

lemma minimal_serialize: "in_i64 v \<Longrightarrow> minimal_num (serialize_i64 v)"
proof (cases "v = 0")
  case True
  then show ?thesis by (simp add: serialize_i64_def minimal_num_def)
next
  case False
  assume "in_i64 v"
  then obtain xs b where "unat b \<noteq> 0"
    and "serialize_i64 v = (if 128 \<le> unat b then xs @ [b, if v < 0 then 0x80 else 0x00]
       else if v < 0 then xs @ [b OR 0x80] else xs @ [b])"
    using serialize_shape [OF _ False] by metis
  then show ?thesis using byte_or_80 [of b] by (auto simp: minimal_num_def nth_append)
qed

lemma length_serialize:
  assumes "in_i64 v" "\<bar>v\<bar> < 2 ^ (8 * n - 1)"
  shows "length (serialize_i64 v) \<le> n"
proof (cases "v = 0")
  case True
  then show ?thesis by (simp add: serialize_i64_def)
next
  case False
  then obtain xs b where b: "unat b \<noteq> 0" and n: "le_nat (xs @ [b]) = nat \<bar>v\<bar>"
    and s: "serialize_i64 v = (if 128 \<le> unat b then xs @ [b, if v < 0 then 0x80 else 0x00]
       else if v < 0 then xs @ [b OR 0x80] else xs @ [b])"
    using serialize_shape [OF assms(1) False] by metis
  have v: "256 ^ length xs * unat b \<le> nat \<bar>v\<bar>" using n by (simp add: le_nat_append)
  have lt: "nat \<bar>v\<bar> < 2 ^ (8 * n - 1)" using assms(2) by (simp add: nat_less_iff)
  have e: "2 ^ k < (2 :: nat) ^ (8 * n - 1)" if "2 ^ k \<le> nat \<bar>v\<bar>" for k
    using that lt by linarith
  show ?thesis
  proof (cases "128 \<le> unat b")
    case True
    have "2 ^ (8 * length xs + 7) \<le> 256 ^ length xs * unat b"
      using True by (simp add: pow256 power_add)
    then have "2 ^ (8 * length xs + 7) < (2 :: nat) ^ (8 * n - 1)" using v by (intro e) linarith
    then have "8 * length xs + 7 < 8 * n - 1" by (rule power_less_imp_less_exp [rotated]) simp
    then show ?thesis using s True by simp
  next
    case F: False
    have "2 ^ (8 * length xs) \<le> 256 ^ length xs * unat b" using b by (simp add: pow256)
    then have "2 ^ (8 * length xs) < (2 :: nat) ^ (8 * n - 1)" using v by (intro e) linarith
    then have "8 * length xs < 8 * n - 1" by (rule power_less_imp_less_exp [rotated]) simp
    then show ?thesis using s F by simp
  qed
qed

lemma serialize_unique:
  assumes "v \<noteq> 0" "in_i64 v" "unat b \<noteq> 0" "length (xs @ [b]) \<le> 8" "le_nat (xs @ [b]) = nat \<bar>v\<bar>"
  shows "serialize_i64 v = (if 128 \<le> unat b then xs @ [b, if v < 0 then 0x80 else 0x00]
       else if v < 0 then xs @ [b OR 0x80] else xs @ [b])"
proof -
  let ?a = "if v < 0 then NOT (word_of_int v :: u64) + 1 else word_of_int v"
  have u: "unat ?a = nat \<bar>v\<bar>" using assms by (intro unat_absvalue) simp_all
  have "?a = of_nat (le_nat (xs @ [b]))"
  proof (rule word_unat_eq_iff [THEN iffD2])
    have "nat \<bar>v\<bar> < 2 ^ 64" using assms(2) by (simp add: in_i64_def nat_less_iff abs_less_iff)
    then show "unat ?a = unat (of_nat (le_nat (xs @ [b])) :: u64)"
      by (simp only: u assms(5) unat_of_nat_u64)
  qed
  then have xb: "abs_bytes ?a = xs @ [b]"
    using le_nat_inj [of "xs @ [b]"] assms(3,4) by (simp only: last_snoc simp_thms)
  show ?thesis
    using assms(1) unfolding serialize_i64_def Let_def xb byte_and_80 last_snoc butlast_snoc
    by simp
qed

lemma serialize_sm_value:
  assumes "minimal_num data" "length data \<le> 8"
  shows "serialize_i64 (sm_value data) = data"
proof (cases "data = []")
  case True
  then show ?thesis by (simp add: serialize_i64_def sm_value_def)
next
  case False
  then obtain xs b where d: "data = xs @ [b]" by (metis rev_exhaust)
  let ?v = "sm_value data" and ?c = "of_nat (unat b mod 128) :: byte"
  have c: "unat ?c = unat b mod 128" by simp
  have bc: "b = (if 128 \<le> unat b then ?c OR 0x80 else ?c)"
  proof (rule word_unat_eq_iff [THEN iffD2])
    have "unat b mod 128 = (if 128 \<le> unat b then unat b - 128 else unat b)"
      using unat_byte_less [of b] by (simp del: unat_byte_less add: le_mod_geq)
    then show "unat b = unat (if 128 \<le> unat b then ?c OR 0x80 else ?c)"
      using byte_or_80 [of ?c] c by (simp split: if_splits)
  qed
  have "sm_mag data < 2 ^ (8 * length data - 1)" using False by (rule sm_mag_pow)
  also have "\<dots> \<le> (2 :: nat) ^ 63" using assms(2) by (intro power_increasing) simp_all
  finally have r: "in_i64 ?v" using False by (simp add: in_i64_def sm_value_def)
  have abs_v: "nat \<bar>?v\<bar> = sm_mag data" using False by (simp add: sm_value_def)
  show ?thesis
  proof (cases "unat b mod 128 = 0")
    case True
    then obtain ys e where e: "xs = ys @ [e]" "128 \<le> unat e"
      using assms(1) d by (cases xs rule: rev_cases) (auto simp: minimal_num_def nth_append)
    have m: "le_nat (ys @ [e]) = nat \<bar>?v\<bar>" using abs_v True sm_mag_snoc [of xs b]
      by (simp only: d e mod_0 mult_0_right add_0_right)
    have v0: "?v \<noteq> 0"
    proof -
      have "256 ^ length ys * unat e \<le> sm_mag data" using m abs_v by (simp add: le_nat_append)
      moreover have "0 < 256 ^ length ys * unat e" using e(2) by simp
      ultimately have "sm_mag data \<noteq> 0" by linarith
      then show ?thesis using False by (simp add: sm_value_eq_0)
    qed
    have "?v < 0 \<longleftrightarrow> 128 \<le> unat b" using v0 d by (auto simp: sm_value_def)
    then show ?thesis
      using serialize_unique [OF v0 r, of e ys] m e assms(2) d True byte_mod_128 [of b] by auto
  next
    case F: False
    have m: "le_nat (xs @ [?c]) = nat \<bar>?v\<bar>" using abs_v by (simp add: d sm_mag_snoc le_nat_append)
    have v0: "?v \<noteq> 0"
      using False F by (simp add: sm_value_eq_0) (simp add: d sm_mag_snoc)
    have "?v < 0 \<longleftrightarrow> 128 \<le> unat b" using v0 d by (auto simp: sm_value_def)
    moreover have "\<not> 128 \<le> unat ?c" using c by (simp add: not_le)
    ultimately show ?thesis
      using serialize_unique [OF v0 r, of ?c xs] m F assms(2) d bc by auto
  qed
qed

section \<open>Bounds\<close>

lemma sm_value_bound: "\<bar>sm_value data\<bar> < 2 ^ (8 * length data - 1) \<or> data = []"
  using sm_mag_pow [of data] by (auto simp: sm_value_def) 

lemma from_bytes_bound:
  assumes "from_bytes data m n = Ok v" "n \<le> 8" "0 < n"
  shows "\<bar>v\<bar> < 2 ^ (8 * n - 1)"
proof (cases "data = []")
  case True
  then show ?thesis using assms by (auto simp: from_bytes_eq sm_value_def split: if_splits)
next
  case False
  have v: "v = sm_value data" and l: "length data \<le> n"
    using assms by (auto simp: from_bytes_eq split: if_splits)
  have "\<bar>v\<bar> < 2 ^ (8 * length data - 1)" using sm_value_bound [of data] False v by simp
  also have "\<dots> \<le> (2 :: int) ^ (8 * n - 1)" using l by (intro power_increasing) simp_all
  finally show ?thesis .
qed

lemma from_bytes_default_bound: "from_bytes_default data m = Ok v \<Longrightarrow> \<bar>v\<bar> < 2 ^ 31"
  using from_bytes_bound [of data m 4 v] by (simp add: from_bytes_default_def DEFAULT_MAX_NUM_SIZE_def)

lemma no_panic_from_bytes [simp]: "n \<le> 8 \<Longrightarrow> no_panic (from_bytes data m n)"
  by (simp add: from_bytes_eq)

lemma no_panic_from_bytes_default [simp]: "no_panic (from_bytes_default data m)"
  by (simp add: from_bytes_default_def DEFAULT_MAX_NUM_SIZE_def)

lemma from_bytes_relax: "from_bytes data True n = Ok v \<Longrightarrow> from_bytes data m n = Ok v"
  by (auto simp: from_bytes_def split: if_splits)

lemma small_in_i64: "\<bar>v\<bar> < 2 ^ 33 \<Longrightarrow> in_i64 v"
  by (simp add: in_i64_def abs_less_iff)

section \<open>Properties\<close>

text \<open>
  C34: Round trip of script numbers: the encoding of a 64-bit number decodes to it under the minimal
  rule whenever the number fits the size the reader allows.
\<close>

theorem script_num_round_trip:
  assumes "n \<le> 8" "\<bar>v\<bar> < 2 ^ (8 * n - 1)"
  shows "from_bytes (serialize_i64 v) True n = Ok v"
proof -
  have "(2 :: int) ^ (8 * n - 1) \<le> 2 ^ 63" using assms(1) by (intro power_increasing) simp_all
  then have "in_i64 v" using assms(2) by (simp add: in_i64_def abs_less_iff)
  then show ?thesis
    using assms by (simp add: from_bytes_eq sm_value_serialize minimal_serialize length_serialize)
qed

theorem script_num_round_trip_witness: "from_bytes (serialize_i64 (- 1000)) True 4 = Ok (- 1000)"
  by (rule script_num_round_trip) simp_all

text \<open>
  Minimal encodings are unique: a vector that the reader accepts under the minimal rule is
  exactly the encoding of the value read, so no number has two accepted encodings.
\<close>

theorem script_num_unique_encoding:
  assumes "from_bytes data True n = Ok v" "n \<le> 8"
  shows "serialize_i64 v = data"
  using assms by (auto simp: from_bytes_eq serialize_sm_value split: if_splits)

theorem script_num_unique_encoding_witness: "serialize_i64 (- 255) = [0xff, 0x80]"
  by (rule script_num_unique_encoding [where n = 4])
    (simp_all add: from_bytes_eq minimal_num_def sm_value_def sm_mag_def)

text \<open>
  C35: Arithmetic on script numbers never overflows: two operands of the default size are below
  \<open>2 ^ 31\<close> in magnitude, their sum and difference succeed, and the result can be encoded in five bytes.
\<close>

theorem script_num_arithmetic_safe:
  assumes "from_bytes_default d1 m = Ok a" "from_bytes_default d2 m = Ok b"
  shows "num_add a b = Ok (a + b) \<and> num_sub a b = Ok (a - b) \<and> negate a = Ok (- a)
    \<and> length (serialize_i64 (a + b)) \<le> 5 \<and> length (serialize_i64 (a - b)) \<le> 5"
proof -
  have ab: "\<bar>a\<bar> < 2 ^ 31" "\<bar>b\<bar> < 2 ^ 31" using assms from_bytes_default_bound by blast+
  then have "\<bar>a + b\<bar> < 2 ^ 33" "\<bar>a - b\<bar> < 2 ^ 33" by (simp_all add: abs_less_iff)
  then show ?thesis
    using ab length_serialize [of "a + b" 5] length_serialize [of "a - b" 5]
    by (auto simp: num_add_def num_sub_def negate_def checked_i64_def small_in_i64 abs_less_iff)
qed

theorem script_num_arithmetic_safe_witness:
  "num_add (- 3) (2 :: int) = Ok (- 3 + 2) \<and> num_sub (- 3) (2 :: int) = Ok (- 3 - 2)
    \<and> negate (- 3) = Ok (- (- 3)) \<and> length (serialize_i64 (- 3 + 2)) \<le> 5 \<and> length (serialize_i64 (- 3 - 2)) \<le> 5"
  by (rule script_num_arithmetic_safe [where ?d1.0 = "[0x83]" and ?d2.0 = "[2]" and m = True])
    (simp_all add: from_bytes_default_def from_bytes_eq DEFAULT_MAX_NUM_SIZE_def minimal_num_def sm_value_def sm_mag_def)

text \<open>
  The boolean reading of a stack item is its numeric reading: an item of any length is true exactly
  when the sign-magnitude number it denotes is not zero, so negative zero is false.
\<close>

theorem cast_to_bool_is_nonzero: "cast_to_bool data \<longleftrightarrow> sm_value data \<noteq> 0"
  by (rule cast_to_bool_iff)

end
