(* ===== verification/Checker.thy ===== *)
theory Checker
  imports Script_Error Flags Script_Num
begin

text \<open>
  The interface between the script interpreter and its surroundings.  \<open>crypto\<close> collects the
  functions of the libraries the consensus crate calls (\<open>sha1\<close>, \<open>sha2\<close>, \<open>ripemd\<close>, \<open>secp256k1\<close> and the
  compact-size encoder of \<open>bitcoin\<close>); they are parameters, and values of library types are carried
  as byte lists.  \<open>SigVersion\<close>, \<open>ExecData\<close> and the \<open>SignatureChecker\<close> trait come from
  \<open>consensus/src/checker.rs\<close>; a checker is a record of functions, each of which may panic.  The
  locale \<open>checker_contract\<close> is what the interpreter relies on.
\<close>

record crypto =
  sha1 :: "bytes \<Rightarrow> bytes"
  sha256 :: "bytes \<Rightarrow> bytes"
  ripemd160 :: "bytes \<Rightarrow> bytes"
  ecdsa_from_der :: "bytes \<Rightarrow> bytes option"
  ecdsa_from_der_lax :: "bytes \<Rightarrow> bytes option"
  ecdsa_normalize_s :: "bytes \<Rightarrow> bytes"
  ecdsa_serialize_der :: "bytes \<Rightarrow> bytes"
  pubkey_from_slice :: "bytes \<Rightarrow> bytes option"
  verify_ecdsa :: "bytes \<Rightarrow> bytes \<Rightarrow> bytes \<Rightarrow> bool"
  xonly_from_slice :: "bytes \<Rightarrow> bytes option"
  xonly_serialize :: "bytes \<Rightarrow> bytes"
  xonly_add_tweak :: "bytes \<Rightarrow> bytes \<Rightarrow> (bytes \<times> bool) option"
  scalar_from_be_bytes :: "bytes \<Rightarrow> bytes option"
  schnorr_from_slice :: "bytes \<Rightarrow> bytes option"
  verify_schnorr :: "bytes \<Rightarrow> bytes \<Rightarrow> bytes \<Rightarrow> bool"
  varint :: "nat \<Rightarrow> bytes"
  varint_size :: "nat \<Rightarrow> nat"

text \<open>The digest sizes of the hash functions, the only fact about them the interpreter uses.\<close>

definition digest_sizes :: "crypto \<Rightarrow> bool" where
  "digest_sizes C \<longleftrightarrow>
     (\<forall>x. length (sha1 C x) = 20) \<and> (\<forall>x. length (sha256 C x) = 32) \<and> (\<forall>x. length (ripemd160 C x) = 20)"

lemma digest_sizesD [simp]:
  "digest_sizes C \<Longrightarrow> length (sha1 C x) = 20"
  "digest_sizes C \<Longrightarrow> length (sha256 C x) = 32"
  "digest_sizes C \<Longrightarrow> length (ripemd160 C x) = 20"
  by (simp_all add: digest_sizes_def)

datatype SigVersion = Base | WitnessV0 | Taproot | Tapscript

record ExecData =
  tapleaf_hash_init :: bool
  tapleaf_hash :: bytes
  codeseparator_pos_init :: bool
  codeseparator_pos :: nat
  annex_init :: bool
  annex_present :: bool
  annex_hash :: bytes
  validation_weight_left_init :: bool
  validation_weight_left :: int

definition ExecData_new :: ExecData where
  "ExecData_new = \<lparr>
     tapleaf_hash_init = False, tapleaf_hash = replicate 32 0,
     codeseparator_pos_init = False, codeseparator_pos = 0xFFFFFFFF,
     annex_init = False, annex_present = False, annex_hash = replicate 32 0,
     validation_weight_left_init = False, validation_weight_left = 0\<rparr>"

type_synonym 'a script_result = "(ScriptError, 'a) result"

record checker =
  check_ecdsa_signature :: "bytes \<Rightarrow> bytes \<Rightarrow> bytes \<Rightarrow> SigVersion \<Rightarrow> bool script_result"
  check_schnorr_signature :: "bytes \<Rightarrow> bytes \<Rightarrow> SigVersion \<Rightarrow> ExecData \<Rightarrow> bool script_result"
  check_lock_time :: "int \<Rightarrow> bool script_result"
  check_sequence :: "int \<Rightarrow> bool script_result"

definition NoopChecker :: checker where
  "NoopChecker = \<lparr>
     check_ecdsa_signature = (\<lambda>sig pubkey script_code sig_version. Ok False),
     check_schnorr_signature = (\<lambda>sig pubkey sig_version exec_data. Ok False),
     check_lock_time = (\<lambda>lock_time. Ok False),
     check_sequence = (\<lambda>sequence. Ok False)\<rparr>"

text \<open>
  What the interpreter relies on: a family of checkers \<open>mk c\<close>, each usable when \<open>ready c\<close> holds.
  The Boolean checks always answer, and the Schnorr check answers or reports a script error on a
  32-byte key under the two taproot signature versions.
\<close>

locale checker_contract =
  fixes mk :: "'c \<Rightarrow> checker"
    and ready :: "'c \<Rightarrow> bool"
  assumes ecdsa_answers: "ready c \<Longrightarrow> \<exists>b. check_ecdsa_signature (mk c) sig pk code sv = Ok b"
    and schnorr_no_panic: "ready c \<Longrightarrow> length pk = 32 \<Longrightarrow> sv = Taproot \<or> sv = Tapscript \<Longrightarrow>
      no_panic (check_schnorr_signature (mk c) sig pk sv ed)"
    and lock_time_answers: "ready c \<Longrightarrow> \<exists>b. check_lock_time (mk c) n = Ok b"
    and sequence_answers: "ready c \<Longrightarrow> \<exists>b. check_sequence (mk c) n = Ok b"
begin

lemma checker_no_panic:
  assumes "ready c"
  shows "no_panic (check_ecdsa_signature (mk c) sig pk code sv)"
    and "no_panic (check_lock_time (mk c) n)"
    and "no_panic (check_sequence (mk c) n)"
  using ecdsa_answers [OF assms] lock_time_answers [OF assms] sequence_answers [OF assms]
  by (metis no_panic_simps(1))+

end

interpretation noop: checker_contract "\<lambda>_ :: unit. NoopChecker" "\<lambda>_. True"
  by unfold_locales (auto simp: NoopChecker_def)

text \<open>
  A concrete instance of the library parameters, for worked examples: constant digests of the right
  size, parsers that accept every input, and signature checks that accept exactly the message.
\<close>

definition sample_crypto :: crypto where
  "sample_crypto = \<lparr>
     sha1 = (\<lambda>x. replicate 20 0), sha256 = (\<lambda>x. replicate 32 0), ripemd160 = (\<lambda>x. replicate 20 0),
     ecdsa_from_der = Some, ecdsa_from_der_lax = Some, ecdsa_normalize_s = (\<lambda>x. x),
     ecdsa_serialize_der = (\<lambda>x. x), pubkey_from_slice = Some, verify_ecdsa = (\<lambda>m s p. s = m),
     xonly_from_slice = Some, xonly_serialize = (\<lambda>x. x), xonly_add_tweak = (\<lambda>x t. Some (x, False)),
     scalar_from_be_bytes = Some, schnorr_from_slice = Some, verify_schnorr = (\<lambda>s m p. s = m),
     varint = (\<lambda>n. [of_nat n]), varint_size = (\<lambda>n. 1)\<rparr>"

lemma digest_sizes_sample [simp]: "digest_sizes sample_crypto"
  by (simp add: digest_sizes_def sample_crypto_def)

end
