(* ===== verification/Opcodes.thy ===== *)
theory Opcodes
  imports Checker
begin

text \<open>
  The opcode constants of \<open>consensus/src/eval.rs\<close> (module \<open>op\<close>), the disabled opcodes, the limits of
  the interpreter, and the instruction reader \<open>read_instruction\<close>.
\<close>

named_theorems op_defs \<open>the opcode constants\<close>

section \<open>Limits\<close>

definition MAX_SCRIPT_ELEMENT_SIZE :: nat where "MAX_SCRIPT_ELEMENT_SIZE = 520"
definition MAX_OPS_PER_SCRIPT :: nat where "MAX_OPS_PER_SCRIPT = 201"
definition MAX_PUBKEYS_PER_MULTISIG :: nat where "MAX_PUBKEYS_PER_MULTISIG = 20"
definition MAX_SCRIPT_SIZE :: nat where "MAX_SCRIPT_SIZE = 10000"
definition MAX_STACK_SIZE :: nat where "MAX_STACK_SIZE = 1000"
definition VALIDATION_WEIGHT_PER_SIGOP_PASSED :: int where "VALIDATION_WEIGHT_PER_SIGOP_PASSED = 50"

lemmas limit_defs = MAX_SCRIPT_ELEMENT_SIZE_def MAX_OPS_PER_SCRIPT_def MAX_PUBKEYS_PER_MULTISIG_def
  MAX_SCRIPT_SIZE_def MAX_STACK_SIZE_def VALIDATION_WEIGHT_PER_SIGOP_PASSED_def

section \<open>Opcodes\<close>

definition OP_0 :: byte where [op_defs]: "OP_0 = 0x00"
definition OP_PUSHDATA1 :: byte where [op_defs]: "OP_PUSHDATA1 = 0x4c"
definition OP_PUSHDATA2 :: byte where [op_defs]: "OP_PUSHDATA2 = 0x4d"
definition OP_PUSHDATA4 :: byte where [op_defs]: "OP_PUSHDATA4 = 0x4e"
definition OP_1NEGATE :: byte where [op_defs]: "OP_1NEGATE = 0x4f"
definition OP_RESERVED :: byte where [op_defs]: "OP_RESERVED = 0x50"
definition OP_1 :: byte where [op_defs]: "OP_1 = 0x51"
definition OP_16 :: byte where [op_defs]: "OP_16 = 0x60"
definition OP_NOP :: byte where [op_defs]: "OP_NOP = 0x61"
definition OP_VER :: byte where [op_defs]: "OP_VER = 0x62"
definition OP_IF :: byte where [op_defs]: "OP_IF = 0x63"
definition OP_NOTIF :: byte where [op_defs]: "OP_NOTIF = 0x64"
definition OP_VERIF :: byte where [op_defs]: "OP_VERIF = 0x65"
definition OP_VERNOTIF :: byte where [op_defs]: "OP_VERNOTIF = 0x66"
definition OP_ELSE :: byte where [op_defs]: "OP_ELSE = 0x67"
definition OP_ENDIF :: byte where [op_defs]: "OP_ENDIF = 0x68"
definition OP_VERIFY :: byte where [op_defs]: "OP_VERIFY = 0x69"
definition OP_RETURN :: byte where [op_defs]: "OP_RETURN = 0x6a"
definition OP_TOALTSTACK :: byte where [op_defs]: "OP_TOALTSTACK = 0x6b"
definition OP_FROMALTSTACK :: byte where [op_defs]: "OP_FROMALTSTACK = 0x6c"
definition OP_2DROP :: byte where [op_defs]: "OP_2DROP = 0x6d"
definition OP_2DUP :: byte where [op_defs]: "OP_2DUP = 0x6e"
definition OP_3DUP :: byte where [op_defs]: "OP_3DUP = 0x6f"
definition OP_2OVER :: byte where [op_defs]: "OP_2OVER = 0x70"
definition OP_2ROT :: byte where [op_defs]: "OP_2ROT = 0x71"
definition OP_2SWAP :: byte where [op_defs]: "OP_2SWAP = 0x72"
definition OP_IFDUP :: byte where [op_defs]: "OP_IFDUP = 0x73"
definition OP_DEPTH :: byte where [op_defs]: "OP_DEPTH = 0x74"
definition OP_DROP :: byte where [op_defs]: "OP_DROP = 0x75"
definition OP_DUP :: byte where [op_defs]: "OP_DUP = 0x76"
definition OP_NIP :: byte where [op_defs]: "OP_NIP = 0x77"
definition OP_OVER :: byte where [op_defs]: "OP_OVER = 0x78"
definition OP_PICK :: byte where [op_defs]: "OP_PICK = 0x79"
definition OP_ROLL :: byte where [op_defs]: "OP_ROLL = 0x7a"
definition OP_ROT :: byte where [op_defs]: "OP_ROT = 0x7b"
definition OP_SWAP :: byte where [op_defs]: "OP_SWAP = 0x7c"
definition OP_TUCK :: byte where [op_defs]: "OP_TUCK = 0x7d"
definition OP_CAT :: byte where [op_defs]: "OP_CAT = 0x7e"
definition OP_SUBSTR :: byte where [op_defs]: "OP_SUBSTR = 0x7f"
definition OP_LEFT :: byte where [op_defs]: "OP_LEFT = 0x80"
definition OP_RIGHT :: byte where [op_defs]: "OP_RIGHT = 0x81"
definition OP_SIZE :: byte where [op_defs]: "OP_SIZE = 0x82"
definition OP_INVERT :: byte where [op_defs]: "OP_INVERT = 0x83"
definition OP_AND :: byte where [op_defs]: "OP_AND = 0x84"
definition OP_OR :: byte where [op_defs]: "OP_OR = 0x85"
definition OP_XOR :: byte where [op_defs]: "OP_XOR = 0x86"
definition OP_EQUAL :: byte where [op_defs]: "OP_EQUAL = 0x87"
definition OP_EQUALVERIFY :: byte where [op_defs]: "OP_EQUALVERIFY = 0x88"
definition OP_RESERVED1 :: byte where [op_defs]: "OP_RESERVED1 = 0x89"
definition OP_RESERVED2 :: byte where [op_defs]: "OP_RESERVED2 = 0x8a"
definition OP_1ADD :: byte where [op_defs]: "OP_1ADD = 0x8b"
definition OP_1SUB :: byte where [op_defs]: "OP_1SUB = 0x8c"
definition OP_2MUL :: byte where [op_defs]: "OP_2MUL = 0x8d"
definition OP_2DIV :: byte where [op_defs]: "OP_2DIV = 0x8e"
definition OP_NEGATE :: byte where [op_defs]: "OP_NEGATE = 0x8f"
definition OP_ABS :: byte where [op_defs]: "OP_ABS = 0x90"
definition OP_NOT :: byte where [op_defs]: "OP_NOT = 0x91"
definition OP_0NOTEQUAL :: byte where [op_defs]: "OP_0NOTEQUAL = 0x92"
definition OP_ADD :: byte where [op_defs]: "OP_ADD = 0x93"
definition OP_SUB :: byte where [op_defs]: "OP_SUB = 0x94"
definition OP_MUL :: byte where [op_defs]: "OP_MUL = 0x95"
definition OP_DIV :: byte where [op_defs]: "OP_DIV = 0x96"
definition OP_MOD :: byte where [op_defs]: "OP_MOD = 0x97"
definition OP_LSHIFT :: byte where [op_defs]: "OP_LSHIFT = 0x98"
definition OP_RSHIFT :: byte where [op_defs]: "OP_RSHIFT = 0x99"
definition OP_BOOLAND :: byte where [op_defs]: "OP_BOOLAND = 0x9a"
definition OP_BOOLOR :: byte where [op_defs]: "OP_BOOLOR = 0x9b"
definition OP_NUMEQUAL :: byte where [op_defs]: "OP_NUMEQUAL = 0x9c"
definition OP_NUMEQUALVERIFY :: byte where [op_defs]: "OP_NUMEQUALVERIFY = 0x9d"
definition OP_NUMNOTEQUAL :: byte where [op_defs]: "OP_NUMNOTEQUAL = 0x9e"
definition OP_LESSTHAN :: byte where [op_defs]: "OP_LESSTHAN = 0x9f"
definition OP_GREATERTHAN :: byte where [op_defs]: "OP_GREATERTHAN = 0xa0"
definition OP_LESSTHANOREQUAL :: byte where [op_defs]: "OP_LESSTHANOREQUAL = 0xa1"
definition OP_GREATERTHANOREQUAL :: byte where [op_defs]: "OP_GREATERTHANOREQUAL = 0xa2"
definition OP_MIN :: byte where [op_defs]: "OP_MIN = 0xa3"
definition OP_MAX :: byte where [op_defs]: "OP_MAX = 0xa4"
definition OP_WITHIN :: byte where [op_defs]: "OP_WITHIN = 0xa5"
definition OP_RIPEMD160 :: byte where [op_defs]: "OP_RIPEMD160 = 0xa6"
definition OP_SHA1 :: byte where [op_defs]: "OP_SHA1 = 0xa7"
definition OP_SHA256 :: byte where [op_defs]: "OP_SHA256 = 0xa8"
definition OP_HASH160 :: byte where [op_defs]: "OP_HASH160 = 0xa9"
definition OP_HASH256 :: byte where [op_defs]: "OP_HASH256 = 0xaa"
definition OP_CODESEPARATOR :: byte where [op_defs]: "OP_CODESEPARATOR = 0xab"
definition OP_CHECKSIG :: byte where [op_defs]: "OP_CHECKSIG = 0xac"
definition OP_CHECKSIGVERIFY :: byte where [op_defs]: "OP_CHECKSIGVERIFY = 0xad"
definition OP_CHECKMULTISIG :: byte where [op_defs]: "OP_CHECKMULTISIG = 0xae"
definition OP_CHECKMULTISIGVERIFY :: byte where [op_defs]: "OP_CHECKMULTISIGVERIFY = 0xaf"
definition OP_NOP1 :: byte where [op_defs]: "OP_NOP1 = 0xb0"
definition OP_CHECKLOCKTIMEVERIFY :: byte where [op_defs]: "OP_CHECKLOCKTIMEVERIFY = 0xb1"
definition OP_CHECKSEQUENCEVERIFY :: byte where [op_defs]: "OP_CHECKSEQUENCEVERIFY = 0xb2"
definition OP_NOP4 :: byte where [op_defs]: "OP_NOP4 = 0xb3"
definition OP_NOP5 :: byte where [op_defs]: "OP_NOP5 = 0xb4"
definition OP_NOP6 :: byte where [op_defs]: "OP_NOP6 = 0xb5"
definition OP_NOP7 :: byte where [op_defs]: "OP_NOP7 = 0xb6"
definition OP_NOP8 :: byte where [op_defs]: "OP_NOP8 = 0xb7"
definition OP_NOP9 :: byte where [op_defs]: "OP_NOP9 = 0xb8"
definition OP_NOP10 :: byte where [op_defs]: "OP_NOP10 = 0xb9"
definition OP_CHECKSIGADD :: byte where [op_defs]: "OP_CHECKSIGADD = 0xba"

definition is_disabled :: "byte \<Rightarrow> bool" where
  "is_disabled opcode \<longleftrightarrow>
     opcode = OP_CAT
     \<or> opcode = OP_SUBSTR
     \<or> opcode = OP_LEFT
     \<or> opcode = OP_RIGHT
     \<or> opcode = OP_INVERT
     \<or> opcode = OP_AND
     \<or> opcode = OP_OR
     \<or> opcode = OP_XOR
     \<or> opcode = OP_2MUL
     \<or> opcode = OP_2DIV
     \<or> opcode = OP_MUL
     \<or> opcode = OP_DIV
     \<or> opcode = OP_MOD
     \<or> opcode = OP_LSHIFT
     \<or> opcode = OP_RSHIFT"

section \<open>Reading one instruction\<close>

text \<open>
  The opcode, its push data and the position after it; \<open>None\<close> when the push data is cut off.
\<close>

definition read_push :: "bytes \<Rightarrow> byte \<Rightarrow> nat \<Rightarrow> nat \<Rightarrow> (byte \<times> bytes \<times> nat) option" where
  "read_push script opcode pc n =
     (if pc + n > length script then None else Some (opcode, subslice script pc (pc + n), pc + n))"

definition read_instruction :: "bytes \<Rightarrow> nat \<Rightarrow> (byte \<times> bytes \<times> nat) option" where
  "read_instruction script pc =
     (if pc \<ge> length script then None
      else let opcode = script ! pc; pc = pc + 1 in
        if opcode = 0 then Some (opcode, [], pc)
        else if opcode \<le> 75 then read_push script opcode pc (unat opcode)
        else if opcode = OP_PUSHDATA1 then
          (if pc \<ge> length script then None
           else read_push script opcode (pc + 1) (unat (script ! pc)))
        else if opcode = OP_PUSHDATA2 then
          (if pc + 1 \<ge> length script then None
           else read_push script opcode (pc + 2) (le16 (script ! pc) (script ! (pc + 1))))
        else if opcode = OP_PUSHDATA4 then
          (if pc + 3 \<ge> length script then None
           else read_push script opcode (pc + 4)
                  (le32 (script ! pc) (script ! (pc + 1)) (script ! (pc + 2)) (script ! (pc + 3))))
        else Some (opcode, [], pc))"

lemma read_push_Some:
  "read_push script opcode pc n = Some (oc, d, pc') \<longleftrightarrow>
     pc + n \<le> length script \<and> oc = opcode \<and> d = subslice script pc (pc + n) \<and> pc' = pc + n"
  by (auto simp: read_push_def)

lemma read_instruction_bounds:
  "read_instruction script pc = Some (oc, d, pc') \<Longrightarrow> pc < pc' \<and> pc' \<le> length script \<and> oc = script ! pc"
  by (auto simp: read_instruction_def Let_def read_push_Some split: if_splits)

lemma read_instruction_nonpush:
  "read_instruction script pc = Some (oc, d, pc') \<Longrightarrow> OP_PUSHDATA4 < oc \<Longrightarrow> d = [] \<and> pc' = Suc pc"
  by (auto simp: read_instruction_def Let_def read_push_Some op_defs word_less_nat_alt word_le_nat_alt split: if_splits)

end
