(* ===== verification/Encoding.thy ===== *)
theory Encoding
  imports Checker "HOL-Library.Sublist"
begin

text \<open>
  Encoding rules (\<open>consensus/src/encoding.rs\<close>): strict DER signatures, hash types, public keys,
  minimal pushes, and \<open>FindAndDelete\<close>.  The reference definitions here are the BIP 66 grammar of a
  signature and the deletion of a pattern at instruction boundaries as a recursion on the rest of
  the script; the index-based code is shown equal to them.
\<close>

section \<open>Signatures and keys\<close>

definition is_valid_signature_encoding :: "bytes \<Rightarrow> bool" where
  "is_valid_signature_encoding sig =
     (if length sig < 9 \<or> length sig > 73 then False
      else if sig ! 0 \<noteq> 0x30 then False
      else if unat (sig ! 1) \<noteq> length sig - 3 then False
      else let len_r = unat (sig ! 3) in
        if 5 + len_r \<ge> length sig then False
        else let len_s = unat (sig ! (5 + len_r)) in
          if len_r + len_s + 7 \<noteq> length sig then False
          else if sig ! 2 \<noteq> 0x02 then False
          else if len_r = 0 then False
          else if sig ! 4 AND 0x80 \<noteq> 0 then False
          else if len_r > 1 \<and> sig ! 4 = 0x00 \<and> sig ! 5 AND 0x80 = 0 then False
          else if sig ! (len_r + 4) \<noteq> 0x02 then False
          else if len_s = 0 then False
          else if sig ! (len_r + 6) AND 0x80 \<noteq> 0 then False
          else if len_s > 1 \<and> sig ! (len_r + 6) = 0x00 \<and> sig ! (len_r + 7) AND 0x80 = 0 then False
          else True)"

definition is_low_der_signature :: "crypto \<Rightarrow> bytes \<Rightarrow> unit script_result" where
  "is_low_der_signature C sig =
     (if \<not> is_valid_signature_encoding sig then Err SigDer
      else let sig_without_hashtype = take (length sig - 1) sig in
        case ecdsa_from_der C sig_without_hashtype of
          Some parsed_sig \<Rightarrow>
            (let normalized_der = ecdsa_serialize_der C (ecdsa_normalize_s C parsed_sig) in
             if normalized_der \<noteq> sig_without_hashtype then Err SigHighS else Ok ())
        | None \<Rightarrow> Err SigDer)"

definition is_defined_hashtype_signature :: "bytes \<Rightarrow> bool" where
  "is_defined_hashtype_signature sig =
     (if sig = [] then False
      else let hash_type = sig ! (length sig - 1) AND NOT 0x80 in 1 \<le> hash_type \<and> hash_type \<le> 3)"

definition check_signature_encoding :: "crypto \<Rightarrow> bytes \<Rightarrow> u32 \<Rightarrow> unit script_result" where
  "check_signature_encoding C sig script_flags =
     (if sig = [] then Ok ()
      else if has_flag script_flags (VERIFY_DERSIG OR VERIFY_LOW_S OR VERIFY_STRICTENC)
              \<and> \<not> is_valid_signature_encoding sig then Err SigDer
      else rbind (if has_flag script_flags VERIFY_LOW_S then is_low_der_signature C sig else Ok ())
        (\<lambda>_. if has_flag script_flags VERIFY_STRICTENC \<and> \<not> is_defined_hashtype_signature sig
             then Err SigHashtype else Ok ()))"

definition is_compressed_or_uncompressed_pubkey :: "bytes \<Rightarrow> bool" where
  "is_compressed_or_uncompressed_pubkey pubkey =
     (if length pubkey < 33 then False
      else if pubkey ! 0 = 0x04 then length pubkey = 65
      else if pubkey ! 0 = 0x02 \<or> pubkey ! 0 = 0x03 then length pubkey = 33
      else False)"

definition is_compressed_pubkey :: "bytes \<Rightarrow> bool" where
  "is_compressed_pubkey pubkey \<longleftrightarrow>
     length pubkey = 33 \<and> (pubkey ! 0 = 0x02 \<or> pubkey ! 0 = 0x03)"

definition check_pubkey_encoding :: "bytes \<Rightarrow> u32 \<Rightarrow> SigVersion \<Rightarrow> unit script_result" where
  "check_pubkey_encoding pubkey script_flags sig_version =
     (if has_flag script_flags VERIFY_STRICTENC \<and> \<not> is_compressed_or_uncompressed_pubkey pubkey
      then Err PubkeyType
      else if has_flag script_flags VERIFY_WITNESS_PUBKEYTYPE \<and> sig_version = WitnessV0
              \<and> \<not> is_compressed_pubkey pubkey
      then Err WitnessPubkeyType
      else Ok ())"

section \<open>Minimal pushes\<close>

definition check_minimal_push :: "bytes \<Rightarrow> byte \<Rightarrow> bool" where
  "check_minimal_push data opcode =
     (if data = [] then opcode = 0x00
      else if length data = 1 \<and> data ! 0 \<ge> 1 \<and> data ! 0 \<le> 16 then False
      else if length data = 1 \<and> data ! 0 = 0x81 then False
      else if length data \<le> 75 then unat opcode = length data
      else if length data \<le> 255 then opcode = 0x4c
      else if length data \<le> 65535 then opcode = 0x4d
      else True)"

section \<open>FindAndDelete\<close>

text \<open>One \<open>GetOp\<close> step of \<open>find_and_delete_exact\<close>: the position after the instruction at \<open>pc\<close>.\<close>

definition fad_getop :: "bytes \<Rightarrow> nat \<Rightarrow> nat" where
  "fad_getop script pc =
     (let opcode = script ! pc; len = length script; pc = pc + 1 in
      if opcode \<le> 75 then min (pc + unat opcode) len
      else if opcode = 0x4c then
        (if pc < len then min (pc + 1 + unat (script ! pc)) len else pc)
      else if opcode = 0x4d then
        (if pc + 1 < len then min (pc + 2 + le16 (script ! pc) (script ! (pc + 1))) len else len)
      else if opcode = 0x4e then
        (if pc + 3 < len then
           min (pc + 4 + le32 (script ! pc) (script ! (pc + 1)) (script ! (pc + 2)) (script ! (pc + 3))) len
         else len)
      else pc)"

text \<open>The inner \<open>while\<close>; its callers have already returned on an empty pattern.\<close>

function skip_matches :: "bytes \<Rightarrow> bytes \<Rightarrow> nat \<Rightarrow> nat \<Rightarrow> nat \<times> nat" where
  "skip_matches script pattern pc count =
     (if pattern \<noteq> [] \<and> pc + length pattern \<le> length script
         \<and> subslice script pc (pc + length pattern) = pattern
      then skip_matches script pattern (pc + length pattern) (count + 1)
      else (pc, count))"
  by pat_completeness auto
termination
  by (relation "measure (\<lambda>(script, pattern, pc, count). length script - pc)")
    (auto, metis add_diff_cancel_left' diff_less_mono2 length_greater_0_conv less_add_same_cancel1 order_less_le_trans)

declare skip_matches.simps [simp del]

lemma skip_matches_ge: "pc \<le> fst (skip_matches script pattern pc count)"
proof (induction script pattern pc count rule: skip_matches.induct)
  case (1 script pattern pc count)
  then show ?case by (subst skip_matches.simps) auto
qed

lemma fad_getop_gt: "pc < length script \<Longrightarrow> pc < fad_getop script pc"
  by (auto simp: fad_getop_def Let_def)

function fad_loop :: "bytes \<Rightarrow> bytes \<Rightarrow> bytes \<Rightarrow> nat \<Rightarrow> nat \<Rightarrow> nat \<Rightarrow> bytes \<times> nat \<times> nat" where
  "fad_loop script pattern result count pc pc2 =
     (let result = result @ subslice script pc2 pc;
          (pc, count) = skip_matches script pattern pc count;
          pc2 = pc
      in if pc \<ge> length script then (result, count, pc2)
         else fad_loop script pattern result count (fad_getop script pc) pc2)"
  by pat_completeness auto
termination
proof (relation "measure (\<lambda>(script, pattern, result, count, pc, pc2). length script - pc)", goal_cases)
  case (2 script pattern result count pc pc2 result' x pc' count' pc2')
  have "pc \<le> pc'" using 2(2,3) skip_matches_ge [of pc script pattern count] by (metis fst_conv)
  moreover have "pc' < fad_getop script pc'" using 2(5) by (intro fad_getop_gt) simp
  ultimately show ?case using 2(5) by simp
qed simp

declare fad_loop.simps [simp del]

definition find_and_delete_exact :: "bytes \<Rightarrow> bytes \<Rightarrow> bytes \<times> nat" where
  "find_and_delete_exact script pattern =
     (if pattern = [] then (script, 0)
      else case fad_loop script pattern [] 0 0 0 of (result, count, pc2) \<Rightarrow>
        if count > 0 then (result @ drop pc2 script, count) else (script, 0))"

definition find_and_delete :: "bytes \<Rightarrow> bytes \<Rightarrow> bytes \<times> nat" where
  "find_and_delete script pattern =
     (if pattern = [] \<or> length script < length pattern then (script, 0)
      else find_and_delete_exact script pattern)"

section \<open>The BIP 66 grammar\<close>

text \<open>A DER integer as BIP 66 allows it: not empty, not negative, no needless leading zero byte.\<close>

definition der_int :: "bytes \<Rightarrow> bool" where
  "der_int x \<longleftrightarrow> x \<noteq> [] \<and> unat (x ! 0) < 128 \<and> (length x > 1 \<and> x ! 0 = 0 \<longrightarrow> 128 \<le> unat (x ! 1))"

definition bip66_signature :: "bytes \<Rightarrow> bytes \<Rightarrow> byte \<Rightarrow> bytes" where
  "bip66_signature r s hashtype =
     [0x30, of_nat (length r + length s + 4), 0x02, of_nat (length r)] @ r
       @ [0x02, of_nat (length s)] @ s @ [hashtype]"

lemma valid_encoding_decomposed:
  assumes "length r = unat a3"
  shows "is_valid_signature_encoding ([a0, a1, a2, a3] @ r @ [t, ls] @ s @ [ht]) \<longleftrightarrow>
    length r + length s \<le> 66 \<and> a0 = 0x30 \<and> unat a1 = length r + length s + 4 \<and> a2 = 0x02
      \<and> t = 0x02 \<and> unat ls = length s \<and> der_int r \<and> der_int s"
proof (cases "r = [] \<or> s = []")
  case True
  then show ?thesis using assms
    by (auto simp: is_valid_signature_encoding_def der_int_def Let_def nth_append)
next
  case False
  then obtain r0 r' s0 s' where rs: "r = r0 # r'" "s = s0 # s'" by (metis list.exhaust)
  have and0: "(x AND 0x80 = 0) = (unat x < 128)" for x :: byte
    using byte_and_80 [of x] by auto
  let ?sig = "[a0, a1, a2, a3] @ r @ [t, ls] @ s @ [ht]"
  have len: "length ?sig = length r + length s + 7" by simp
  have n: "?sig ! 0 = a0" "?sig ! 1 = a1" "?sig ! 2 = a2" "?sig ! 3 = a3" "?sig ! 4 = r ! 0"
    "?sig ! (length r + 4) = t" "?sig ! (5 + length r) = ls" "?sig ! (length r + 6) = s ! 0"
    "length r > 1 \<Longrightarrow> ?sig ! 5 = r ! 1" "length s > 1 \<Longrightarrow> ?sig ! (length r + 7) = s ! 1"
    using rs by (auto simp: nth_append numeral_eq_Suc)
  show ?thesis
    unfolding is_valid_signature_encoding_def Let_def len n(1-4) assms [symmetric] n(5-8) byte_and_80 and0 der_int_def
    using False n(9,10) rs by (cases "length r > 1"; cases "length s > 1") (auto simp: and0)
qed

lemma encoding_decompose:
  assumes "is_valid_signature_encoding sig"
  obtains a0 a1 a2 a3 r t ls s ht
  where "sig = [a0, a1, a2, a3] @ r @ [t, ls] @ s @ [ht]" "length r = unat a3"
proof -
  have len: "9 \<le> length sig" "5 + unat (sig ! 3) < length sig"
    "unat (sig ! 3) + unat (sig ! (5 + unat (sig ! 3))) + 7 = length sig"
    using assms by (auto simp: is_valid_signature_encoding_def Let_def split: if_splits)
  then obtain a0 a1 a2 a3 rest where sig: "sig = a0 # a1 # a2 # a3 # rest"
    by (auto simp: numeral_eq_Suc Suc_le_length_iff)
  let ?k = "unat a3"
  have k: "?k + 3 \<le> length rest" using len sig by simp
  define r where "r = take ?k rest"
  obtain d where d: "d = drop ?k rest" by simp
  have "Suc (Suc (Suc 0)) \<le> length d" using k d by simp
  then obtain t ls tl where "d = t # ls # tl" and tl2: "tl \<noteq> []"
    by (auto simp: Suc_le_length_iff)
  then have tl: "drop ?k rest = t # ls # tl" using d by simp
  have "rest = r @ t # ls # tl" unfolding r_def tl [symmetric] by simp
  then have "sig = [a0, a1, a2, a3] @ r @ [t, ls] @ butlast tl @ [last tl]"
    using sig tl2 by simp
  moreover have "length r = ?k" using k by (simp add: r_def)
  ultimately show ?thesis by (rule that)
qed

lemma is_valid_signature_encoding_bip66:
  "is_valid_signature_encoding sig \<longleftrightarrow>
    (\<exists>r s hashtype. sig = bip66_signature r s hashtype \<and> der_int r \<and> der_int s \<and> length r + length s \<le> 66)"
proof
  assume v: "is_valid_signature_encoding sig"
  then obtain a0 a1 a2 a3 r t ls s ht
    where sig: "sig = [a0, a1, a2, a3] @ r @ [t, ls] @ s @ [ht]" and r: "length r = unat a3"
    by (rule encoding_decompose)
  then have c: "length r + length s \<le> 66 \<and> a0 = 0x30 \<and> unat a1 = length r + length s + 4 \<and> a2 = 0x02
      \<and> t = 0x02 \<and> unat ls = length s \<and> der_int r \<and> der_int s"
    using v valid_encoding_decomposed by blast
  have w: "x = of_nat (unat x)" for x :: byte by simp
  have "sig = bip66_signature r s ht"
    unfolding sig bip66_signature_def using c r w [of a1] w [of a3] w [of ls] by simp
  then show "\<exists>r s hashtype. sig = bip66_signature r s hashtype \<and> der_int r \<and> der_int s \<and> length r + length s \<le> 66"
    using c by blast
next
  assume "\<exists>r s hashtype. sig = bip66_signature r s hashtype \<and> der_int r \<and> der_int s \<and> length r + length s \<le> 66"
  then obtain r s ht where sig: "sig = bip66_signature r s ht" and c: "der_int r" "der_int s" "length r + length s \<le> 66"
    by blast
  then show "is_valid_signature_encoding sig"
    unfolding sig bip66_signature_def
    by (subst valid_encoding_decomposed) (simp_all only: unat_of_nat_byte, simp_all)
qed

section \<open>Deletion at instruction boundaries\<close>

text \<open>
  The number of bytes of the instruction at the head of a script, clipped to the end of the
  script when its push data is cut off.
\<close>

definition instr_size :: "bytes \<Rightarrow> nat" where
  "instr_size s =
     (let n = length s in
      if s ! 0 \<le> 75 then min (1 + unat (s ! 0)) n
      else if s ! 0 = 0x4c then (if 1 < n then min (2 + unat (s ! 1)) n else n)
      else if s ! 0 = 0x4d then (if 2 < n then min (3 + le16 (s ! 1) (s ! 2)) n else n)
      else if s ! 0 = 0x4e then
        (if 4 < n then min (5 + le32 (s ! 1) (s ! 2) (s ! 3) (s ! 4)) n else n)
      else 1)"

lemma instr_size_pos: "s \<noteq> [] \<Longrightarrow> 0 < instr_size s"
  by (auto simp: instr_size_def Let_def)

lemma instr_size_le: "s \<noteq> [] \<Longrightarrow> instr_size s \<le> length s"
  by (cases s) (auto simp: instr_size_def Let_def)

function fad_ref :: "bytes \<Rightarrow> bytes \<Rightarrow> bytes \<times> nat" where
  "fad_ref p s =
     (if p \<noteq> [] \<and> prefix p s then
        (case fad_ref p (drop (length p) s) of (r, c) \<Rightarrow> (r, Suc c))
      else if s = [] then ([], 0)
      else case fad_ref p (drop (instr_size s) s) of (r, c) \<Rightarrow> (take (instr_size s) s @ r, c))"
  by pat_completeness auto
termination
proof (relation "measure (\<lambda>(p, s). length s)", goal_cases)
  case (2 p s)
  then have "s \<noteq> []" by auto
  then show ?case using 2 by (simp add: diff_less)
next
  case (3 p s)
  then show ?case using instr_size_pos [of s] by (simp add: diff_less)
qed simp

declare fad_ref.simps [simp del]

lemma fad_ref_match:
  "p \<noteq> [] \<Longrightarrow> prefix p s \<Longrightarrow>
     fad_ref p s = (fst (fad_ref p (drop (length p) s)), Suc (snd (fad_ref p (drop (length p) s))))"
  by (subst fad_ref.simps) (simp add: case_prod_beta)

lemma fad_ref_skip:
  "\<not> prefix p s \<Longrightarrow> s \<noteq> [] \<Longrightarrow>
     fad_ref p s = (take (instr_size s) s @ fst (fad_ref p (drop (instr_size s) s)),
       snd (fad_ref p (drop (instr_size s) s)))"
  by (subst fad_ref.simps) (simp add: case_prod_beta)

lemma fad_ref_Nil [simp]: "fad_ref p [] = ([], 0)"
  by (subst fad_ref.simps) simp

lemma fad_ref_none: "p \<noteq> [] \<Longrightarrow> snd (fad_ref p s) = 0 \<Longrightarrow> fst (fad_ref p s) = s"
proof (induction p s rule: fad_ref.induct)
  case (1 p s)
  show ?case
  proof (cases "prefix p s")
    case True
    then show ?thesis using 1 fad_ref_match by simp
  next
    case False
    then show ?thesis using 1 by (cases "s = []") (simp_all add: fad_ref_skip)
  qed
qed

lemma fad_ref_length:
  "p \<noteq> [] \<Longrightarrow> length (fst (fad_ref p s)) + snd (fad_ref p s) * length p = length s"
proof (induction p s rule: fad_ref.induct)
  case (1 p s)
  show ?case
  proof (cases "prefix p s")
    case True
    then show ?thesis using 1 prefix_length_le [OF True] by (simp add: fad_ref_match)
  next
    case False
    then show ?thesis using 1 instr_size_le [of s] by (cases "s = []") (simp_all add: fad_ref_skip)
  qed
qed

lemma fad_getop_instr_size:
  assumes "pc < length script"
  shows "fad_getop script pc = pc + instr_size (drop pc script)"
proof -
  obtain n where n: "length script = pc + n" "0 < n"
    using assms by (metis less_imp_add_positive)
  note defs = n(1) fad_getop_def instr_size_def Let_def min_def
  consider "script ! pc \<le> 75" | "script ! pc = 0x4c" | "script ! pc = 0x4d" | "script ! pc = 0x4e"
    | "\<not> script ! pc \<le> 75" "script ! pc \<noteq> 0x4c" "script ! pc \<noteq> 0x4d" "script ! pc \<noteq> 0x4e"
    by blast
  then show ?thesis 
  proof cases
    case 4
    then show ?thesis using n(2) by (simp add: defs eval_nat_numeral)
  qed (use n(2) in \<open>simp_all add: defs\<close>)
qed

lemma subslice_prefix:
  "pc \<le> length script \<Longrightarrow>
     pc + length p \<le> length script \<and> subslice script pc (pc + length p) = p \<longleftrightarrow> prefix p (drop pc script)"
proof -
  assume pc: "pc \<le> length script"
  have "pc + length p \<le> length script" if "prefix p (drop pc script)"
    using prefix_length_le [OF that] pc by simp
  moreover have "take (length p) (drop pc script) = p \<longleftrightarrow> prefix p (drop pc script)"
    if "pc + length p \<le> length script"
    by (metis append_eq_conv_conj append_take_drop_id prefix_def)
  ultimately show ?thesis by (auto simp: subslice_def)
qed

lemma skip_matches_ref:
  assumes "p \<noteq> []" "pc \<le> length script" "skip_matches script p pc count = (pc', count')"
  shows "pc' \<le> length script \<and> count \<le> count' \<and> \<not> prefix p (drop pc' script)
    \<and> fad_ref p (drop pc script)
      = (fst (fad_ref p (drop pc' script)), snd (fad_ref p (drop pc' script)) + (count' - count))"
  using assms
proof (induction script p pc count rule: skip_matches.induct)
  case (1 script p pc count)
  show ?case
  proof (cases "prefix p (drop pc script)")
    case True
    have g: "pc + length p \<le> length script" "subslice script pc (pc + length p) = p"
      using True subslice_prefix [OF 1(3)] by blast+
    then have "skip_matches script p (pc + length p) (count + 1) = (pc', count')"
      using 1(2,4) by (subst (asm) skip_matches.simps) simp
    then have "pc' \<le> length script \<and> count + 1 \<le> count' \<and> \<not> prefix p (drop pc' script)
      \<and> fad_ref p (drop (pc + length p) script)
        = (fst (fad_ref p (drop pc' script)), snd (fad_ref p (drop pc' script)) + (count' - (count + 1)))"
      using g 1 by simp
    then show ?thesis using fad_ref_match [OF 1(2) True] by (auto simp: add.commute)
  next
    case False
    then have "(pc', count') = (pc, count)"
      using subslice_prefix [OF 1(3)] 1(4) by (subst (asm) skip_matches.simps) (auto split: if_splits)
    then show ?thesis using False 1(3) by simp
  qed
qed

lemma fad_loop_ref:
  assumes "p \<noteq> []" "pc2 \<le> pc" "pc \<le> length script"
  shows "fad_loop script p result count pc pc2 =
    (result @ subslice script pc2 pc @ fst (fad_ref p (drop pc script)),
     count + snd (fad_ref p (drop pc script)), length script)"
  using assms
proof (induction script p result count pc pc2 rule: fad_loop.induct)
  case (1 script p result count pc pc2)
  obtain pc' count' where sk: "skip_matches script p pc count = (pc', count')" by force
  have r: "pc' \<le> length script" "count \<le> count'" "\<not> prefix p (drop pc' script)"
    "fad_ref p (drop pc script)
      = (fst (fad_ref p (drop pc' script)), snd (fad_ref p (drop pc' script)) + (count' - count))"
    using skip_matches_ref [OF 1(2,4) sk] by auto
  show ?case
  proof (cases "pc' < length script")
    case True
    let ?n = "instr_size (drop pc' script)"
    have n: "?n \<le> length script - pc'" using instr_size_le [of "drop pc' script"] True by simp
    have "fad_loop script p (result @ subslice script pc2 pc) count' (pc' + ?n) pc' =
      (result @ subslice script pc2 pc @ subslice script pc' (pc' + ?n) @ fst (fad_ref p (drop (pc' + ?n) script)),
       count' + snd (fad_ref p (drop (pc' + ?n) script)), length script)"
      using 1(1) [OF refl sk [symmetric] refl refl] True n 1(2) by (simp add: fad_getop_instr_size)
    moreover have "fad_ref p (drop pc' script) =
      (subslice script pc' (pc' + ?n) @ fst (fad_ref p (drop (pc' + ?n) script)),
       snd (fad_ref p (drop (pc' + ?n) script)))"
      using fad_ref_skip [OF r(3)] True by (simp add: subslice_def add.commute)
    ultimately show ?thesis using r(2,4) True sk
      by (subst fad_loop.simps) (simp add: fad_getop_instr_size Let_def)
  next
    case False
    then have "pc' = length script" using r(1) by simp
    then show ?thesis using r sk by (subst fad_loop.simps) (simp add: Let_def)
  qed
qed

lemma find_and_delete_ref: "p \<noteq> [] \<Longrightarrow> find_and_delete s p = fad_ref p s"
proof -
  assume p: "p \<noteq> []"
  have l: "fad_loop s p [] 0 0 0 = (fst (fad_ref p s), snd (fad_ref p s), length s)"
    using fad_loop_ref [OF p, of 0 0 s "[]" 0] by (simp add: subslice_def)
  have "snd (fad_ref p s) = 0" if "length s < length p"
    using fad_ref_length [OF p, of s] that by (cases "snd (fad_ref p s)") auto
  then show ?thesis
    using p fad_ref_none [OF p, of s]
    unfolding find_and_delete_def find_and_delete_exact_def l by (auto simp: prod_eq_iff)
qed

section \<open>Effect of the flags\<close>

text \<open>Dropping flags never turns an accepted encoding into a rejected one.\<close>

lemma check_signature_encoding_mono:
  "flags_le f g \<Longrightarrow> check_signature_encoding C sig g = Ok x \<Longrightarrow> check_signature_encoding C sig f = Ok x"
  by (auto simp: check_signature_encoding_def rbind_eq_Ok dest: has_flag_mono split: if_splits)

lemma check_pubkey_encoding_mono:
  "flags_le f g \<Longrightarrow> check_pubkey_encoding pk g sv = Ok x \<Longrightarrow> check_pubkey_encoding pk f sv = Ok x"
  by (auto simp: check_pubkey_encoding_def dest: has_flag_mono split: if_splits)

lemma no_panic_is_low_der [simp]: "no_panic (is_low_der_signature C sig)"
  by (auto simp: is_low_der_signature_def Let_def split: option.splits)

lemma no_panic_check_signature_encoding [simp]: "no_panic (check_signature_encoding C sig f)"
  by (auto simp: check_signature_encoding_def)

lemma no_panic_check_pubkey_encoding [simp]: "no_panic (check_pubkey_encoding pk f sv)"
  by (auto simp: check_pubkey_encoding_def)

section \<open>Properties\<close>

text \<open>
  C30: The strict signature check is the BIP 66 grammar: it accepts exactly the vectors that are the
  DER sequence of two minimal non-negative integers of at most 66 bytes together, followed by a hash type.
\<close>

theorem signature_encoding_bip66:
  "is_valid_signature_encoding sig \<longleftrightarrow>
    (\<exists>r s hashtype. sig = bip66_signature r s hashtype \<and> der_int r \<and> der_int s \<and> length r + length s \<le> 66)"
  by (rule is_valid_signature_encoding_bip66)

text \<open>
  C31: Deleting a pattern from a script is the instruction-wise deletion: the cursor loop of the code
  computes the reference that strips the pattern at instruction boundaries only, and each of the
  counted matches removes exactly the length of the pattern.
\<close>

theorem find_and_delete_instructionwise:
  assumes "p \<noteq> []"
  shows "find_and_delete s p = fad_ref p s
    \<and> length (fst (find_and_delete s p)) + snd (find_and_delete s p) * length p = length s"
  using find_and_delete_ref [OF assms] fad_ref_length [OF assms] by simp

theorem find_and_delete_instructionwise_witness:
  "find_and_delete [1, 0xab, 0xab] [0xab] = fad_ref [0xab] [1, 0xab, 0xab]
    \<and> length (fst (find_and_delete [1, 0xab, 0xab] [0xab])) + snd (find_and_delete [1, 0xab, 0xab] [0xab]) * length [0xab :: byte]
      = length [1, 0xab, 0xab :: byte]"
  by (rule find_and_delete_instructionwise) simp

end
