(* ===== verification/Stack_Ops.thy ===== *)
theory Stack_Ops
  imports Opcodes Encoding
begin

text \<open>
  The arms of the interpreter in \<open>consensus/src/eval.rs\<close> that only transform the main stack: the
  stack, comparison, arithmetic and hash opcodes.  The Rust vector grows at its end; here a stack
  is a list whose head is the top, so that \<open>stack[len - i]\<close> is the element at index \<open>i - 1\<close> and
  \<open>push\<close> is \<open>(#)\<close>.  On an error the caller discards the vector, so an error carries no stack.
\<close>

type_synonym stack = "bytes list"

section \<open>Constants and stack shuffling\<close>

definition op_num :: "byte \<Rightarrow> stack \<Rightarrow> stack script_result" where
  "op_num opcode s = Ok (serialize_i64 (int (unat opcode) - (int (unat OP_1) - 1)) # s)"

definition op_verify :: "stack \<Rightarrow> stack script_result" where
  "op_verify s = (case s of [] \<Rightarrow> Err InvalidStackOperation
     | v # r \<Rightarrow> if cast_to_bool v then Ok r else Err Verify)"

definition op_2drop :: "stack \<Rightarrow> stack script_result" where
  "op_2drop s = (case s of _ # _ # r \<Rightarrow> Ok r | _ \<Rightarrow> Err InvalidStackOperation)"

definition op_2dup :: "stack \<Rightarrow> stack script_result" where
  "op_2dup s = (case s of v2 # v1 # r \<Rightarrow> Ok (v2 # v1 # v2 # v1 # r) | _ \<Rightarrow> Err InvalidStackOperation)"

definition op_3dup :: "stack \<Rightarrow> stack script_result" where
  "op_3dup s = (case s of v3 # v2 # v1 # r \<Rightarrow> Ok (v3 # v2 # v1 # v3 # v2 # v1 # r)
     | _ \<Rightarrow> Err InvalidStackOperation)"

definition op_2over :: "stack \<Rightarrow> stack script_result" where
  "op_2over s = (case s of v4 # v3 # v2 # v1 # r \<Rightarrow> Ok (v2 # v1 # v4 # v3 # v2 # v1 # r)
     | _ \<Rightarrow> Err InvalidStackOperation)"

definition op_2rot :: "stack \<Rightarrow> stack script_result" where
  "op_2rot s = (case s of v6 # v5 # v4 # v3 # v2 # v1 # r \<Rightarrow> Ok (v2 # v1 # v6 # v5 # v4 # v3 # r)
     | _ \<Rightarrow> Err InvalidStackOperation)"

definition op_2swap :: "stack \<Rightarrow> stack script_result" where
  "op_2swap s = (case s of v4 # v3 # v2 # v1 # r \<Rightarrow> Ok (v2 # v1 # v4 # v3 # r)
     | _ \<Rightarrow> Err InvalidStackOperation)"

definition op_ifdup :: "stack \<Rightarrow> stack script_result" where
  "op_ifdup s = (case s of [] \<Rightarrow> Err InvalidStackOperation
     | v # r \<Rightarrow> Ok (if cast_to_bool v then v # v # r else v # r))"

definition op_depth :: "stack \<Rightarrow> stack script_result" where
  "op_depth s = Ok (serialize_i64 (int (length s)) # s)"

definition op_drop :: "stack \<Rightarrow> stack script_result" where
  "op_drop s = (case s of [] \<Rightarrow> Err InvalidStackOperation | _ # r \<Rightarrow> Ok r)"

definition op_dup :: "stack \<Rightarrow> stack script_result" where
  "op_dup s = (case s of [] \<Rightarrow> Err InvalidStackOperation | v # r \<Rightarrow> Ok (v # v # r))"

definition op_nip :: "stack \<Rightarrow> stack script_result" where
  "op_nip s = (case s of v2 # _ # r \<Rightarrow> Ok (v2 # r) | _ \<Rightarrow> Err InvalidStackOperation)"

definition op_over :: "stack \<Rightarrow> stack script_result" where
  "op_over s = (case s of v2 # v1 # r \<Rightarrow> Ok (v1 # v2 # v1 # r) | _ \<Rightarrow> Err InvalidStackOperation)"

text \<open>The default decoding of a numeric operand, any decoding error becoming \<open>ScriptNum\<close>.\<close>

definition num :: "bool \<Rightarrow> bytes \<Rightarrow> int script_result" where
  "num require_minimal v = map_err (\<lambda>_. ScriptNum) (from_bytes_default v require_minimal)"

definition op_pick_roll :: "bool \<Rightarrow> byte \<Rightarrow> stack \<Rightarrow> stack script_result" where
  "op_pick_roll require_minimal opcode s =
     (if length s < 2 then Err InvalidStackOperation
      else rbind (num require_minimal (hd s)) (\<lambda>bn.
        let n = getint bn; s = tl s in
        if n < 0 \<or> nat n \<ge> length s then Err InvalidStackOperation
        else let vch = s ! nat n;
                 s = (if opcode = OP_ROLL then take (nat n) s @ drop (Suc (nat n)) s else s)
             in Ok (vch # s)))"

definition op_rot :: "stack \<Rightarrow> stack script_result" where
  "op_rot s = (case s of v3 # v2 # v1 # r \<Rightarrow> Ok (v1 # v3 # v2 # r) | _ \<Rightarrow> Err InvalidStackOperation)"

definition op_swap :: "stack \<Rightarrow> stack script_result" where
  "op_swap s = (case s of v2 # v1 # r \<Rightarrow> Ok (v1 # v2 # r) | _ \<Rightarrow> Err InvalidStackOperation)"

definition op_tuck :: "stack \<Rightarrow> stack script_result" where
  "op_tuck s = (case s of v2 # v1 # r \<Rightarrow> Ok (v2 # v1 # v2 # r) | _ \<Rightarrow> Err InvalidStackOperation)"

definition op_size :: "stack \<Rightarrow> stack script_result" where
  "op_size s = (case s of [] \<Rightarrow> Err InvalidStackOperation
     | v # r \<Rightarrow> Ok (serialize_i64 (int (length v)) # v # r))"

section \<open>Comparison and arithmetic\<close>

definition op_equal :: "byte \<Rightarrow> stack \<Rightarrow> stack script_result" where
  "op_equal opcode s = (case s of
       v2 # v1 # r \<Rightarrow>
         let f_equal = (v1 = v2) in
         if opcode = OP_EQUALVERIFY then if f_equal then Ok r else Err EqualVerify
         else Ok (stack_bool f_equal # r)
     | _ \<Rightarrow> Err InvalidStackOperation)"

definition unary_result :: "byte \<Rightarrow> int \<Rightarrow> int script_result" where
  "unary_result opcode bn =
     (if opcode = OP_1ADD then num_add bn 1
      else if opcode = OP_1SUB then num_sub bn 1
      else if opcode = OP_NEGATE then negate bn
      else if opcode = OP_ABS then (if bn < 0 then negate bn else Ok bn)
      else if opcode = OP_NOT then Ok (num_of_bool (bn = 0))
      else if opcode = OP_0NOTEQUAL then Ok (num_of_bool (bn \<noteq> 0))
      else Panic)"

definition op_unary :: "bool \<Rightarrow> byte \<Rightarrow> stack \<Rightarrow> stack script_result" where
  "op_unary require_minimal opcode s = (case s of [] \<Rightarrow> Err InvalidStackOperation
     | v # r \<Rightarrow> rbind (num require_minimal v) (\<lambda>bn.
         rbind (unary_result opcode bn) (\<lambda>result. Ok (serialize_i64 result # r))))"

definition binary_result :: "byte \<Rightarrow> int \<Rightarrow> int \<Rightarrow> int script_result" where
  "binary_result opcode bn1 bn2 =
     (if opcode = OP_ADD then num_add bn1 bn2
      else if opcode = OP_SUB then num_sub bn1 bn2
      else if opcode = OP_BOOLAND then Ok (num_of_bool (bn1 \<noteq> 0 \<and> bn2 \<noteq> 0))
      else if opcode = OP_BOOLOR then Ok (num_of_bool (bn1 \<noteq> 0 \<or> bn2 \<noteq> 0))
      else if opcode = OP_NUMEQUAL \<or> opcode = OP_NUMEQUALVERIFY then Ok (num_of_bool (bn1 = bn2))
      else if opcode = OP_NUMNOTEQUAL then Ok (num_of_bool (bn1 \<noteq> bn2))
      else if opcode = OP_LESSTHAN then Ok (num_of_bool (bn1 < bn2))
      else if opcode = OP_GREATERTHAN then Ok (num_of_bool (bn1 > bn2))
      else if opcode = OP_LESSTHANOREQUAL then Ok (num_of_bool (bn1 \<le> bn2))
      else if opcode = OP_GREATERTHANOREQUAL then Ok (num_of_bool (bn1 \<ge> bn2))
      else if opcode = OP_MIN then Ok (if bn1 < bn2 then bn1 else bn2)
      else if opcode = OP_MAX then Ok (if bn1 > bn2 then bn1 else bn2)
      else Panic)"

definition op_binary :: "bool \<Rightarrow> byte \<Rightarrow> stack \<Rightarrow> stack script_result" where
  "op_binary require_minimal opcode s = (case s of
       v2 # v1 # r \<Rightarrow>
         rbind (num require_minimal v2) (\<lambda>bn2.
         rbind (num require_minimal v1) (\<lambda>bn1.
         rbind (binary_result opcode bn1 bn2) (\<lambda>result.
           let top = serialize_i64 result in
           if opcode = OP_NUMEQUALVERIFY
           then if cast_to_bool top then Ok r else Err NumEqualVerify
           else Ok (top # r))))
     | _ \<Rightarrow> Err InvalidStackOperation)"

definition op_within :: "bool \<Rightarrow> stack \<Rightarrow> stack script_result" where
  "op_within require_minimal s = (case s of
       v3 # v2 # v1 # r \<Rightarrow>
         rbind (num require_minimal v3) (\<lambda>bn3.
         rbind (num require_minimal v2) (\<lambda>bn2.
         rbind (num require_minimal v1) (\<lambda>bn1.
           Ok (stack_bool (bn2 \<le> bn1 \<and> bn1 < bn3) # r))))
     | _ \<Rightarrow> Err InvalidStackOperation)"

section \<open>Hashing\<close>

definition op_ripemd160 :: "crypto \<Rightarrow> stack \<Rightarrow> stack script_result" where
  "op_ripemd160 C s = (case s of [] \<Rightarrow> Err InvalidStackOperation | v # r \<Rightarrow> Ok (ripemd160 C v # r))"

definition op_sha1 :: "crypto \<Rightarrow> stack \<Rightarrow> stack script_result" where
  "op_sha1 C s = (case s of [] \<Rightarrow> Err InvalidStackOperation | v # r \<Rightarrow> Ok (sha1 C v # r))"

definition op_sha256 :: "crypto \<Rightarrow> stack \<Rightarrow> stack script_result" where
  "op_sha256 C s = (case s of [] \<Rightarrow> Err InvalidStackOperation | v # r \<Rightarrow> Ok (sha256 C v # r))"

definition op_hash160 :: "crypto \<Rightarrow> stack \<Rightarrow> stack script_result" where
  "op_hash160 C s = (case s of [] \<Rightarrow> Err InvalidStackOperation
     | v # r \<Rightarrow> Ok (ripemd160 C (sha256 C v) # r))"

definition op_hash256 :: "crypto \<Rightarrow> stack \<Rightarrow> stack script_result" where
  "op_hash256 C s = (case s of [] \<Rightarrow> Err InvalidStackOperation
     | v # r \<Rightarrow> Ok (sha256 C (sha256 C v) # r))"

end
