(* ===== verification/Condition_Stack.thy ===== *)
theory Condition_Stack
  imports Prelude
begin

text \<open>
  The IF/ELSE/ENDIF condition stack of \<open>consensus/src/condition.rs\<close>.  The code keeps only the size
  of the nesting and the position of the first false value; a vector of booleans is what it stands
  for.  \<open>repr\<close> maps such a vector (outermost branch first) to the two counters, the locale
  \<open>branch_stack\<close> states the laws the interpreter relies on over \<open>repr\<close>, and the interpretation
  \<open>cs\<close> shows that the two counters keep them.
\<close>

record ConditionStack =
  stack_size :: nat
  first_false_pos :: nat

definition NO_FALSE :: nat where
  "NO_FALSE = u32_max"

definition cs_new :: ConditionStack where
  "cs_new = \<lparr>stack_size = 0, first_false_pos = NO_FALSE\<rparr>"

definition cs_is_empty :: "ConditionStack \<Rightarrow> bool" where
  "cs_is_empty c \<longleftrightarrow> stack_size c = 0"

definition all_true :: "ConditionStack \<Rightarrow> bool" where
  "all_true c \<longleftrightarrow> first_false_pos c = NO_FALSE"

definition push_back :: "ConditionStack \<Rightarrow> bool \<Rightarrow> ('e, ConditionStack) result" where
  "push_back c value =
     (let c' = (if first_false_pos c = NO_FALSE \<and> \<not> value
                then c\<lparr>first_false_pos := stack_size c\<rparr> else c)
      in rbind (checked_u32_add (stack_size c') 1) (\<lambda>n. Ok (c'\<lparr>stack_size := n\<rparr>)))"

definition pop_back :: "ConditionStack \<Rightarrow> ('e, ConditionStack) result" where
  "pop_back c =
     (if stack_size c > 0 then
        let c' = c\<lparr>stack_size := stack_size c - 1\<rparr>
        in Ok (if first_false_pos c' = stack_size c' then c'\<lparr>first_false_pos := NO_FALSE\<rparr> else c')
      else Panic)"

definition toggle_top :: "ConditionStack \<Rightarrow> ('e, ConditionStack) result" where
  "toggle_top c =
     (if stack_size c > 0 then
        Ok (if first_false_pos c = NO_FALSE then c\<lparr>first_false_pos := stack_size c - 1\<rparr>
            else if first_false_pos c = stack_size c - 1 then c\<lparr>first_false_pos := NO_FALSE\<rparr>
            else c)
      else Panic)"

lemmas condition_stack_defs =
  cs_new_def cs_is_empty_def all_true_def push_back_def pop_back_def toggle_top_def Let_def

section \<open>The contract\<close>

text \<open>
  Operations a client can perform, run on any implementation and on a vector of booleans.
\<close>

datatype branch_op = PushB bool | PopB | ToggleB

fun vec_op :: "branch_op \<Rightarrow> bool list \<Rightarrow> bool list option" where
  "vec_op (PushB v) bs = Some (bs @ [v])"
| "vec_op PopB bs = (if bs = [] then None else Some (butlast bs))"
| "vec_op ToggleB bs = (if bs = [] then None else Some (butlast bs @ [\<not> last bs]))"

fun vec_run :: "branch_op list \<Rightarrow> bool list \<Rightarrow> bool list option" where
  "vec_run [] bs = Some bs"
| "vec_run (x # xs) bs = Option.bind (vec_op x bs) (vec_run xs)"

fun run_branch_ops ::
  "('s \<Rightarrow> bool \<Rightarrow> ('e, 's) result) \<Rightarrow> ('s \<Rightarrow> ('e, 's) result) \<Rightarrow> ('s \<Rightarrow> ('e, 's) result) \<Rightarrow>
   branch_op list \<Rightarrow> 's \<Rightarrow> ('e, 's) result" where
  "run_branch_ops push pop toggle [] s = Ok s"
| "run_branch_ops push pop toggle (x # xs) s =
     rbind (case x of PushB v \<Rightarrow> push s v | PopB \<Rightarrow> pop s | ToggleB \<Rightarrow> toggle s)
       (run_branch_ops push pop toggle xs)"

locale branch_stack =
  fixes repr :: "bool list \<Rightarrow> 's"
    and empty_stack :: 's
    and is_empty :: "'s \<Rightarrow> bool"
    and active :: "'s \<Rightarrow> bool"
    and push :: "'s \<Rightarrow> bool \<Rightarrow> ('e, 's) result"
    and pop :: "'s \<Rightarrow> ('e, 's) result"
    and toggle :: "'s \<Rightarrow> ('e, 's) result"
    and cap :: nat
  assumes repr_empty: "empty_stack = repr []"
    and repr_is_empty: "length bs \<le> cap \<Longrightarrow> is_empty (repr bs) \<longleftrightarrow> bs = []"
    and repr_active: "length bs \<le> cap \<Longrightarrow> active (repr bs) \<longleftrightarrow> (False \<notin> set bs)"
    and repr_push: "length bs < cap \<Longrightarrow> push (repr bs) v = Ok (repr (bs @ [v]))"
    and repr_pop: "bs \<noteq> [] \<Longrightarrow> length bs \<le> cap \<Longrightarrow> pop (repr bs) = Ok (repr (butlast bs))"
    and repr_toggle:
      "bs \<noteq> [] \<Longrightarrow> length bs \<le> cap \<Longrightarrow> toggle (repr bs) = Ok (repr (butlast bs @ [\<not> last bs]))"
begin

lemma apply_op_simulates:
  assumes "vec_op x bs = Some bs'" and "length bs < cap"
  shows "(case x of PushB v \<Rightarrow> push (repr bs) v | PopB \<Rightarrow> pop (repr bs) | ToggleB \<Rightarrow> toggle (repr bs))
      = Ok (repr bs') \<and> length bs' \<le> Suc (length bs)"
proof (cases x)
  case (PushB v)
  then show ?thesis using assms repr_push by auto
next
  case PopB
  then show ?thesis using assms repr_pop by (auto split: if_splits)
next
  case ToggleB
  then show ?thesis using assms repr_toggle by (auto split: if_splits)
qed

lemma run_ops_simulates:
  assumes "vec_run xs bs = Some bs'" and "length bs + length xs \<le> cap"
  shows "run_branch_ops push pop toggle xs (repr bs) = Ok (repr bs') \<and> length bs' \<le> length bs + length xs"
  using assms
proof (induction xs arbitrary: bs)
  case (Cons x xs)
  then obtain b1 where b1: "vec_op x bs = Some b1" and r: "vec_run xs b1 = Some bs'"
    by (auto simp: Option.bind_eq_Some_conv)
  have "(case x of PushB v \<Rightarrow> push (repr bs) v | PopB \<Rightarrow> pop (repr bs) | ToggleB \<Rightarrow> toggle (repr bs))
      = Ok (repr b1)"
    and len: "length b1 \<le> Suc (length bs)"
    using apply_op_simulates [OF b1] Cons.prems(2) by auto
  moreover have "run_branch_ops push pop toggle xs (repr b1) = Ok (repr bs') \<and> length bs' \<le> length b1 + length xs"
    using Cons.IH [OF r] len Cons.prems(2) by simp
  ultimately show ?case by simp
qed simp

lemma run_ops_observations:
  assumes "vec_run xs [] = Some bs" and "length xs \<le> cap"
  shows "\<exists>s. run_branch_ops push pop toggle xs empty_stack = Ok s \<and> is_empty s = (bs = []) \<and> active s = (False \<notin> set bs)"
  using run_ops_simulates [of xs "[]" bs] assms repr_is_empty repr_active
  by (auto simp: repr_empty)

end

section \<open>The two counters keep the contract\<close>

definition repr :: "bool list \<Rightarrow> ConditionStack" where
  "repr bs = \<lparr>stack_size = length bs,
     first_false_pos = (if False \<notin> set bs then NO_FALSE else length (takeWhile (\<lambda>b. b) bs))\<rparr>"

lemma takeWhile_short: "False \<in> set bs \<Longrightarrow> length (takeWhile (\<lambda>b. b) bs) < length bs"
  by (induction bs) auto

lemma takeWhile_butlast_append:
  "False \<in> set bs \<Longrightarrow> takeWhile (\<lambda>b. b) (bs @ cs) = takeWhile (\<lambda>b. b) bs"
  by (induction bs) auto

lemma takeWhile_all: "False \<notin> set bs \<Longrightarrow> takeWhile (\<lambda>b. b) (bs @ cs) = bs @ takeWhile (\<lambda>b. b) cs"
  by (induction bs) auto

lemma repr_snoc:
  "repr (bs @ [v]) = \<lparr>stack_size = Suc (length bs), first_false_pos =
     (if False \<notin> set bs then (if v then NO_FALSE else length bs)
      else length (takeWhile (\<lambda>b. b) bs))\<rparr>"
  by (auto simp: repr_def takeWhile_butlast_append takeWhile_all)

lemma repr_first_false_less:
  "length bs \<le> u32_max \<Longrightarrow> False \<in> set bs \<Longrightarrow> length (takeWhile (\<lambda>b. b) bs) < NO_FALSE"
  using takeWhile_short [of bs] by (simp add: NO_FALSE_def)

interpretation cs: branch_stack repr cs_new cs_is_empty all_true push_back pop_back toggle_top u32_max
proof
  show "cs_new = repr []" by (simp add: cs_new_def repr_def)
next
  fix bs :: "bool list"
  show "cs_is_empty (repr bs) \<longleftrightarrow> bs = []" by (simp add: cs_is_empty_def repr_def)
next
  fix bs :: "bool list" assume "length bs \<le> u32_max"
  then show "all_true (repr bs) \<longleftrightarrow> (False \<notin> set bs)"
    using repr_first_false_less [of bs]
    by (auto simp: all_true_def repr_def)
next
  fix bs :: "bool list" and v assume "length bs < u32_max"
  then show "push_back (repr bs) v = Ok (repr (bs @ [v]))"
    using repr_first_false_less [of bs]
    by (auto simp: push_back_def repr_snoc checked_u32_add_def Let_def) (auto simp: repr_def)
next
  fix bs :: "bool list" assume "bs \<noteq> []" "length bs \<le> u32_max"
  then obtain cs v where bs: "bs = cs @ [v]" and "length cs < u32_max"
    by (metis append_butlast_last_id length_append_singleton Suc_le_eq)
  then show "pop_back (repr bs) = Ok (repr (butlast bs))"
    using repr_first_false_less [of cs] takeWhile_short [of cs]
    by (auto simp: pop_back_def repr_snoc Let_def) (auto simp: repr_def NO_FALSE_def)
next
  fix bs :: "bool list" assume "bs \<noteq> []" "length bs \<le> u32_max"
  then obtain cs v where bs: "bs = cs @ [v]" and "length cs < u32_max"
    by (metis append_butlast_last_id length_append_singleton Suc_le_eq)
  then show "toggle_top (repr bs) = Ok (repr (butlast bs @ [\<not> last bs]))"
    using repr_first_false_less [of cs] takeWhile_short [of cs]
    by (auto simp: toggle_top_def repr_snoc)
qed

text \<open>Frame facts the interpreter needs without going through the vector.\<close>

lemma push_back_size: "push_back c v = Ok c' \<Longrightarrow> stack_size c' = Suc (stack_size c)"
  by (auto simp: push_back_def Let_def split: if_splits)

lemma pop_back_size: "pop_back c = Ok c' \<Longrightarrow> Suc (stack_size c') = stack_size c"
  by (auto simp: pop_back_def Let_def split: if_splits)

lemma toggle_top_size: "toggle_top c = Ok c' \<Longrightarrow> stack_size c' = stack_size c"
  by (auto simp: toggle_top_def split: if_splits)

lemma no_panic_push_back: "stack_size c < u32_max \<Longrightarrow> no_panic (push_back c v)"
  by (auto simp: push_back_def Let_def checked_u32_add_def)

lemma no_panic_pop_toggle:
  "\<not> cs_is_empty c \<Longrightarrow> no_panic (pop_back c)"
  "\<not> cs_is_empty c \<Longrightarrow> no_panic (toggle_top c)"
  by (auto simp: condition_stack_defs)

section \<open>Properties\<close>

text \<open>
  C27: The two counters implement a vector of branch conditions: any row of pushes, pops and toggles
  that a vector of booleans allows succeeds on the counters, and the two then agree on whether
  the stack is empty and on whether every condition is true.
\<close>

theorem condition_stack_refines_vector:
  assumes "vec_run xs [] = Some bs" "length xs \<le> u32_max"
  shows "\<exists>s. run_branch_ops push_back pop_back toggle_top xs cs_new = Ok s
    \<and> cs_is_empty s = (bs = []) \<and> all_true s = (False \<notin> set bs)"
  using assms by (rule cs.run_ops_observations)

theorem condition_stack_refines_vector_witness:
  "\<exists>s. run_branch_ops push_back pop_back toggle_top [PushB True, PushB False, ToggleB, PopB, ToggleB] cs_new = Ok s
    \<and> cs_is_empty s = ([False] = []) \<and> all_true s = (False \<notin> set [False])"
  by (rule condition_stack_refines_vector) (simp_all add: u32_max_def)

end
