(* ===== verification/Eval.thy ===== *)
theory Eval
  imports Stack_Ops Condition_Stack
begin

text \<open>
  The script interpreter \<open>eval_script\<close> of \<open>consensus/src/eval.rs\<close>.  \<open>eval_ctx\<close> holds what the loop
  reads, \<open>eval_state\<close> the local variables it changes; there is one definition per arm of the opcode
  \<open>match\<close>, one for the dispatch, one for the body of the loop, and one for the loop itself, which
  terminates because every instruction moves \<open>pc\<close> towards the end of the script.
\<close>

section \<open>State\<close>

record eval_ctx =
  cx_crypto :: crypto
  cx_script :: bytes
  cx_flags :: u32
  cx_checker :: checker
  cx_sig_version :: SigVersion

record eval_state =
  st_stack :: stack
  st_altstack :: stack
  st_vf_exec :: ConditionStack
  st_n_op_count :: nat
  st_pc :: nat
  st_pbegincodehash :: nat
  st_opcode_pos :: nat
  st_exec_data :: ExecData

definition require_minimal :: "eval_ctx \<Rightarrow> bool" where
  "require_minimal cx \<longleftrightarrow> has_flag (cx_flags cx) VERIFY_MINIMALDATA"

definition on_stack :: "(stack \<Rightarrow> stack script_result) \<Rightarrow> eval_state \<Rightarrow> eval_state script_result" where
  "on_stack f st = rbind (f (st_stack st)) (\<lambda>s. Ok (st\<lparr>st_stack := s\<rparr>))"

text \<open>\<open>stack[stack.len() - i]\<close>, which panics when \<open>i\<close> is 0 or exceeds the depth.\<close>

definition stacktop :: "stack \<Rightarrow> nat \<Rightarrow> bytes script_result" where
  "stacktop s i = (if 0 < i \<and> i \<le> length s then Ok (s ! (i - 1)) else Panic)"

section \<open>Lock times and upgradable no-ops\<close>

definition op_checklocktimeverify :: "eval_ctx \<Rightarrow> eval_state \<Rightarrow> eval_state script_result" where
  "op_checklocktimeverify cx st =
     (if has_flag (cx_flags cx) VERIFY_CHECKLOCKTIMEVERIFY then
        case st_stack st of [] \<Rightarrow> Err InvalidStackOperation
        | v # _ \<Rightarrow>
          rbind (map_err (\<lambda>_. ScriptNum) (from_bytes v (require_minimal cx) 5)) (\<lambda>n_lock_time.
            if n_lock_time < 0 then Err NegativeLocktime
            else rbind (check_lock_time (cx_checker cx) n_lock_time) (\<lambda>ok.
              if \<not> ok then Err UnsatisfiedLocktime else Ok st))
      else Ok st)"

definition op_checksequenceverify :: "eval_ctx \<Rightarrow> eval_state \<Rightarrow> eval_state script_result" where
  "op_checksequenceverify cx st =
     (if \<not> has_flag (cx_flags cx) VERIFY_CHECKSEQUENCEVERIFY then Ok st
      else case st_stack st of [] \<Rightarrow> Err InvalidStackOperation
        | v # _ \<Rightarrow>
          rbind (map_err (\<lambda>_. ScriptNum) (from_bytes v (require_minimal cx) 5)) (\<lambda>n_sequence.
            if n_sequence < 0 then Err NegativeLocktime
            else if (word_of_int n_sequence :: u32) AND push_bit 31 1 \<noteq> 0 then Ok st
            else rbind (check_sequence (cx_checker cx) n_sequence) (\<lambda>ok.
              if \<not> ok then Err UnsatisfiedLocktime else Ok st)))"

definition op_upgradable_nop :: "eval_ctx \<Rightarrow> eval_state \<Rightarrow> eval_state script_result" where
  "op_upgradable_nop cx st =
     (if has_flag (cx_flags cx) VERIFY_DISCOURAGE_UPGRADABLE_NOPS then Err DiscourageUpgradableNops
      else Ok st)"

section \<open>Conditionals and the alternative stack\<close>

definition not_minimal_if :: "bytes \<Rightarrow> bool" where
  "not_minimal_if vch \<longleftrightarrow> length vch > 1 \<or> (length vch = 1 \<and> vch ! 0 \<noteq> 1)"

definition op_if :: "eval_ctx \<Rightarrow> bool \<Rightarrow> byte \<Rightarrow> eval_state \<Rightarrow> eval_state script_result" where
  "op_if cx f_exec opcode st =
     (if f_exec then
        case st_stack st of [] \<Rightarrow> Err InvalidStackOperation
        | vch # r \<Rightarrow>
          if cx_sig_version cx = Tapscript \<and> not_minimal_if vch then Err TapscriptMinimalIf
          else if ((cx_sig_version cx = WitnessV0 \<and> has_flag (cx_flags cx) VERIFY_MINIMALIF)
                   \<or> (cx_sig_version cx = Base \<and> has_flag (cx_flags cx) VERIFY_MINIMALIF_BASE))
                  \<and> not_minimal_if vch
          then Err MinimalIf
          else let f_value = cast_to_bool vch;
                   f_value = (if opcode = OP_NOTIF then \<not> f_value else f_value)
               in rbind (push_back (st_vf_exec st) f_value) (\<lambda>vf.
                    Ok (st\<lparr>st_stack := r, st_vf_exec := vf\<rparr>))
      else rbind (push_back (st_vf_exec st) False) (\<lambda>vf. Ok (st\<lparr>st_vf_exec := vf\<rparr>)))"

definition op_else :: "eval_state \<Rightarrow> eval_state script_result" where
  "op_else st =
     (if cs_is_empty (st_vf_exec st) then Err UnbalancedConditional
      else rbind (toggle_top (st_vf_exec st)) (\<lambda>vf. Ok (st\<lparr>st_vf_exec := vf\<rparr>)))"

definition op_endif :: "eval_state \<Rightarrow> eval_state script_result" where
  "op_endif st =
     (if cs_is_empty (st_vf_exec st) then Err UnbalancedConditional
      else rbind (pop_back (st_vf_exec st)) (\<lambda>vf. Ok (st\<lparr>st_vf_exec := vf\<rparr>)))"

definition op_toaltstack :: "eval_state \<Rightarrow> eval_state script_result" where
  "op_toaltstack st = (case st_stack st of [] \<Rightarrow> Err InvalidStackOperation
     | v # r \<Rightarrow> Ok (st\<lparr>st_stack := r, st_altstack := v # st_altstack st\<rparr>))"

definition op_fromaltstack :: "eval_state \<Rightarrow> eval_state script_result" where
  "op_fromaltstack st = (case st_altstack st of [] \<Rightarrow> Err InvalidAltstackOperation
     | v # r \<Rightarrow> Ok (st\<lparr>st_stack := v # st_stack st, st_altstack := r\<rparr>))"

definition op_codeseparator :: "eval_state \<Rightarrow> eval_state script_result" where
  "op_codeseparator st =
     Ok (st\<lparr>st_pbegincodehash := st_pc st,
            st_exec_data := (st_exec_data st)\<lparr>codeseparator_pos := st_opcode_pos st\<rparr>\<rparr>)"

section \<open>Signature checks\<close>

text \<open>
  The push of a signature that \<open>FindAndDelete\<close> removes: a length prefix and the data.  The source
  builds it inline in \<open>eval_checksig_pre_tapscript\<close> and again in the multisignature arm.
\<close>

definition push_pattern :: "bytes \<Rightarrow> bytes" where
  "push_pattern sig =
     (let n = length sig in
      (if n \<le> 75 then [of_nat n]
       else if n \<le> 255 then [0x4c, of_nat n]
       else if n \<le> 65535 then [0x4d, of_nat n, of_nat (drop_bit 8 n)]
       else []) @ sig)"

definition eval_checksig_pre_tapscript ::
  "eval_ctx \<Rightarrow> bytes \<Rightarrow> bytes \<Rightarrow> bytes \<Rightarrow> bool script_result" where
  "eval_checksig_pre_tapscript cx sig pubkey script_code =
     rbind (if cx_sig_version cx = Base then
              case find_and_delete script_code (push_pattern sig) of (new_code, found) \<Rightarrow>
                if found > 0 \<and> has_flag (cx_flags cx) VERIFY_CONST_SCRIPTCODE then Err SigFindAndDelete
                else Ok new_code
            else Ok script_code) (\<lambda>code.
     rbind (check_signature_encoding (cx_crypto cx) sig (cx_flags cx)) (\<lambda>_.
     rbind (check_pubkey_encoding pubkey (cx_flags cx) (cx_sig_version cx)) (\<lambda>_.
     rbind (check_ecdsa_signature (cx_checker cx) sig pubkey code (cx_sig_version cx)) (\<lambda>success.
       if \<not> success \<and> has_flag (cx_flags cx) VERIFY_NULLFAIL \<and> sig \<noteq> [] then Err SigNullFail
       else Ok success))))"

definition eval_checksig_tapscript ::
  "eval_ctx \<Rightarrow> bytes \<Rightarrow> bytes \<Rightarrow> ExecData \<Rightarrow> (bool \<times> ExecData) script_result" where
  "eval_checksig_tapscript cx sig pubkey exec_data =
     (let success = (sig \<noteq> []) in
      rbind (if success then
               if \<not> validation_weight_left_init exec_data then Panic
               else rbind (checked_i64 (validation_weight_left exec_data - VALIDATION_WEIGHT_PER_SIGOP_PASSED))
                 (\<lambda>w. if w < 0 then Err TapscriptValidationWeight
                      else Ok (exec_data\<lparr>validation_weight_left := w\<rparr>))
             else Ok exec_data) (\<lambda>exec_data.
        if pubkey = [] then Err TapscriptEmptyPubkey
        else if length pubkey = 32 then
          (if success then
             rbind (check_schnorr_signature (cx_checker cx) sig pubkey Tapscript exec_data) (\<lambda>ok.
               if \<not> ok then Err SchnorrSig else Ok (success, exec_data))
           else Ok (success, exec_data))
        else if has_flag (cx_flags cx) VERIFY_DISCOURAGE_UPGRADABLE_PUBKEYTYPE
        then Err DiscourageUpgradablePubkeyType
        else Ok (success, exec_data)))"

definition eval_checksig ::
  "eval_ctx \<Rightarrow> bytes \<Rightarrow> bytes \<Rightarrow> bytes \<Rightarrow> ExecData \<Rightarrow> (bool \<times> ExecData) script_result" where
  "eval_checksig cx sig pubkey script_code exec_data =
     (case cx_sig_version cx of
        Base \<Rightarrow> rbind (eval_checksig_pre_tapscript cx sig pubkey script_code) (\<lambda>b. Ok (b, exec_data))
      | WitnessV0 \<Rightarrow> rbind (eval_checksig_pre_tapscript cx sig pubkey script_code) (\<lambda>b. Ok (b, exec_data))
      | Tapscript \<Rightarrow> eval_checksig_tapscript cx sig pubkey exec_data
      | Taproot \<Rightarrow> Panic)"

definition op_checksig :: "eval_ctx \<Rightarrow> byte \<Rightarrow> eval_state \<Rightarrow> eval_state script_result" where
  "op_checksig cx opcode st = (case st_stack st of
       vch_pubkey # vch_sig # r \<Rightarrow>
         rbind (slice_from (cx_script cx) (st_pbegincodehash st)) (\<lambda>script_code.
         rbind (eval_checksig cx vch_sig vch_pubkey script_code (st_exec_data st)) (\<lambda>(f_success, ed).
           if opcode = OP_CHECKSIGVERIFY
           then if f_success then Ok (st\<lparr>st_stack := r, st_exec_data := ed\<rparr>) else Err CheckSigVerify
           else Ok (st\<lparr>st_stack := stack_bool f_success # r, st_exec_data := ed\<rparr>)))
     | _ \<Rightarrow> Err InvalidStackOperation)"

definition op_checksigadd :: "eval_ctx \<Rightarrow> eval_state \<Rightarrow> eval_state script_result" where
  "op_checksigadd cx st =
     (if cx_sig_version cx = Base \<or> cx_sig_version cx = WitnessV0 then Err BadOpcode
      else case st_stack st of
        pubkey # n # sig # r \<Rightarrow>
          rbind (num (require_minimal cx) n) (\<lambda>bn.
          rbind (slice_from (cx_script cx) (st_pbegincodehash st)) (\<lambda>script_code.
          rbind (eval_checksig cx sig pubkey script_code (st_exec_data st)) (\<lambda>(success, ed).
          rbind (num_add bn (if success then 1 else 0)) (\<lambda>result.
            Ok (st\<lparr>st_stack := serialize_i64 result # r, st_exec_data := ed\<rparr>)))))
      | _ \<Rightarrow> Err InvalidStackOperation)"

section \<open>Multisignature checks\<close>

text \<open>The deletion of the signatures from the script code, for \<open>n\<close> signatures from depth \<open>pos\<close> on.\<close>

fun multisig_delete :: "u32 \<Rightarrow> stack \<Rightarrow> nat \<Rightarrow> nat \<Rightarrow> bytes \<Rightarrow> bytes script_result" where
  "multisig_delete script_flags s pos 0 script_code = Ok script_code"
| "multisig_delete script_flags s pos (Suc n) script_code =
     rbind (stacktop s pos) (\<lambda>sig_data.
       case find_and_delete script_code (push_pattern sig_data) of (new_code, found) \<Rightarrow>
         if found > 0 \<and> has_flag script_flags VERIFY_CONST_SCRIPTCODE then Err SigFindAndDelete
         else multisig_delete script_flags s (Suc pos) n new_code)"

text \<open>The matching loop; \<open>isig\<close> and \<open>ikey\<close> are depths, the two counters are \<open>i32\<close>.\<close>

function multisig_loop ::
  "eval_ctx \<Rightarrow> bytes \<Rightarrow> stack \<Rightarrow> bool \<Rightarrow> int \<Rightarrow> int \<Rightarrow> nat \<Rightarrow> nat \<Rightarrow> bool script_result" where
  "multisig_loop cx script_code s f_success n_sigs_count n_keys_remaining isig ikey =
     (if f_success \<and> n_sigs_count > 0 then
        rbind (stacktop s isig) (\<lambda>vch_sig.
        rbind (stacktop s ikey) (\<lambda>vch_pubkey.
        rbind (check_signature_encoding (cx_crypto cx) vch_sig (cx_flags cx)) (\<lambda>_.
        rbind (check_pubkey_encoding vch_pubkey (cx_flags cx) (cx_sig_version cx)) (\<lambda>_.
        rbind (check_ecdsa_signature (cx_checker cx) vch_sig vch_pubkey script_code (cx_sig_version cx))
          (\<lambda>f_ok.
            let isig = (if f_ok then isig + 1 else isig);
                n_sigs_count = (if f_ok then n_sigs_count - 1 else n_sigs_count);
                ikey = ikey + 1;
                n_keys_remaining = n_keys_remaining - 1
            in multisig_loop cx script_code s (\<not> n_sigs_count > n_keys_remaining)
                 n_sigs_count n_keys_remaining isig ikey)))))
      else Ok f_success)"
  by pat_completeness auto
termination
  by (relation "measure (\<lambda>(cx, code, s, f, ns, nk, isig, ikey). if f then Suc (nat (nk + 1)) else 0)")
    (auto split: if_splits)

declare multisig_loop.simps [simp del]

text \<open>Removal of the consumed elements: \<open>n\<close> rounds, \<open>ikey2\<close> counting down to the signatures.\<close>

fun multisig_cleanup :: "u32 \<Rightarrow> bool \<Rightarrow> nat \<Rightarrow> nat \<Rightarrow> stack \<Rightarrow> stack script_result" where
  "multisig_cleanup script_flags f_success 0 ikey2 s = Ok s"
| "multisig_cleanup script_flags f_success (Suc n) ikey2 s =
     (if \<not> f_success \<and> has_flag script_flags VERIFY_NULLFAIL \<and> ikey2 = 0 then
        case s of [] \<Rightarrow> Panic
        | v # r \<Rightarrow> if v \<noteq> [] then Err SigNullFail
                  else multisig_cleanup script_flags f_success n (ikey2 - 1) r
      else multisig_cleanup script_flags f_success n (ikey2 - 1) (tl s))"

definition multisig_finish :: "eval_ctx \<Rightarrow> byte \<Rightarrow> bool \<Rightarrow> stack \<Rightarrow> stack script_result" where
  "multisig_finish cx opcode f_success s = (case s of [] \<Rightarrow> Err InvalidStackOperation
     | dummy # r \<Rightarrow>
       if has_flag (cx_flags cx) VERIFY_NULLDUMMY \<and> dummy \<noteq> [] then Err SigNullDummy
       else if opcode = OP_CHECKMULTISIGVERIFY
       then if f_success then Ok r else Err CheckMultiSigVerify
       else Ok (stack_bool f_success # r))"

text \<open>From the two counts on: the script code, the matching, the cleanup and the verdict.\<close>

definition multisig_check ::
  "eval_ctx \<Rightarrow> byte \<Rightarrow> eval_state \<Rightarrow> int \<Rightarrow> int \<Rightarrow> nat \<Rightarrow> nat \<Rightarrow> stack script_result" where
  "multisig_check cx opcode st n_keys_count n_sigs_count isig i =
     (let s = st_stack st in
      rbind (slice_from (cx_script cx) (st_pbegincodehash st)) (\<lambda>script_code.
      rbind (if cx_sig_version cx = Base
             then multisig_delete (cx_flags cx) s isig (nat n_sigs_count) script_code
             else Ok script_code) (\<lambda>script_code.
      rbind (multisig_loop cx script_code s True n_sigs_count n_keys_count isig 2) (\<lambda>f_success.
      rbind (multisig_cleanup (cx_flags cx) f_success (i - 1) (nat n_keys_count + 2) s) (\<lambda>s.
        multisig_finish cx opcode f_success s)))))"

definition op_checkmultisig :: "eval_ctx \<Rightarrow> byte \<Rightarrow> eval_state \<Rightarrow> eval_state script_result" where
  "op_checkmultisig cx opcode st =
     (if cx_sig_version cx = Tapscript then Err TapscriptCheckMultiSig
      else let s = st_stack st; i = 1 in
        if length s < i then Err InvalidStackOperation
        else rbind (stacktop s i) (\<lambda>v. rbind (num (require_minimal cx) v) (\<lambda>bn.
          let n_keys_count = getint bn in
          if n_keys_count < 0 \<or> nat n_keys_count > MAX_PUBKEYS_PER_MULTISIG then Err PubkeyCount
          else let n_op_count = st_n_op_count st + nat n_keys_count in
          if n_op_count > MAX_OPS_PER_SCRIPT then Err OpCount
          else let i = 2 + nat n_keys_count in
          if length s < i then Err InvalidStackOperation
          else rbind (stacktop s i) (\<lambda>v. rbind (num (require_minimal cx) v) (\<lambda>bn.
            let n_sigs_count = getint bn in
            if n_sigs_count < 0 \<or> n_sigs_count > n_keys_count then Err SigCount
            else let isig = i + 1; i = i + 1 + nat n_sigs_count in
            if length s < i then Err InvalidStackOperation
            else rbind (multisig_check cx opcode st n_keys_count n_sigs_count isig i) (\<lambda>s.
              Ok (st\<lparr>st_stack := s, st_n_op_count := n_op_count\<rparr>)))))))"

section \<open>Dispatch\<close>

text \<open>
  The arms that only touch the main stack; \<open>None\<close> for the opcodes of the other arms.  The arms of the
  \<open>match\<close> are on distinct opcodes, so their order is immaterial.
\<close>

definition stack_arm :: "crypto \<Rightarrow> bool \<Rightarrow> byte \<Rightarrow> (stack \<Rightarrow> stack script_result) option" where
  "stack_arm C rm opcode =
     (if opcode = OP_1NEGATE \<or> (OP_1 \<le> opcode \<and> opcode \<le> OP_16) then Some (op_num opcode)
      else if opcode = OP_VERIFY then Some op_verify
      else if opcode = OP_2DROP then Some op_2drop
      else if opcode = OP_2DUP then Some op_2dup
      else if opcode = OP_3DUP then Some op_3dup
      else if opcode = OP_2OVER then Some op_2over
      else if opcode = OP_2ROT then Some op_2rot
      else if opcode = OP_2SWAP then Some op_2swap
      else if opcode = OP_IFDUP then Some op_ifdup
      else if opcode = OP_DEPTH then Some op_depth
      else if opcode = OP_DROP then Some op_drop
      else if opcode = OP_DUP then Some op_dup
      else if opcode = OP_NIP then Some op_nip
      else if opcode = OP_OVER then Some op_over
      else if opcode = OP_PICK \<or> opcode = OP_ROLL then Some (op_pick_roll rm opcode)
      else if opcode = OP_ROT then Some op_rot
      else if opcode = OP_SWAP then Some op_swap
      else if opcode = OP_TUCK then Some op_tuck
      else if opcode = OP_SIZE then Some op_size
      else if opcode = OP_EQUAL \<or> opcode = OP_EQUALVERIFY then Some (op_equal opcode)
      else if opcode = OP_1ADD \<or> opcode = OP_1SUB \<or> opcode = OP_NEGATE \<or> opcode = OP_ABS
              \<or> opcode = OP_NOT \<or> opcode = OP_0NOTEQUAL then Some (op_unary rm opcode)
      else if opcode = OP_ADD \<or> opcode = OP_SUB \<or> opcode = OP_BOOLAND \<or> opcode = OP_BOOLOR
              \<or> opcode = OP_NUMEQUAL \<or> opcode = OP_NUMEQUALVERIFY \<or> opcode = OP_NUMNOTEQUAL
              \<or> opcode = OP_LESSTHAN \<or> opcode = OP_GREATERTHAN \<or> opcode = OP_LESSTHANOREQUAL
              \<or> opcode = OP_GREATERTHANOREQUAL \<or> opcode = OP_MIN \<or> opcode = OP_MAX
           then Some (op_binary rm opcode)
      else if opcode = OP_WITHIN then Some (op_within rm)
      else if opcode = OP_RIPEMD160 then Some (op_ripemd160 C)
      else if opcode = OP_SHA1 then Some (op_sha1 C)
      else if opcode = OP_SHA256 then Some (op_sha256 C)
      else if opcode = OP_HASH160 then Some (op_hash160 C)
      else if opcode = OP_HASH256 then Some (op_hash256 C)
      else None)"

definition exec_opcode :: "eval_ctx \<Rightarrow> bool \<Rightarrow> byte \<Rightarrow> eval_state \<Rightarrow> eval_state script_result" where
  "exec_opcode cx f_exec opcode st =
     (case stack_arm (cx_crypto cx) (require_minimal cx) opcode of
        Some f \<Rightarrow> on_stack f st
      | None \<Rightarrow>
        if opcode = OP_NOP then Ok st
        else if opcode = OP_CHECKLOCKTIMEVERIFY then op_checklocktimeverify cx st
        else if opcode = OP_CHECKSEQUENCEVERIFY then op_checksequenceverify cx st
        else if opcode = OP_NOP1 \<or> (OP_NOP4 \<le> opcode \<and> opcode \<le> OP_NOP10) then op_upgradable_nop cx st
        else if opcode = OP_IF \<or> opcode = OP_NOTIF then op_if cx f_exec opcode st
        else if opcode = OP_ELSE then op_else st
        else if opcode = OP_ENDIF then op_endif st
        else if opcode = OP_RETURN then Err OpReturn
        else if opcode = OP_TOALTSTACK then op_toaltstack st
        else if opcode = OP_FROMALTSTACK then op_fromaltstack st
        else if opcode = OP_CODESEPARATOR then op_codeseparator st
        else if opcode = OP_CHECKSIG \<or> opcode = OP_CHECKSIGVERIFY then op_checksig cx opcode st
        else if opcode = OP_CHECKSIGADD then op_checksigadd cx st
        else if opcode = OP_CHECKMULTISIG \<or> opcode = OP_CHECKMULTISIGVERIFY
        then op_checkmultisig cx opcode st
        else Err BadOpcode)"

section \<open>The loop\<close>

definition legacy_limits :: "SigVersion \<Rightarrow> bool" where
  "legacy_limits sv \<longleftrightarrow> sv = Base \<or> sv = WitnessV0"

text \<open>One round of the loop up to the size limits: a push, an opcode, or a skipped instruction.\<close>

definition exec_instruction ::
  "eval_ctx \<Rightarrow> bool \<Rightarrow> byte \<Rightarrow> bytes \<Rightarrow> eval_state \<Rightarrow> eval_state script_result" where
  "exec_instruction cx f_exec opcode push_data st =
     (if f_exec \<and> opcode \<le> OP_PUSHDATA4 then
        if require_minimal cx \<and> \<not> check_minimal_push push_data opcode then Err MinimalData
        else Ok (st\<lparr>st_stack := push_data # st_stack st\<rparr>)
      else if f_exec \<or> (OP_IF \<le> opcode \<and> opcode \<le> OP_ENDIF) then exec_opcode cx f_exec opcode st
      else Ok st)"

definition eval_step :: "eval_ctx \<Rightarrow> eval_state \<Rightarrow> eval_state script_result" where
  "eval_step cx st =
     (let f_exec = all_true (st_vf_exec st); sv = cx_sig_version cx in
      rbind (ok_or (read_instruction (cx_script cx) (st_pc st)) BadOpcode) (\<lambda>(opcode, push_data, pc).
        if length push_data > MAX_SCRIPT_ELEMENT_SIZE then Err PushSize
        else
          let counted = legacy_limits sv \<and> opcode > OP_16;
              n_op_count = (if counted then st_n_op_count st + 1 else st_n_op_count st) in
          if counted \<and> n_op_count > MAX_OPS_PER_SCRIPT then Err OpCount
          else if is_disabled opcode then Err DisabledOpcode
          else if opcode = OP_CODESEPARATOR \<and> sv = Base \<and> has_flag (cx_flags cx) VERIFY_CONST_SCRIPTCODE
          then Err OpCodeSeparator
          else
            rbind (exec_instruction cx f_exec opcode push_data
                     (st\<lparr>st_pc := pc, st_n_op_count := n_op_count\<rparr>)) (\<lambda>st.
            if length (st_stack st) + length (st_altstack st) > MAX_STACK_SIZE then Err StackSize
            else rbind (checked_u32_add (st_opcode_pos st) 1) (\<lambda>p.
              Ok (st\<lparr>st_opcode_pos := p\<rparr>)))))"

section \<open>Reasoning by arms\<close>

text \<open>
  A property of every outcome of the dispatch follows from the same property of every arm.
\<close>

lemma exec_opcode_rule:
  assumes "\<And>f. stack_arm (cx_crypto cx) (require_minimal cx) opcode = Some f \<Longrightarrow> P (on_stack f st)"
    and "opcode = OP_NOP \<Longrightarrow> P (Ok st)"
    and "opcode = OP_CHECKLOCKTIMEVERIFY \<Longrightarrow> P (op_checklocktimeverify cx st)"
    and "opcode = OP_CHECKSEQUENCEVERIFY \<Longrightarrow> P (op_checksequenceverify cx st)"
    and "opcode = OP_NOP1 \<or> (OP_NOP4 \<le> opcode \<and> opcode \<le> OP_NOP10) \<Longrightarrow> P (op_upgradable_nop cx st)"
    and "opcode = OP_IF \<or> opcode = OP_NOTIF \<Longrightarrow> P (op_if cx f_exec opcode st)"
    and "opcode = OP_ELSE \<Longrightarrow> P (op_else st)"
    and "opcode = OP_ENDIF \<Longrightarrow> P (op_endif st)"
    and "P (Err OpReturn)"
    and "opcode = OP_TOALTSTACK \<Longrightarrow> P (op_toaltstack st)"
    and "opcode = OP_FROMALTSTACK \<Longrightarrow> P (op_fromaltstack st)"
    and "opcode = OP_CODESEPARATOR \<Longrightarrow> P (op_codeseparator st)"
    and "opcode = OP_CHECKSIG \<or> opcode = OP_CHECKSIGVERIFY \<Longrightarrow> P (op_checksig cx opcode st)"
    and "opcode = OP_CHECKSIGADD \<Longrightarrow> P (op_checksigadd cx st)"
    and "opcode = OP_CHECKMULTISIG \<or> opcode = OP_CHECKMULTISIGVERIFY \<Longrightarrow> P (op_checkmultisig cx opcode st)"
    and "P (Err BadOpcode)"
  shows "P (exec_opcode cx f_exec opcode st)"
proof -
  have ifI: "(c \<Longrightarrow> P x) \<Longrightarrow> (\<not> c \<Longrightarrow> P y) \<Longrightarrow> P (if c then x else y)" for c x y by simp
  show ?thesis
  proof (cases "stack_arm (cx_crypto cx) (require_minimal cx) opcode")
    case None
    show ?thesis unfolding exec_opcode_def None option.case by (intro ifI assms) assumption
  next
    case (Some f)
    show ?thesis unfolding exec_opcode_def Some option.case by (rule assms(1) [OF Some])
  qed
qed

text \<open>What an arm may do to the local variables of the loop other than the stacks.\<close>

definition frame :: "eval_state \<Rightarrow> eval_state \<Rightarrow> bool" where
  "frame st st' \<longleftrightarrow>
     st_pc st' = st_pc st \<and> st_opcode_pos st' = st_opcode_pos st
     \<and> (st_pbegincodehash st' = st_pbegincodehash st \<or> st_pbegincodehash st' = st_pc st)
     \<and> stack_size (st_vf_exec st') \<le> stack_size (st_vf_exec st) + 1
     \<and> st_n_op_count st \<le> st_n_op_count st'
     \<and> (st_n_op_count st' = st_n_op_count st \<or> st_n_op_count st' \<le> MAX_OPS_PER_SCRIPT)"

lemma frame_refl [simp]: "frame st st"
  by (simp add: frame_def)

lemma frame_stack: "on_stack f st = Ok st' \<Longrightarrow> frame st st'"
  by (auto simp: on_stack_def rbind_eq_Ok frame_def)

lemma frame_locks:
  "op_checklocktimeverify cx st = Ok st' \<Longrightarrow> st' = st"
  "op_checksequenceverify cx st = Ok st' \<Longrightarrow> st' = st"
  "op_upgradable_nop cx st = Ok st' \<Longrightarrow> st' = st"
  by (auto simp: op_checklocktimeverify_def op_checksequenceverify_def op_upgradable_nop_def rbind_eq_Ok
      split: if_splits list.splits)

lemma frame_conditionals:
  "op_if cx f opcode st = Ok st' \<Longrightarrow> frame st st'"
  "op_else st = Ok st' \<Longrightarrow> frame st st'"
  "op_endif st = Ok st' \<Longrightarrow> frame st st'"
  by (auto simp: op_if_def op_else_def op_endif_def Let_def rbind_eq_Ok frame_def
      dest: push_back_size toggle_top_size pop_back_size split: if_splits list.splits)

lemma frame_altstack:
  "op_toaltstack st = Ok st' \<Longrightarrow> frame st st'"
  "op_fromaltstack st = Ok st' \<Longrightarrow> frame st st'"
  "op_codeseparator st = Ok st' \<Longrightarrow> frame st st'"
  by (auto simp: op_toaltstack_def op_fromaltstack_def op_codeseparator_def frame_def split: list.splits)

lemma frame_checksig:
  "op_checksig cx opcode st = Ok st' \<Longrightarrow> frame st st'"
  "op_checksigadd cx st = Ok st' \<Longrightarrow> frame st st'"
  by (auto simp: op_checksig_def op_checksigadd_def rbind_eq_Ok frame_def split: if_splits list.splits)

lemma op_checkmultisig_Ok:
  assumes "op_checkmultisig cx opcode st = Ok st'"
  obtains nk ns i s where "0 \<le> nk" "nk \<le> 20" "st_n_op_count st + nat nk \<le> MAX_OPS_PER_SCRIPT"
    "0 \<le> ns" "ns \<le> nk" "nat nk + nat ns + 3 \<le> length (st_stack st)"
    "multisig_check cx opcode st nk ns (nat nk + 3) (nat nk + nat ns + 3) = Ok s"
    "st' = st\<lparr>st_stack := s, st_n_op_count := st_n_op_count st + nat nk\<rparr>"
  using assms unfolding op_checkmultisig_def Let_def limit_defs
  by (auto simp: rbind_eq_Ok not_less nat_le_iff eval_nat_numeral ac_simps split: if_splits)

lemma frame_checkmultisig: "op_checkmultisig cx opcode st = Ok st' \<Longrightarrow> frame st st'"
  by (elim op_checkmultisig_Ok) (simp add: frame_def)

lemma frame_exec_opcode: "exec_opcode cx f opcode st = Ok st' \<Longrightarrow> frame st st'"
proof -
  have "\<forall>st'. exec_opcode cx f opcode st = Ok st' \<longrightarrow> frame st st'"
    by (rule exec_opcode_rule)
      (auto intro: frame_stack frame_conditionals frame_altstack frame_checksig frame_checkmultisig
        dest!: frame_locks)
  then show "exec_opcode cx f opcode st = Ok st' \<Longrightarrow> frame st st'" by blast
qed

lemma frame_exec_instruction: "exec_instruction cx f opcode d st = Ok st' \<Longrightarrow> frame st st'"
  by (auto simp: exec_instruction_def frame_def [of _ "st\<lparr>st_stack := _\<rparr>"]
      dest: frame_exec_opcode split: if_splits)

text \<open>The successful steps, in one rule.\<close>

lemma eval_step_Ok:
  assumes "eval_step cx st = Ok st'"
  obtains opcode d pc n st1 where
    "read_instruction (cx_script cx) (st_pc st) = Some (opcode, d, pc)"
    "length d \<le> MAX_SCRIPT_ELEMENT_SIZE"
    "n = (if legacy_limits (cx_sig_version cx) \<and> opcode > OP_16 then st_n_op_count st + 1 else st_n_op_count st)"
    "legacy_limits (cx_sig_version cx) \<and> opcode > OP_16 \<Longrightarrow> n \<le> MAX_OPS_PER_SCRIPT"
    "\<not> is_disabled opcode"
    "\<not> (opcode = OP_CODESEPARATOR \<and> cx_sig_version cx = Base \<and> has_flag (cx_flags cx) VERIFY_CONST_SCRIPTCODE)"
    "exec_instruction cx (all_true (st_vf_exec st)) opcode d (st\<lparr>st_pc := pc, st_n_op_count := n\<rparr>) = Ok st1"
    "length (st_stack st1) + length (st_altstack st1) \<le> MAX_STACK_SIZE"
    "st_opcode_pos st1 + 1 \<le> u32_max"
    "st' = st1\<lparr>st_opcode_pos := st_opcode_pos st1 + 1\<rparr>"
proof -
  define n where "n = (\<lambda>opcode. if legacy_limits (cx_sig_version cx) \<and> opcode > OP_16
    then st_n_op_count st + 1 else st_n_op_count st)"
  have step: "eval_step cx st =
      rbind (ok_or (read_instruction (cx_script cx) (st_pc st)) BadOpcode) (\<lambda>(opcode, d, pc).
        if length d > MAX_SCRIPT_ELEMENT_SIZE then Err PushSize
        else if (legacy_limits (cx_sig_version cx) \<and> opcode > OP_16) \<and> n opcode > MAX_OPS_PER_SCRIPT then Err OpCount
        else if is_disabled opcode then Err DisabledOpcode
        else if opcode = OP_CODESEPARATOR \<and> cx_sig_version cx = Base
          \<and> has_flag (cx_flags cx) VERIFY_CONST_SCRIPTCODE then Err OpCodeSeparator
        else rbind (exec_instruction cx (all_true (st_vf_exec st)) opcode d
               (st\<lparr>st_pc := pc, st_n_op_count := n opcode\<rparr>)) (\<lambda>st.
          if length (st_stack st) + length (st_altstack st) > MAX_STACK_SIZE then Err StackSize
          else rbind (checked_u32_add (st_opcode_pos st) 1) (\<lambda>p. Ok (st\<lparr>st_opcode_pos := p\<rparr>))))"
    unfolding eval_step_def Let_def n_def by (rule refl)
  obtain opcode d pc where r: "read_instruction (cx_script cx) (st_pc st) = Some (opcode, d, pc)"
    using assms unfolding step by (auto simp: rbind_eq_Ok ok_or_eq)
  note * = assms [unfolded step r ok_or_simps rbind_simps prod.case]
  have c: "length d \<le> MAX_SCRIPT_ELEMENT_SIZE"
    "legacy_limits (cx_sig_version cx) \<and> opcode > OP_16 \<Longrightarrow> n opcode \<le> MAX_OPS_PER_SCRIPT"
    "\<not> is_disabled opcode"
    "\<not> (opcode = OP_CODESEPARATOR \<and> cx_sig_version cx = Base \<and> has_flag (cx_flags cx) VERIFY_CONST_SCRIPTCODE)"
    using * by (auto simp: not_less split: if_splits)
  obtain st1 where st1: "exec_instruction cx (all_true (st_vf_exec st)) opcode d
        (st\<lparr>st_pc := pc, st_n_op_count := n opcode\<rparr>) = Ok st1"
      "length (st_stack st1) + length (st_altstack st1) \<le> MAX_STACK_SIZE"
      "st_opcode_pos st1 + 1 \<le> u32_max" "st' = st1\<lparr>st_opcode_pos := st_opcode_pos st1 + 1\<rparr>"
    using * by (auto simp: rbind_eq_Ok not_less simp del: One_nat_def split: if_splits)
  show thesis
    using that [OF r c(1) _ c(2-4) st1] unfolding n_def by blast
qed

lemma eval_step_pc:
  assumes "eval_step cx st = Ok st'"
  shows "st_pc st < st_pc st'" "st_pc st' \<le> length (cx_script cx)"
  using assms by (auto elim!: eval_step_Ok dest!: read_instruction_bounds frame_exec_instruction
      simp: frame_def)

section \<open>The interpreter\<close>

function eval_loop :: "eval_ctx \<Rightarrow> eval_state \<Rightarrow> eval_state script_result" where
  "eval_loop cx st =
     (if st_pc st < length (cx_script cx) then rbind (eval_step cx st) (eval_loop cx) else Ok st)"
  by pat_completeness auto
termination
  by (relation "measure (\<lambda>(cx, st). length (cx_script cx) - st_pc st)")
    (auto dest: eval_step_pc intro: diff_less_mono2)

declare eval_loop.simps [simp del]

definition eval_init :: "stack \<Rightarrow> ExecData \<Rightarrow> eval_state" where
  "eval_init stack exec_data = \<lparr>
     st_stack = stack, st_altstack = [], st_vf_exec = cs_new, st_n_op_count = 0,
     st_pc = 0, st_pbegincodehash = 0, st_opcode_pos = 0,
     st_exec_data = exec_data\<lparr>codeseparator_pos := 0xFFFFFFFF, codeseparator_pos_init := True\<rparr>\<rparr>"

definition eval_script ::
  "crypto \<Rightarrow> stack \<Rightarrow> bytes \<Rightarrow> u32 \<Rightarrow> checker \<Rightarrow> SigVersion \<Rightarrow> ExecData \<Rightarrow> (stack \<times> ExecData) script_result" where
  "eval_script C stack script script_flags chk sig_version exec_data =
     (if sig_version = Taproot then Panic
      else if legacy_limits sig_version \<and> length script > MAX_SCRIPT_SIZE then Err ScriptSize
      else
        rbind (eval_loop
          \<lparr>cx_crypto = C, cx_script = script, cx_flags = script_flags, cx_checker = chk,
           cx_sig_version = sig_version\<rparr> (eval_init stack exec_data)) (\<lambda>st.
        if \<not> cs_is_empty (st_vf_exec st) then Err UnbalancedConditional
        else Ok (st_stack st, st_exec_data st)))"

definition eval_script_simple ::
  "crypto \<Rightarrow> stack \<Rightarrow> bytes \<Rightarrow> u32 \<Rightarrow> checker \<Rightarrow> SigVersion \<Rightarrow> stack script_result" where
  "eval_script_simple C stack script script_flags chk sig_version =
     rbind (eval_script C stack script script_flags chk sig_version ExecData_new) (\<lambda>(s, _). Ok s)"

text \<open>Symbolic execution: these rules run the interpreter on a concrete script.\<close>

lemmas exec_simps = eval_script_simple_def eval_script_def eval_loop.simps eval_init_def eval_step_def
  exec_instruction_def exec_opcode_def stack_arm_def on_stack_def read_instruction_def read_push_def
  legacy_limits_def limit_defs is_disabled_def op_defs require_minimal_def has_flag_def
  checked_u32_add_def u32_max_def Let_def cs_new_def all_true_def cs_is_empty_def NO_FALSE_def

end
