(* ===== verification/Witness.thy ===== *)
theory Witness
  imports Eval "HOL-Library.List_Lexorder"
begin

text \<open>
  Witness programs: \<open>consensus/src/witness.rs\<close>.  A witness is listed as in the transaction, bottom
  first; \<open>execute_witness_script\<close> reverses it into the interpreter's stack.  The \<open>OP_SUCCESS\<close> scan,
  the taproot commitment (tapleaf, tapbranch and tweak hashes) and \<open>verify_witness_program\<close> follow
  the source branch by branch.
\<close>

section \<open>Constants\<close>

definition WITNESS_V0_KEYHASH_SIZE :: nat where "WITNESS_V0_KEYHASH_SIZE = 20"
definition WITNESS_V0_SCRIPTHASH_SIZE :: nat where "WITNESS_V0_SCRIPTHASH_SIZE = 32"
definition WITNESS_V1_TAPROOT_SIZE :: nat where "WITNESS_V1_TAPROOT_SIZE = 32"
definition TAPROOT_LEAF_MASK :: byte where "TAPROOT_LEAF_MASK = 0xfe"
definition TAPROOT_LEAF_TAPSCRIPT :: byte where "TAPROOT_LEAF_TAPSCRIPT = 0xc0"
definition TAPROOT_CONTROL_BASE_SIZE :: nat where "TAPROOT_CONTROL_BASE_SIZE = 33"
definition TAPROOT_CONTROL_NODE_SIZE :: nat where "TAPROOT_CONTROL_NODE_SIZE = 32"
definition TAPROOT_CONTROL_MAX_NODE_COUNT :: nat where "TAPROOT_CONTROL_MAX_NODE_COUNT = 128"
definition TAPROOT_CONTROL_MAX_SIZE :: nat where
  "TAPROOT_CONTROL_MAX_SIZE =
     TAPROOT_CONTROL_BASE_SIZE + TAPROOT_CONTROL_NODE_SIZE * TAPROOT_CONTROL_MAX_NODE_COUNT"
definition ANNEX_TAG :: byte where "ANNEX_TAG = 0x50"
definition VALIDATION_WEIGHT_OFFSET :: int where "VALIDATION_WEIGHT_OFFSET = 50"

lemmas witness_defs = WITNESS_V0_KEYHASH_SIZE_def WITNESS_V0_SCRIPTHASH_SIZE_def
  WITNESS_V1_TAPROOT_SIZE_def TAPROOT_LEAF_MASK_def TAPROOT_LEAF_TAPSCRIPT_def
  TAPROOT_CONTROL_BASE_SIZE_def TAPROOT_CONTROL_NODE_SIZE_def TAPROOT_CONTROL_MAX_NODE_COUNT_def
  TAPROOT_CONTROL_MAX_SIZE_def ANNEX_TAG_def VALIDATION_WEIGHT_OFFSET_def

section \<open>The OP_SUCCESS scan\<close>

definition is_op_success :: "byte \<Rightarrow> bool" where
  "is_op_success opcode \<longleftrightarrow>
     opcode = 80 \<or> opcode = 98 \<or> (126 \<le> opcode \<and> opcode \<le> 129) \<or> (131 \<le> opcode \<and> opcode \<le> 134)
     \<or> (137 \<le> opcode \<and> opcode \<le> 138) \<or> (141 \<le> opcode \<and> opcode \<le> 142)
     \<or> (149 \<le> opcode \<and> opcode \<le> 153) \<or> (187 \<le> opcode \<and> opcode \<le> 254)"

text \<open>The scan from \<open>pc\<close>; \<open>Some\<close> is the result with which the caller returns at once.\<close>

function op_success_scan :: "bytes \<Rightarrow> u32 \<Rightarrow> nat \<Rightarrow> unit script_result option" where
  "op_success_scan script script_flags pc =
     (if pc < length script then
        let opcode = script ! pc; pc = pc + 1 in
        if opcode \<le> 75 then op_success_scan script script_flags (pc + unat opcode)
        else if opcode = 0x4c then
          (if pc \<ge> length script then None
           else op_success_scan script script_flags (pc + (1 + unat (script ! pc))))
        else if opcode = 0x4d then
          (if pc + 1 \<ge> length script then None
           else op_success_scan script script_flags (pc + (2 + le16 (script ! pc) (script ! (pc + 1)))))
        else if opcode = 0x4e then
          (if pc + 3 \<ge> length script then None
           else op_success_scan script script_flags
             (pc + (4 + le32 (script ! pc) (script ! (pc + 1)) (script ! (pc + 2)) (script ! (pc + 3)))))
        else if is_op_success opcode then
          (if has_flag script_flags VERIFY_DISCOURAGE_OP_SUCCESS then Some (Err DiscourageOpSuccess)
           else Some (Ok ()))
        else op_success_scan script script_flags pc
      else None)"
  by pat_completeness auto
termination
  by (relation "measure (\<lambda>(script, f, pc). length script - pc)") auto

declare op_success_scan.simps [simp del]

definition scan_for_op_success :: "bytes \<Rightarrow> u32 \<Rightarrow> unit script_result option" where
  "scan_for_op_success script script_flags = op_success_scan script script_flags 0"

section \<open>Running a witness script\<close>

text \<open>
  The witness stack \<open>initial_stack\<close> is bottom first.  \<open>run_witness_script\<close> is the part after the
  checks that only tapscript has.
\<close>

definition run_witness_script ::
  "crypto \<Rightarrow> bytes list \<Rightarrow> bytes \<Rightarrow> u32 \<Rightarrow> SigVersion \<Rightarrow> checker \<Rightarrow> ExecData \<Rightarrow> unit script_result" where
  "run_witness_script C initial_stack exec_script script_flags sig_version chk exec_data =
     (if \<exists>elem \<in> set initial_stack. length elem > MAX_SCRIPT_ELEMENT_SIZE then Err PushSize
      else rbind (eval_script C (rev initial_stack) exec_script script_flags chk sig_version exec_data)
        (\<lambda>(stack, _).
          if length stack \<noteq> 1 then Err CleanStack
          else if \<not> cast_to_bool (hd stack) then Err EvalFalse
          else Ok ()))"

definition execute_witness_script ::
  "crypto \<Rightarrow> bytes list \<Rightarrow> bytes \<Rightarrow> u32 \<Rightarrow> SigVersion \<Rightarrow> checker \<Rightarrow> ExecData \<Rightarrow> unit script_result" where
  "execute_witness_script C initial_stack exec_script script_flags sig_version chk exec_data =
     (if sig_version = Tapscript then
        case scan_for_op_success exec_script script_flags of
          Some result \<Rightarrow> result
        | None \<Rightarrow>
          if length initial_stack > MAX_STACK_SIZE then Err StackSize
          else run_witness_script C initial_stack exec_script script_flags sig_version chk exec_data
      else run_witness_script C initial_stack exec_script script_flags sig_version chk exec_data)"

section \<open>Taproot commitments\<close>

text \<open>The ASCII tags \<open>TapLeaf\<close>, \<open>TapBranch\<close> and \<open>TapTweak\<close>.\<close>

definition TAG_LEAF :: bytes where "TAG_LEAF = [0x54, 0x61, 0x70, 0x4c, 0x65, 0x61, 0x66]"
definition TAG_BRANCH :: bytes where
  "TAG_BRANCH = [0x54, 0x61, 0x70, 0x42, 0x72, 0x61, 0x6e, 0x63, 0x68]"
definition TAG_TWEAK :: bytes where
  "TAG_TWEAK = [0x54, 0x61, 0x70, 0x54, 0x77, 0x65, 0x61, 0x6b]"

definition compute_tapleaf_hash :: "crypto \<Rightarrow> byte \<Rightarrow> bytes \<Rightarrow> bytes" where
  "compute_tapleaf_hash C leaf_version script =
     (let tag_hash = sha256 C TAG_LEAF in
      sha256 C (tag_hash @ tag_hash @ [leaf_version] @ varint C (length script) @ script))"

definition compute_tapbranch_hash :: "crypto \<Rightarrow> bytes \<Rightarrow> bytes \<Rightarrow> bytes" where
  "compute_tapbranch_hash C a b =
     (let tag_hash = sha256 C TAG_BRANCH in
      sha256 C (tag_hash @ tag_hash @ (if a < b then a @ b else b @ a)))"

definition compute_tap_tweak_hash :: "crypto \<Rightarrow> bytes \<Rightarrow> bytes \<Rightarrow> bytes" where
  "compute_tap_tweak_hash C internal_key merkle_root =
     (let tag_hash = sha256 C TAG_TWEAK in
      sha256 C (tag_hash @ tag_hash @ internal_key @ merkle_root))"

text \<open>The node at \<open>offset\<close> of round \<open>i\<close>, and the fold over the path of a control block.\<close>

definition control_node :: "bytes \<Rightarrow> nat \<Rightarrow> bytes" where
  "control_node control i =
     (let offset = TAPROOT_CONTROL_BASE_SIZE + TAPROOT_CONTROL_NODE_SIZE * i
      in subslice control offset (offset + 32))"

definition compute_taproot_merkle_root :: "crypto \<Rightarrow> bytes \<Rightarrow> bytes \<Rightarrow> bytes" where
  "compute_taproot_merkle_root C control tapleaf =
     (let path_len = (length control - TAPROOT_CONTROL_BASE_SIZE) div TAPROOT_CONTROL_NODE_SIZE
      in foldl (\<lambda>k i. compute_tapbranch_hash C k (control_node control i)) tapleaf [0..<path_len])"

text \<open>A control block shorter than 33 bytes makes the slice \<open>control[1..33]\<close> panic.\<close>

definition verify_taproot_commitment :: "crypto \<Rightarrow> bytes \<Rightarrow> bytes \<Rightarrow> bytes \<Rightarrow> bool script_result" where
  "verify_taproot_commitment C control program tapleaf =
     (if length control < 33 then Panic
      else case xonly_from_slice C (subslice control 1 33) of
        None \<Rightarrow> Ok False
      | Some internal_key \<Rightarrow>
        (case xonly_from_slice C program of
           None \<Rightarrow> Ok False
         | Some output_key \<Rightarrow>
           let merkle_root = compute_taproot_merkle_root C control tapleaf;
               parity_bit = control ! 0 AND 1;
               tweak = compute_tap_tweak_hash C (xonly_serialize C internal_key) merkle_root
           in case scalar_from_be_bytes C tweak of
             None \<Rightarrow> Ok False
           | Some tweak_scalar \<Rightarrow>
             (case xonly_add_tweak C internal_key tweak_scalar of
                None \<Rightarrow> Ok False
              | Some (tweaked, tweaked_parity) \<Rightarrow>
                Ok (tweaked = output_key \<and> tweaked_parity = (parity_bit = 1)))))"

definition witness_serialized_size :: "crypto \<Rightarrow> bytes list \<Rightarrow> nat" where
  "witness_serialized_size C stack =
     foldl (\<lambda>size elem. size + varint_size C (length elem) + length elem) (varint_size C (length stack)) stack"

section \<open>Witness programs\<close>

definition is_pay_to_anchor :: "byte \<Rightarrow> bytes \<Rightarrow> bool" where
  "is_pay_to_anchor wit_version program \<longleftrightarrow> wit_version = 1 \<and> program = [0x4e, 0x73]"

definition p2wpkh_script :: "bytes \<Rightarrow> bytes" where
  "p2wpkh_script program = [0x76, 0xa9, 0x14] @ program @ [0x88, 0xac]"

definition verify_witness_v0 ::
  "crypto \<Rightarrow> bytes list \<Rightarrow> bytes \<Rightarrow> u32 \<Rightarrow> checker \<Rightarrow> unit script_result" where
  "verify_witness_v0 C witness_stack program script_flags chk =
     (if length program = WITNESS_V0_SCRIPTHASH_SIZE then
        if witness_stack = [] then Err WitnessProgramWitnessEmpty
        else let script_bytes = last witness_stack; stack = butlast witness_stack in
          if sha256 C script_bytes \<noteq> program then Err WitnessProgramMismatch
          else execute_witness_script C stack script_bytes script_flags WitnessV0 chk ExecData_new
      else if length program = WITNESS_V0_KEYHASH_SIZE then
        if length witness_stack \<noteq> 2 then Err WitnessProgramMismatch
        else execute_witness_script C witness_stack (p2wpkh_script program) script_flags WitnessV0 chk
               ExecData_new
      else Err WitnessProgramWrongLength)"

text \<open>The annex, when there is one, is taken off the witness and hashed with its length.\<close>

definition take_annex :: "crypto \<Rightarrow> bytes list \<Rightarrow> bytes list \<times> ExecData" where
  "take_annex C stack =
     (if length stack \<ge> 2 \<and> last stack \<noteq> [] \<and> last stack ! 0 = ANNEX_TAG
      then let annex = last stack in
        (butlast stack,
         ExecData_new\<lparr>annex_hash := sha256 C (varint C (length annex) @ annex),
                      annex_present := True, annex_init := True\<rparr>)
      else (stack, ExecData_new\<lparr>annex_present := False, annex_init := True\<rparr>))"

definition verify_taproot_script_path ::
  "crypto \<Rightarrow> bytes list \<Rightarrow> bytes list \<Rightarrow> bytes \<Rightarrow> u32 \<Rightarrow> checker \<Rightarrow> ExecData \<Rightarrow> unit script_result" where
  "verify_taproot_script_path C witness_stack stack program script_flags chk exec_data =
     (if length stack < 2 then Panic
      else let control = last stack; script = last (butlast stack); stack = butlast (butlast stack) in
      if length control < TAPROOT_CONTROL_BASE_SIZE \<or> length control > TAPROOT_CONTROL_MAX_SIZE
         \<or> (length control - TAPROOT_CONTROL_BASE_SIZE) mod TAPROOT_CONTROL_NODE_SIZE \<noteq> 0
      then Err TaprootWrongControlSize
      else let leaf_version = control ! 0 AND TAPROOT_LEAF_MASK;
               leaf = compute_tapleaf_hash C leaf_version script in
      rbind (verify_taproot_commitment C control program leaf) (\<lambda>committed.
        if \<not> committed then Err WitnessProgramMismatch
        else if leaf_version = TAPROOT_LEAF_TAPSCRIPT then
          rbind (checked_i64 (int (witness_serialized_size C witness_stack) + VALIDATION_WEIGHT_OFFSET)) (\<lambda>w.
            execute_witness_script C stack script script_flags Tapscript chk
              (exec_data\<lparr>tapleaf_hash := leaf, tapleaf_hash_init := True,
                         validation_weight_left := w, validation_weight_left_init := True\<rparr>))
        else if has_flag script_flags VERIFY_DISCOURAGE_UPGRADABLE_TAPROOT_VERSION
        then Err DiscourageUpgradableTaprootVersion
        else Ok ()))"

definition verify_taproot ::
  "crypto \<Rightarrow> bytes list \<Rightarrow> bytes \<Rightarrow> u32 \<Rightarrow> checker \<Rightarrow> unit script_result" where
  "verify_taproot C witness_stack program script_flags chk =
     (if \<not> has_flag script_flags VERIFY_TAPROOT then Ok ()
      else if witness_stack = [] then Err WitnessProgramWitnessEmpty
      else case take_annex C witness_stack of (stack, exec_data) \<Rightarrow>
        if length stack = 1 then
          rbind (check_schnorr_signature chk (hd stack) program Taproot exec_data) (\<lambda>ok.
            if ok then Ok () else Err SchnorrSig)
        else verify_taproot_script_path C witness_stack stack program script_flags chk exec_data)"

definition verify_witness_program ::
  "crypto \<Rightarrow> bytes list \<Rightarrow> byte \<Rightarrow> bytes \<Rightarrow> u32 \<Rightarrow> checker \<Rightarrow> bool \<Rightarrow> unit script_result" where
  "verify_witness_program C witness_stack wit_version program script_flags chk is_p2sh =
     (if wit_version = 0 then verify_witness_v0 C witness_stack program script_flags chk
      else if wit_version = 1 \<and> length program = WITNESS_V1_TAPROOT_SIZE \<and> \<not> is_p2sh
      then verify_taproot C witness_stack program script_flags chk
      else if \<not> is_p2sh \<and> is_pay_to_anchor wit_version program then Ok ()
      else if has_flag script_flags VERIFY_DISCOURAGE_UPGRADABLE_WITNESS_PROGRAM
      then Err DiscourageUpgradableWitnessProgram
      else Ok ())"

end
