(* ===== verification/Verify.thy ===== *)
theory Verify
  imports Witness
begin

text \<open>
  Script verification: \<open>consensus/src/verify.rs\<close>.  \<open>verify_script\<close> runs the signature script, the
  output script, the pay-to-script-hash redeem script and the witness program in turn.
\<close>

section \<open>Script templates\<close>

text \<open>The walk of \<open>is_push_only\<close> from \<open>pc\<close>.\<close>

function push_only_from :: "bytes \<Rightarrow> nat \<Rightarrow> bool" where
  "push_only_from script pc =
     (if pc < length script then
        let opcode = script ! pc in
        if opcode > 0x60 then False
        else let pc = pc + 1 in
        if opcode \<le> 75 then push_only_from script (pc + unat opcode)
        else if opcode = 0x4c then
          (if pc \<ge> length script then False
           else push_only_from script (pc + (1 + unat (script ! pc))))
        else if opcode = 0x4d then
          (if pc + 1 \<ge> length script then False
           else push_only_from script (pc + (2 + le16 (script ! pc) (script ! (pc + 1)))))
        else if opcode = 0x4e then
          (if pc + 3 \<ge> length script then False
           else push_only_from script
             (pc + (4 + le32 (script ! pc) (script ! (pc + 1)) (script ! (pc + 2)) (script ! (pc + 3)))))
        else push_only_from script pc
      else True)"
  by pat_completeness auto
termination
  by (relation "measure (\<lambda>(script, pc). length script - pc)") auto

declare push_only_from.simps [simp del]

definition is_push_only :: "bytes \<Rightarrow> bool" where
  "is_push_only script = push_only_from script 0"

definition is_p2sh :: "bytes \<Rightarrow> bool" where
  "is_p2sh script \<longleftrightarrow>
     length script = 23 \<and> script ! 0 = 0xa9 \<and> script ! 1 = 0x14 \<and> script ! 22 = 0x87"

definition is_witness_program :: "bytes \<Rightarrow> (byte \<times> bytes) option" where
  "is_witness_program script =
     (if length script < 4 \<or> length script > 42 then None
      else
        let version_opcode = script ! 0;
            version = (if version_opcode = 0x00 then Some 0
                       else if 0x51 \<le> version_opcode \<and> version_opcode \<le> 0x60
                       then Some (version_opcode - 0x50)
                       else None)
        in case version of None \<Rightarrow> None
        | Some version \<Rightarrow>
          let program_len = unat (script ! 1) in
          if program_len < 2 \<or> program_len > 40 then None
          else if length script \<noteq> 2 + program_len then None
          else Some (version, drop 2 script))"

definition build_single_push :: "bytes \<Rightarrow> bytes" where
  "build_single_push data =
     (let len = length data in
      (if len \<le> 75 then [of_nat len]
       else if len \<le> 255 then [0x4c, of_nat len]
       else if len \<le> 65535 then [0x4d, of_nat len, of_nat (drop_bit 8 len)]
       else [0x4e, of_nat len, of_nat (drop_bit 8 len), of_nat (drop_bit 16 len), of_nat (drop_bit 24 len)])
      @ data)"

section \<open>Script verification\<close>

text \<open>\<open>stack.resize(1, Vec::new())\<close>: the bottom element, or one empty element.\<close>

definition resize_one :: "stack \<Rightarrow> stack" where
  "resize_one s = (if s = [] then [[]] else [last s])"

text \<open>\<open>stack.is_empty()\<close> or a false top: the two \<open>EvalFalse\<close> checks after a script.\<close>

definition check_true :: "stack \<Rightarrow> unit script_result" where
  "check_true s = (case s of [] \<Rightarrow> Err EvalFalse
     | v # _ \<Rightarrow> if \<not> cast_to_bool v then Err EvalFalse else Ok ())"

definition check_clean :: "u32 \<Rightarrow> stack \<Rightarrow> unit script_result" where
  "check_clean script_flags s =
     (if has_flag script_flags VERIFY_CLEANSTACK then
        if length s \<noteq> 1 then Err CleanStack else Ok ()
      else Ok ())"

text \<open>The bare witness program: whether there was one, and the stack to go on with.\<close>

definition verify_bare_witness ::
  "crypto \<Rightarrow> bytes \<Rightarrow> bytes \<Rightarrow> bytes list \<Rightarrow> u32 \<Rightarrow> checker \<Rightarrow> stack \<Rightarrow> (bool \<times> stack) script_result" where
  "verify_bare_witness C script_sig script_pubkey witness script_flags chk stack =
     (if has_flag script_flags VERIFY_WITNESS then
        case is_witness_program script_pubkey of
          Some (wit_version, wit_program) \<Rightarrow>
            if script_sig \<noteq> [] then Err WitnessMalleated
            else rbind (verify_witness_program C witness wit_version wit_program script_flags chk False)
              (\<lambda>_. Ok (True, resize_one stack))
        | None \<Rightarrow> Ok (False, stack)
      else Ok (False, stack))"

text \<open>The witness program inside a redeem script.\<close>

definition verify_p2sh_witness ::
  "crypto \<Rightarrow> bytes \<Rightarrow> bytes \<Rightarrow> bytes list \<Rightarrow> u32 \<Rightarrow> checker \<Rightarrow> bool \<Rightarrow> stack \<Rightarrow> (bool \<times> stack) script_result" where
  "verify_p2sh_witness C script_sig redeem_script witness script_flags chk had_witness stack =
     (if has_flag script_flags VERIFY_WITNESS then
        case is_witness_program redeem_script of
          Some (wit_version, wit_program) \<Rightarrow>
            if script_sig \<noteq> build_single_push redeem_script then Err WitnessMalleatedP2sh
            else rbind (verify_witness_program C witness wit_version wit_program script_flags chk True)
              (\<lambda>_. Ok (True, resize_one stack))
        | None \<Rightarrow> Ok (had_witness, stack)
      else Ok (had_witness, stack))"

text \<open>
  The redeem script, on the stack saved after the signature script; the result is whether a witness
  program was run.
\<close>

definition verify_p2sh ::
  "crypto \<Rightarrow> bytes \<Rightarrow> bytes list \<Rightarrow> u32 \<Rightarrow> checker \<Rightarrow> ExecData \<Rightarrow> stack option \<Rightarrow> bool \<Rightarrow> bool script_result" where
  "verify_p2sh C script_sig witness script_flags chk exec_data stack_copy had_witness =
     (if \<not> is_push_only script_sig then Err SigPushOnly
      else case stack_copy of None \<Rightarrow> Panic
      | Some [] \<Rightarrow> Panic
      | Some (redeem_script # stack) \<Rightarrow>
        rbind (eval_script C stack redeem_script script_flags chk Base exec_data) (\<lambda>(stack, _).
        rbind (check_true stack) (\<lambda>_.
        rbind (verify_p2sh_witness C script_sig redeem_script witness script_flags chk had_witness stack)
          (\<lambda>(had_witness, stack).
        rbind (check_clean script_flags stack) (\<lambda>_. Ok had_witness)))))"

definition verify_script ::
  "crypto \<Rightarrow> bytes \<Rightarrow> bytes \<Rightarrow> bytes list \<Rightarrow> u32 \<Rightarrow> checker \<Rightarrow> unit script_result" where
  "verify_script C script_sig script_pubkey witness script_flags chk =
     (if has_flag script_flags VERIFY_SIGPUSHONLY \<and> \<not> is_push_only script_sig then Err SigPushOnly
      else
        rbind (eval_script C [] script_sig script_flags chk Base ExecData_new) (\<lambda>(stack, exec_data).
        let stack_copy = (if has_flag script_flags VERIFY_P2SH then Some stack else None) in
        rbind (eval_script C stack script_pubkey script_flags chk Base exec_data) (\<lambda>(stack, exec_data).
        rbind (check_true stack) (\<lambda>_.
        rbind (verify_bare_witness C script_sig script_pubkey witness script_flags chk stack)
          (\<lambda>(had_witness, stack).
        rbind (if has_flag script_flags VERIFY_P2SH \<and> is_p2sh script_pubkey
               then verify_p2sh C script_sig witness script_flags chk exec_data stack_copy had_witness
               else rbind (check_clean script_flags stack) (\<lambda>_. Ok had_witness)) (\<lambda>had_witness.
          if has_flag script_flags VERIFY_WITNESS \<and> \<not> had_witness \<and> witness \<noteq> []
          then Err WitnessUnexpected
          else Ok ()))))))"

end
