(* ===== verification/Tx_Types.thy ===== *)
theory Tx_Types
  imports Prelude
begin

text \<open>
  The transaction data of the \<open>bitcoin\<close> crate, with the public fields the sources read.  Integers
  that are only compared, masked or encoded keep their width; amounts are counted in satoshis.
  Script bytes and witness elements are byte lists, and a witness is listed bottom first.
\<close>

record OutPoint =
  txid :: bytes
  vout :: u32

record TxIn =
  previous_output :: OutPoint
  script_sig :: bytes
  sequence :: u32
  witness :: "bytes list"

record TxOut =
  out_value :: nat
  script_pubkey :: bytes

record Transaction =
  version :: u32
  lock_time :: u32
  tx_input :: "TxIn list"
  tx_output :: "TxOut list"

end
