(* ===== verification/Sighash.thy ===== *)
theory Sighash
  imports Verify Tx_Types
begin

text \<open>
  The signature checker backed by a transaction: \<open>consensus/src/sighash.rs\<close>.  The consensus
  encoders and the legacy and BIP 143 signature hashes belong to the \<open>bitcoin\<close> crate and are the
  fields of \<open>tx_codec\<close>.  The two cells that the checker fills on first use (the BIP 341 hashes of
  the transaction, shared by its inputs, and the single-output hash of the input) are explicit
  state: \<open>taproot_sighash\<close> and \<open>schnorr_check\<close> return the checker they leave behind.
\<close>

section \<open>The encoders of the transaction library\<close>

record tx_codec =
  enc_outpoint :: "OutPoint \<Rightarrow> bytes"
  enc_sequence :: "u32 \<Rightarrow> bytes"
  enc_amount :: "nat \<Rightarrow> bytes"
  enc_script :: "bytes \<Rightarrow> bytes"
  enc_txout :: "TxOut \<Rightarrow> bytes"
  enc_version :: "u32 \<Rightarrow> bytes"
  enc_lock_time :: "u32 \<Rightarrow> bytes"
  enc_u32 :: "u32 \<Rightarrow> bytes"
  ecdsa_sighash_type :: "nat \<Rightarrow> nat"
  segwit_v0_signing_data :: "Transaction \<Rightarrow> nat \<Rightarrow> bytes \<Rightarrow> nat \<Rightarrow> nat \<Rightarrow> bytes option"
  legacy_signature_hash :: "Transaction \<Rightarrow> nat \<Rightarrow> bytes \<Rightarrow> nat \<Rightarrow> bytes option"
  tap_sighash :: "bytes \<Rightarrow> bytes"

text \<open>A BIP 143 signature message ends with the four bytes of the hash type.\<close>

definition signing_data_ends_with_type :: "tx_codec \<Rightarrow> bool" where
  "signing_data_ends_with_type K \<longleftrightarrow>
     (\<forall>tx i code amount ty buf. segwit_v0_signing_data K tx i code amount ty = Some buf \<longrightarrow> 4 \<le> length buf)"

section \<open>Constants and state\<close>

definition LOCKTIME_THRESHOLD :: u32 where "LOCKTIME_THRESHOLD = 500000000"
definition SEQUENCE_LOCKTIME_DISABLE_FLAG :: u32 where "SEQUENCE_LOCKTIME_DISABLE_FLAG = push_bit 31 1"
definition SEQUENCE_LOCKTIME_TYPE_FLAG :: u32 where "SEQUENCE_LOCKTIME_TYPE_FLAG = push_bit 22 1"
definition SEQUENCE_LOCKTIME_MASK :: u32 where "SEQUENCE_LOCKTIME_MASK = 0x0000ffff"

record TaprootTxHashes =
  th_prevouts :: bytes
  th_amounts :: bytes
  th_script_pubkeys :: bytes
  th_sequences :: bytes
  th_outputs :: bytes

definition TaprootTxHashes_compute :: "crypto \<Rightarrow> tx_codec \<Rightarrow> Transaction \<Rightarrow> TxOut list \<Rightarrow> TaprootTxHashes" where
  "TaprootTxHashes_compute C K tx spent = \<lparr>
     th_prevouts = sha256 C (concat (map (\<lambda>input. enc_outpoint K (previous_output input)) (tx_input tx))),
     th_amounts = sha256 C (concat (map (\<lambda>out. enc_amount K (out_value out)) spent)),
     th_script_pubkeys = sha256 C (concat (map (\<lambda>out. enc_script K (script_pubkey out)) spent)),
     th_sequences = sha256 C (concat (map (\<lambda>input. enc_sequence K (sequence input)) (tx_input tx))),
     th_outputs = sha256 C (concat (map (enc_txout K) (tx_output tx)))\<rparr>"

record TxSignatureChecker =
  tc_tx :: Transaction
  tc_input_index :: nat
  tc_amount :: nat
  tc_prev_outputs :: "TxOut list"
  tc_taproot :: "TaprootTxHashes option"
  tc_single_output_hash :: "bytes option option"

definition TxSignatureChecker_with_cache ::
  "Transaction \<Rightarrow> nat \<Rightarrow> nat \<Rightarrow> TxOut list \<Rightarrow> TaprootTxHashes option \<Rightarrow> TxSignatureChecker" where
  "TxSignatureChecker_with_cache tx input_index amount prev_outputs cache = \<lparr>
     tc_tx = tx, tc_input_index = input_index, tc_amount = amount, tc_prev_outputs = prev_outputs,
     tc_taproot = cache, tc_single_output_hash = None\<rparr>"

definition TxSignatureChecker_new :: "Transaction \<Rightarrow> nat \<Rightarrow> nat \<Rightarrow> TxOut list \<Rightarrow> TxSignatureChecker" where
  "TxSignatureChecker_new tx input_index amount prev_outputs =
     TxSignatureChecker_with_cache tx input_index amount prev_outputs None"

section \<open>The BIP 341 signature hash\<close>

text \<open>\<open>get_or_insert_with\<close> on the shared hashes, \<open>get_or_init\<close> on the single-output hash.\<close>

definition get_tx_hashes ::
  "crypto \<Rightarrow> tx_codec \<Rightarrow> TxSignatureChecker \<Rightarrow> TaprootTxHashes \<times> TxSignatureChecker" where
  "get_tx_hashes C K tc = (case tc_taproot tc of
       Some h \<Rightarrow> (h, tc)
     | None \<Rightarrow> let h = TaprootTxHashes_compute C K (tc_tx tc) (tc_prev_outputs tc)
              in (h, tc\<lparr>tc_taproot := Some h\<rparr>))"

definition single_output_hash :: "crypto \<Rightarrow> tx_codec \<Rightarrow> Transaction \<Rightarrow> nat \<Rightarrow> bytes option" where
  "single_output_hash C K tx i =
     (if i < length (tx_output tx) then Some (sha256 C (enc_txout K (tx_output tx ! i))) else None)"

definition get_single_output ::
  "crypto \<Rightarrow> tx_codec \<Rightarrow> TxSignatureChecker \<Rightarrow> bytes option \<times> TxSignatureChecker" where
  "get_single_output C K tc = (case tc_single_output_hash tc of
       Some h \<Rightarrow> (h, tc)
     | None \<Rightarrow> let h = single_output_hash C K (tc_tx tc) (tc_input_index tc)
              in (h, tc\<lparr>tc_single_output_hash := Some h\<rparr>))"

definition defined_taproot_hash_type :: "byte \<Rightarrow> bool" where
  "defined_taproot_hash_type hash_type \<longleftrightarrow> hash_type \<le> 0x03 \<or> (0x81 \<le> hash_type \<and> hash_type \<le> 0x83)"

text \<open>The part of the message that identifies the input.\<close>

definition taproot_input_part ::
  "tx_codec \<Rightarrow> TxSignatureChecker \<Rightarrow> bool \<Rightarrow> bytes script_result" where
  "taproot_input_part K tc acp =
     (if acp then
        rbind (index (tx_input (tc_tx tc)) (tc_input_index tc)) (\<lambda>input.
        rbind (index (tc_prev_outputs tc) (tc_input_index tc)) (\<lambda>prev.
          Ok (enc_outpoint K (previous_output input) @ enc_txout K prev @ enc_sequence K (sequence input))))
      else Ok (enc_u32 K (of_nat (tc_input_index tc))))"

definition taproot_output_type :: "byte \<Rightarrow> byte" where
  "taproot_output_type hash_type = (if hash_type = 0x00 then 0x01 else hash_type AND 0x03)"

definition anyone_can_pay :: "byte \<Rightarrow> bool" where
  "anyone_can_pay hash_type \<longleftrightarrow> hash_type AND 0x80 \<noteq> 0"

text \<open>The message up to the annex hash, and the tapscript extension at its end.\<close>

definition taproot_head ::
  "tx_codec \<Rightarrow> Transaction \<Rightarrow> TaprootTxHashes \<Rightarrow> byte \<Rightarrow> SigVersion \<Rightarrow> ExecData \<Rightarrow> bytes \<Rightarrow> bytes" where
  "taproot_head K tx tx_hashes hash_type sig_version exec_data input_part =
     (let ext_flag = (if sig_version = Tapscript then 1 else 0 :: byte) in
      [0x00, hash_type] @ enc_version K (version tx) @ enc_lock_time K (lock_time tx)
      @ (if \<not> anyone_can_pay hash_type
         then th_prevouts tx_hashes @ th_amounts tx_hashes @ th_script_pubkeys tx_hashes @ th_sequences tx_hashes
         else [])
      @ (if taproot_output_type hash_type = 0x01 then th_outputs tx_hashes else [])
      @ [push_bit 1 ext_flag OR (if annex_present exec_data then 1 else 0)]
      @ input_part
      @ (if annex_present exec_data then annex_hash exec_data else []))"

definition taproot_tail :: "tx_codec \<Rightarrow> SigVersion \<Rightarrow> ExecData \<Rightarrow> bytes" where
  "taproot_tail K sig_version exec_data =
     (if sig_version = Tapscript
      then tapleaf_hash exec_data @ [0x00] @ enc_u32 K (of_nat (codeseparator_pos exec_data))
      else [])"

definition taproot_sighash ::
  "crypto \<Rightarrow> tx_codec \<Rightarrow> TxSignatureChecker \<Rightarrow> byte \<Rightarrow> SigVersion \<Rightarrow> ExecData
     \<Rightarrow> bytes option script_result \<times> TxSignatureChecker" where
  "taproot_sighash C K tc hash_type sig_version exec_data =
     (if \<not> defined_taproot_hash_type hash_type then (Ok None, tc)
      else if length (tc_prev_outputs tc) \<noteq> length (tx_input (tc_tx tc)) then (Ok None, tc)
      else case get_tx_hashes C K tc of (tx_hashes, tc) \<Rightarrow>
        (case taproot_input_part K tc (anyone_can_pay hash_type) of
          Panic \<Rightarrow> (Panic, tc)
        | Err e \<Rightarrow> (Err e, tc)
        | Ok input_part \<Rightarrow>
          let head = taproot_head K (tc_tx tc) tx_hashes hash_type sig_version exec_data input_part;
              tail = taproot_tail K sig_version exec_data
          in if taproot_output_type hash_type = 0x03 then
               case get_single_output C K tc of
                 (None, tc) \<Rightarrow> (Ok None, tc)
               | (Some single, tc) \<Rightarrow> (Ok (Some (tap_sighash K (head @ single @ tail))), tc)
             else (Ok (Some (tap_sighash K (head @ tail))), tc)))"

section \<open>Removing code separators\<close>

text \<open>The position after the instruction at \<open>pc\<close>, which may lie past the end of the script.\<close>

definition separator_next :: "bytes \<Rightarrow> nat \<Rightarrow> nat" where
  "separator_next script pc =
     (let opcode = script ! pc; pc = pc + 1 in
      if opcode \<le> 75 then pc + unat opcode
      else if opcode = 0x4c \<and> pc < length script then pc + (1 + unat (script ! pc))
      else if opcode = 0x4d \<and> pc + 1 < length script
      then pc + (2 + le16 (script ! pc) (script ! (pc + 1)))
      else if opcode = 0x4e \<and> pc + 3 < length script
      then pc + (4 + le32 (script ! pc) (script ! (pc + 1)) (script ! (pc + 2)) (script ! (pc + 3)))
      else pc)"

lemma separator_next_gt: "pc < separator_next script pc"
  by (simp add: separator_next_def Let_def)

function remove_codeseparators_from :: "bytes \<Rightarrow> nat \<Rightarrow> bytes" where
  "remove_codeseparators_from script pc =
     (if pc < length script then
        if script ! pc = 0xab then remove_codeseparators_from script (pc + 1)
        else subslice script pc (min (separator_next script pc) (length script))
             @ remove_codeseparators_from script (separator_next script pc)
      else [])"
  by pat_completeness auto
termination
  by (relation "measure (\<lambda>(script, pc). length script - pc)")
    (auto intro: diff_less_mono2 simp: separator_next_gt)

declare remove_codeseparators_from.simps [simp del]

definition remove_codeseparators :: "bytes \<Rightarrow> bytes" where
  "remove_codeseparators script = remove_codeseparators_from script 0"

section \<open>The checks\<close>

definition ecdsa_sighash ::
  "crypto \<Rightarrow> tx_codec \<Rightarrow> TxSignatureChecker \<Rightarrow> byte \<Rightarrow> bytes \<Rightarrow> SigVersion \<Rightarrow> bytes option script_result" where
  "ecdsa_sighash C K tc hash_type_byte script_code sig_version =
     (case sig_version of
        WitnessV0 \<Rightarrow>
          (case segwit_v0_signing_data K (tc_tx tc) (tc_input_index tc) script_code (tc_amount tc)
                  (ecdsa_sighash_type K (unat hash_type_byte)) of
             None \<Rightarrow> Ok None
           | Some buf \<Rightarrow>
             if length buf < 4 then Panic
             else Ok (Some (sha256 C (sha256 C (take (length buf - 4) buf @ [hash_type_byte, 0, 0, 0])))))
      | Base \<Rightarrow>
          Ok (legacy_signature_hash K (tc_tx tc) (tc_input_index tc) (remove_codeseparators script_code)
                (unat hash_type_byte))
      | _ \<Rightarrow> Ok None)"

definition ecdsa_check ::
  "crypto \<Rightarrow> tx_codec \<Rightarrow> TxSignatureChecker \<Rightarrow> bytes \<Rightarrow> bytes \<Rightarrow> bytes \<Rightarrow> SigVersion \<Rightarrow> bool script_result" where
  "ecdsa_check C K tc sig pubkey_bytes script_code sig_version =
     (case pubkey_from_slice C pubkey_bytes of
        None \<Rightarrow> Ok False
      | Some pubkey \<Rightarrow>
        if sig = [] then Ok False
        else let hash_type_byte = last sig; sig_bytes = butlast sig in
          case ecdsa_from_der_lax C sig_bytes of
            None \<Rightarrow> Ok False
          | Some parsed \<Rightarrow>
            let ecdsa_sig = ecdsa_normalize_s C parsed in
            rbind (ecdsa_sighash C K tc hash_type_byte script_code sig_version) (\<lambda>sighash.
              case sighash of None \<Rightarrow> Ok False
              | Some msg \<Rightarrow> Ok (verify_ecdsa C msg ecdsa_sig pubkey)))"

text \<open>The hash type byte and the 64 signature bytes of a 64- or 65-byte Schnorr signature.\<close>

definition schnorr_hash_type :: "bytes \<Rightarrow> byte" where
  "schnorr_hash_type sig = (if length sig = 65 then sig ! 64 else 0x00)"

definition schnorr_sig_data :: "bytes \<Rightarrow> bytes" where
  "schnorr_sig_data sig = (if length sig = 65 then take 64 sig else sig)"

definition schnorr_verdict ::
  "crypto \<Rightarrow> bytes \<Rightarrow> bytes \<Rightarrow> bytes option script_result \<Rightarrow> bool script_result" where
  "schnorr_verdict C schnorr_sig xonly sighash =
     rbind sighash (\<lambda>h. rbind (ok_or h SchnorrSigHashtype) (\<lambda>msg.
       if verify_schnorr C schnorr_sig msg xonly then Ok True else Err SchnorrSig))"

definition schnorr_check ::
  "crypto \<Rightarrow> tx_codec \<Rightarrow> TxSignatureChecker \<Rightarrow> bytes \<Rightarrow> bytes \<Rightarrow> SigVersion \<Rightarrow> ExecData
     \<Rightarrow> bool script_result \<times> TxSignatureChecker" where
  "schnorr_check C K tc sig pubkey_bytes sig_version exec_data =
     (if \<not> (sig_version = Taproot \<or> sig_version = Tapscript) then (Panic, tc)
      else if length pubkey_bytes \<noteq> 32 then (Panic, tc)
      else if length sig \<noteq> 64 \<and> length sig \<noteq> 65 then (Err SchnorrSigSize, tc)
      else case xonly_from_slice C pubkey_bytes of
        None \<Rightarrow> (Err SchnorrSig, tc)
      | Some xonly \<Rightarrow>
        if length sig = 65 \<and> sig ! 64 = 0x00 then (Err SchnorrSigHashtype, tc)
        else case schnorr_from_slice C (schnorr_sig_data sig) of
          None \<Rightarrow> (Err SchnorrSig, tc)
        | Some schnorr_sig \<Rightarrow>
          (case taproot_sighash C K tc (schnorr_hash_type sig) sig_version exec_data of
            (sighash, tc) \<Rightarrow> (schnorr_verdict C schnorr_sig xonly sighash, tc)))"

definition lock_time_check :: "TxSignatureChecker \<Rightarrow> int \<Rightarrow> bool script_result" where
  "lock_time_check tc n =
     (let tx_locktime = lock_time (tc_tx tc) in
      if \<not> ((tx_locktime < LOCKTIME_THRESHOLD \<and> n < uint LOCKTIME_THRESHOLD)
            \<or> (tx_locktime \<ge> LOCKTIME_THRESHOLD \<and> n \<ge> uint LOCKTIME_THRESHOLD))
      then Ok False
      else if n > uint tx_locktime then Ok False
      else rbind (index (tx_input (tc_tx tc)) (tc_input_index tc)) (\<lambda>input.
        if sequence input = 0xFFFFFFFF then Ok False else Ok True))"

definition sequence_check :: "TxSignatureChecker \<Rightarrow> int \<Rightarrow> bool script_result" where
  "sequence_check tc n =
     rbind (index (tx_input (tc_tx tc)) (tc_input_index tc)) (\<lambda>input.
       let tx_sequence = sequence input in
       if version (tc_tx tc) < 2 then Ok False
       else if tx_sequence AND SEQUENCE_LOCKTIME_DISABLE_FLAG \<noteq> 0 then Ok False
       else
         let mask = SEQUENCE_LOCKTIME_TYPE_FLAG OR SEQUENCE_LOCKTIME_MASK;
             tx_masked = uint (tx_sequence AND mask);
             n_masked = n AND uint mask;
             type_flag = uint SEQUENCE_LOCKTIME_TYPE_FLAG
         in if \<not> ((tx_masked < type_flag \<and> n_masked < type_flag)
                  \<or> (tx_masked \<ge> type_flag \<and> n_masked \<ge> type_flag))
            then Ok False
            else if n_masked > tx_masked then Ok False
            else Ok True)"

text \<open>The checker the interpreter is given.\<close>

definition tx_signature_checker :: "crypto \<Rightarrow> tx_codec \<Rightarrow> TxSignatureChecker \<Rightarrow> checker" where
  "tx_signature_checker C K tc = \<lparr>
     check_ecdsa_signature = ecdsa_check C K tc,
     check_schnorr_signature = (\<lambda>sig pk sv ed. fst (schnorr_check C K tc sig pk sv ed)),
     check_lock_time = lock_time_check tc,
     check_sequence = sequence_check tc\<rparr>"

end
