(* ===== verification/Engine.thy ===== *)
theory Engine
  imports Sighash
begin

text \<open>
  The entry points of the engine: \<open>consensus/src/lib.rs\<close>.  A borrowed transaction is its address
  and its value, since \<open>verify\<close> compares the addresses.
\<close>

datatype Error =
  ErrScript ScriptError
| ErrTxIndex
| ErrInvalidFlags
| ErrSpentOutputsRequired
| ErrSpentOutputsMismatch
| ErrTxMismatch

primrec Error_fmt :: "Error \<Rightarrow> string" where
  "Error_fmt (ErrScript e) = as_str e"
| "Error_fmt ErrTxIndex = ''invalid input index''"
| "Error_fmt ErrInvalidFlags = ''invalid flags''"
| "Error_fmt ErrSpentOutputsRequired = ''spent outputs required for taproot''"
| "Error_fmt ErrSpentOutputsMismatch = ''spent outputs count mismatch''"
| "Error_fmt ErrTxMismatch = ''precomputed data is for another transaction''"

type_synonym tx_ref = "nat \<times> Transaction"

record PrecomputedTransactionData =
  pd_tx :: tx_ref
  pd_spent_outputs :: "TxOut list"
  pd_cache :: "TaprootTxHashes option"

definition PrecomputedTransactionData_new ::
  "tx_ref \<Rightarrow> TxOut list \<Rightarrow> (Error, PrecomputedTransactionData) result" where
  "PrecomputedTransactionData_new tx spent_outputs =
     (if spent_outputs \<noteq> [] \<and> length spent_outputs \<noteq> length (tx_input (snd tx))
      then Err ErrSpentOutputsMismatch
      else Ok \<lparr>pd_tx = tx, pd_spent_outputs = spent_outputs, pd_cache = None\<rparr>)"

definition verify ::
  "crypto \<Rightarrow> tx_codec \<Rightarrow> bytes \<Rightarrow> nat \<Rightarrow> tx_ref \<Rightarrow> nat \<Rightarrow> u32 \<Rightarrow> PrecomputedTransactionData
     \<Rightarrow> (Error, unit) result" where
  "verify C K spk amount tx input_index flag_set precomputed =
     (if \<not> valid_flags flag_set then Err ErrInvalidFlags
      else if input_index \<ge> length (tx_input (snd tx)) then Err ErrTxIndex
      else if fst tx \<noteq> fst (pd_tx precomputed) then Err ErrTxMismatch
      else if has_flag flag_set VERIFY_TAPROOT \<and> pd_spent_outputs precomputed = []
      then Err ErrSpentOutputsRequired
      else
        let tx = snd (pd_tx precomputed);
            tx_checker = TxSignatureChecker_with_cache tx input_index amount
              (pd_spent_outputs precomputed) (pd_cache precomputed)
        in rbind (index (tx_input tx) input_index) (\<lambda>input.
          map_err ErrScript
            (verify_script C (script_sig input) spk (witness input) flag_set
               (tx_signature_checker C K tx_checker))))"

text \<open>The loop of \<open>verify_transaction\<close> over the spent outputs from index \<open>i\<close> on.\<close>

primrec verify_inputs ::
  "crypto \<Rightarrow> tx_codec \<Rightarrow> tx_ref \<Rightarrow> u32 \<Rightarrow> PrecomputedTransactionData \<Rightarrow> TxOut list \<Rightarrow> nat
     \<Rightarrow> (nat \<times> Error, unit) result" where
  "verify_inputs C K tx flag_set precomputed [] i = Ok ()"
| "verify_inputs C K tx flag_set precomputed (prev # prevs) i =
     rbind (map_err (\<lambda>e. (i, e))
              (verify C K (script_pubkey prev) (out_value prev) tx i flag_set precomputed)) (\<lambda>_.
       verify_inputs C K tx flag_set precomputed prevs (Suc i))"

definition verify_transaction ::
  "crypto \<Rightarrow> tx_codec \<Rightarrow> tx_ref \<Rightarrow> TxOut list \<Rightarrow> u32 \<Rightarrow> (nat \<times> Error, unit) result" where
  "verify_transaction C K tx prev_outputs flag_set =
     (if \<not> valid_flags flag_set then Err (0, ErrInvalidFlags)
      else if length prev_outputs \<noteq> length (tx_input (snd tx)) then Err (0, ErrSpentOutputsMismatch)
      else if has_flag flag_set VERIFY_TAPROOT \<and> prev_outputs = [] then Err (0, ErrSpentOutputsRequired)
      else rbind (map_err (\<lambda>e. (0, e)) (PrecomputedTransactionData_new tx prev_outputs)) (\<lambda>precomputed.
        verify_inputs C K tx flag_set precomputed prev_outputs 0))"

end
