(* ===== verification/Eval_Arms.thy ===== *)
theory Eval_Arms
  imports Eval
begin

text \<open>
  Facts about the arms that only transform the stack: none of them panics, they keep every element
  within the 520-byte limit, and what they accept under minimal number encoding they accept without
  it, with the same result.  The two rules \<open>stack_arm_rel\<close> and \<open>stack_arm_cases\<close> lift a fact from
  the arms to their dispatch.
\<close>

section \<open>Lifting from the arms\<close>

text \<open>From one relation between the arms of two interpreters to their dispatch.\<close>

lemma stack_arm_rel:
  assumes refl: "\<And>f. f \<in> {op_num oc, op_verify, op_2drop, op_2dup, op_3dup, op_2over, op_2rot, op_2swap,
      op_ifdup, op_depth, op_drop, op_dup, op_nip, op_over, op_rot, op_swap, op_tuck, op_size, op_equal oc,
      op_ripemd160 C, op_sha1 C, op_sha256 C, op_hash160 C, op_hash256 C} \<Longrightarrow> Q f f"
    and "Q (op_pick_roll rm oc) (op_pick_roll rm' oc)"
    and "oc = OP_1ADD \<or> oc = OP_1SUB \<or> oc = OP_NEGATE \<or> oc = OP_ABS \<or> oc = OP_NOT \<or> oc = OP_0NOTEQUAL
      \<Longrightarrow> Q (op_unary rm oc) (op_unary rm' oc)"
    and "oc = OP_ADD \<or> oc = OP_SUB \<or> oc = OP_BOOLAND \<or> oc = OP_BOOLOR \<or> oc = OP_NUMEQUAL
      \<or> oc = OP_NUMEQUALVERIFY \<or> oc = OP_NUMNOTEQUAL \<or> oc = OP_LESSTHAN \<or> oc = OP_GREATERTHAN
      \<or> oc = OP_LESSTHANOREQUAL \<or> oc = OP_GREATERTHANOREQUAL \<or> oc = OP_MIN \<or> oc = OP_MAX
      \<Longrightarrow> Q (op_binary rm oc) (op_binary rm' oc)"
    and "Q (op_within rm) (op_within rm')"
  shows "rel_option Q (stack_arm C rm oc) (stack_arm C rm' oc)"
proof -
  have ifI: "(c \<Longrightarrow> Q f f') \<Longrightarrow> (\<not> c \<Longrightarrow> rel_option Q x x')
    \<Longrightarrow> rel_option Q (if c then Some f else x) (if c then Some f' else x')" for c f f' x x' by simp
  have None: "rel_option Q None None" by simp
  show ?thesis
    unfolding stack_arm_def by (intro ifI assms(2-) None; (assumption | (rule refl; simp)))
qed

lemma stack_arm_cases:
  assumes "stack_arm C rm oc = Some f"
    and "\<And>f. f \<in> {op_num oc, op_verify, op_2drop, op_2dup, op_3dup, op_2over, op_2rot, op_2swap,
      op_ifdup, op_depth, op_drop, op_dup, op_nip, op_over, op_rot, op_swap, op_tuck, op_size, op_equal oc,
      op_ripemd160 C, op_sha1 C, op_sha256 C, op_hash160 C, op_hash256 C} \<Longrightarrow> Q f"
    and "Q (op_pick_roll rm oc)"
    and "oc = OP_1ADD \<or> oc = OP_1SUB \<or> oc = OP_NEGATE \<or> oc = OP_ABS \<or> oc = OP_NOT \<or> oc = OP_0NOTEQUAL
      \<Longrightarrow> Q (op_unary rm oc)"
    and "oc = OP_ADD \<or> oc = OP_SUB \<or> oc = OP_BOOLAND \<or> oc = OP_BOOLOR \<or> oc = OP_NUMEQUAL
      \<or> oc = OP_NUMEQUALVERIFY \<or> oc = OP_NUMNOTEQUAL \<or> oc = OP_LESSTHAN \<or> oc = OP_GREATERTHAN
      \<or> oc = OP_LESSTHANOREQUAL \<or> oc = OP_GREATERTHANOREQUAL \<or> oc = OP_MIN \<or> oc = OP_MAX
      \<Longrightarrow> Q (op_binary rm oc)"
    and "Q (op_within rm)"
  shows "Q f"
  using stack_arm_rel [of oc C "\<lambda>f _. Q f" rm rm] assms by simp

section \<open>No arm panics\<close>

lemma no_panic_num [simp]: "no_panic (num rm v)"
  by (simp add: num_def)

lemma num_bound: "num rm v = Ok n \<Longrightarrow> \<bar>n\<bar> < 2 ^ 31"
  by (auto simp: num_def map_err_eq dest: from_bytes_default_bound)

lemma no_panic_unary_result:
  assumes "\<bar>n\<bar> < 2 ^ 31"
    and "oc = OP_1ADD \<or> oc = OP_1SUB \<or> oc = OP_NEGATE \<or> oc = OP_ABS \<or> oc = OP_NOT \<or> oc = OP_0NOTEQUAL"
  shows "no_panic (unary_result oc n)"
proof -
  have "in_i64 (n + 1)" "in_i64 (n - 1)" "n \<noteq> - (2 ^ 63)"
    using assms(1) by (auto intro!: small_in_i64)
  then show ?thesis using assms(2) by (auto simp: unary_result_def num_add_def num_sub_def negate_def)
qed

lemma no_panic_binary_result:
  assumes "\<bar>a\<bar> < 2 ^ 31" "\<bar>b\<bar> < 2 ^ 31"
    and "oc = OP_ADD \<or> oc = OP_SUB \<or> oc = OP_BOOLAND \<or> oc = OP_BOOLOR \<or> oc = OP_NUMEQUAL
      \<or> oc = OP_NUMEQUALVERIFY \<or> oc = OP_NUMNOTEQUAL \<or> oc = OP_LESSTHAN \<or> oc = OP_GREATERTHAN
      \<or> oc = OP_LESSTHANOREQUAL \<or> oc = OP_GREATERTHANOREQUAL \<or> oc = OP_MIN \<or> oc = OP_MAX"
  shows "no_panic (binary_result oc a b)"
proof -
  have "in_i64 (a + b)" "in_i64 (a - b)"
    using assms(1,2) by (auto intro!: small_in_i64)
  then show ?thesis using assms(3) unfolding binary_result_def num_add_def num_sub_def
    by (elim disjE) simp_all
qed

lemmas stack_op_defs = op_num_def op_verify_def op_2drop_def op_2dup_def op_3dup_def op_2over_def
  op_2rot_def op_2swap_def op_ifdup_def op_depth_def op_drop_def op_dup_def op_nip_def op_over_def
  op_rot_def op_swap_def op_tuck_def op_size_def op_equal_def op_ripemd160_def op_sha1_def
  op_sha256_def op_hash160_def op_hash256_def

lemma no_panic_stack_arm:
  assumes "stack_arm C rm oc = Some f"
  shows "no_panic (f s)"
proof (rule stack_arm_cases [OF assms, where Q = "\<lambda>f. no_panic (f s)"])
  show "no_panic (op_pick_roll rm oc s)"
    unfolding op_pick_roll_def Let_def by (auto simp del: One_nat_def)
  show "no_panic (op_unary rm oc s)"
    if "oc = OP_1ADD \<or> oc = OP_1SUB \<or> oc = OP_NEGATE \<or> oc = OP_ABS \<or> oc = OP_NOT \<or> oc = OP_0NOTEQUAL"
    using no_panic_unary_result [OF num_bound that]
    unfolding op_unary_def by (auto intro!: no_panic_rbind split: list.split)
  show "no_panic (op_binary rm oc s)"
    if "oc = OP_ADD \<or> oc = OP_SUB \<or> oc = OP_BOOLAND \<or> oc = OP_BOOLOR \<or> oc = OP_NUMEQUAL
      \<or> oc = OP_NUMEQUALVERIFY \<or> oc = OP_NUMNOTEQUAL \<or> oc = OP_LESSTHAN \<or> oc = OP_GREATERTHAN
      \<or> oc = OP_LESSTHANOREQUAL \<or> oc = OP_GREATERTHANOREQUAL \<or> oc = OP_MIN \<or> oc = OP_MAX"
    using no_panic_binary_result [OF num_bound num_bound that]
    unfolding op_binary_def Let_def by (auto intro!: no_panic_rbind split: list.split)
  show "no_panic (op_within rm s)"
    unfolding op_within_def by (auto intro!: no_panic_rbind split: list.split)
qed (auto simp: stack_op_defs Let_def split: list.split)


section \<open>Element sizes\<close>

lemma length_abs_bytes: "length (abs_bytes w) \<le> 8"
proof (cases "w = 0")
  case False
  then obtain xs b where xb: "abs_bytes w = xs @ [b]" by (metis abs_bytes_pos list.discI rev_exhaust)
  have b: "1 \<le> unat b" using last_abs_bytes [OF False] unfolding xb last_snoc by linarith
  have "256 ^ length xs * 1 \<le> 256 ^ length xs * unat b" using b by (rule mult_le_mono2)
  also have "\<dots> \<le> le_nat (abs_bytes w)" by (simp add: xb le_nat_append)
  also have "\<dots> = unat w" by (rule le_nat_abs_bytes)
  also have "\<dots> < 2 ^ 64" using unsigned_less [of w, where ?'a = nat] by simp
  finally have "(2 :: nat) ^ (8 * length xs) < 2 ^ 64" by (simp add: pow256)
  then have "8 * length xs < 64" by (rule power_less_imp_less_exp [rotated]) simp
  then show ?thesis by (simp add: xb)
qed simp

lemma length_serialize_le [simp]: "length (serialize_i64 v) \<le> 9"
proof -
  let ?a = "if v < 0 then NOT (word_of_int v :: u64) + 1 else word_of_int v"
  show ?thesis using length_abs_bytes [of ?a] unfolding serialize_i64_def Let_def by auto
qed

definition small :: "stack \<Rightarrow> bool" where
  "small s \<longleftrightarrow> (\<forall>x \<in> set s. length x \<le> MAX_SCRIPT_ELEMENT_SIZE)"

lemma small_simps [simp]:
  "small []" "small (x # s) \<longleftrightarrow> length x \<le> MAX_SCRIPT_ELEMENT_SIZE \<and> small s"
  "small (s @ t) \<longleftrightarrow> small s \<and> small t" "small (rev s) = small s"
  by (auto simp: small_def)

lemma small_serialize [simp]: "length (serialize_i64 v) \<le> MAX_SCRIPT_ELEMENT_SIZE"
  using length_serialize_le [of v] by (simp add: MAX_SCRIPT_ELEMENT_SIZE_def del: length_serialize_le)

lemma small_stack_bool [simp]: "length (stack_bool b) \<le> MAX_SCRIPT_ELEMENT_SIZE"
  by (simp add: stack_bool_def STACK_TRUE_def STACK_FALSE_def MAX_SCRIPT_ELEMENT_SIZE_def)

lemma small_digest [simp]: "20 \<le> MAX_SCRIPT_ELEMENT_SIZE" "32 \<le> MAX_SCRIPT_ELEMENT_SIZE"
  by (simp_all add: MAX_SCRIPT_ELEMENT_SIZE_def)

lemma small_take_drop: "small s \<Longrightarrow> small (take n s)" "small s \<Longrightarrow> small (drop n s)"
  "small s \<Longrightarrow> n < length s \<Longrightarrow> length (s ! n) \<le> MAX_SCRIPT_ELEMENT_SIZE" "small s \<Longrightarrow> small (tl s)"
  by (auto simp: small_def dest: in_set_takeD in_set_dropD list.set_sel(2)) (metis list.set_sel(2) tl_Nil)

lemma small_stack_arm:
  assumes "stack_arm C rm oc = Some f" "digest_sizes C" "small s" "f s = Ok s'"
  shows "small s'"
proof -
  have "f s = Ok s' \<longrightarrow> small s'"
  proof (rule stack_arm_cases [OF assms(1), where Q = "\<lambda>f. f s = Ok s' \<longrightarrow> small s'"])
    show "op_pick_roll rm oc s = Ok s' \<longrightarrow> small s'"
      using assms(3) unfolding op_pick_roll_def Let_def
      by (auto simp: rbind_eq_Ok small_take_drop simp del: One_nat_def split: if_splits)
    show "op_unary rm oc s = Ok s' \<longrightarrow> small s'"
      using assms(3) unfolding op_unary_def by (auto simp: rbind_eq_Ok split: list.splits)
    show "op_binary rm oc s = Ok s' \<longrightarrow> small s'"
      using assms(3) unfolding op_binary_def Let_def
      by (auto simp: rbind_eq_Ok split: list.splits if_splits)
    show "op_within rm s = Ok s' \<longrightarrow> small s'"
      using assms(3) unfolding op_within_def by (auto simp: rbind_eq_Ok split: list.splits)
  qed (use assms(2,3) in \<open>auto simp: stack_op_defs Let_def split: list.splits if_splits\<close>)
  then show ?thesis using assms(4) by blast
qed

section \<open>Relaxing minimal encodings\<close>

lemma num_relax: "num rm v = Ok n \<Longrightarrow> (rm' \<longrightarrow> rm) \<Longrightarrow> num rm' v = Ok n"
  unfolding num_def map_err_eq from_bytes_default_def
  by (cases rm; cases rm') (auto intro: from_bytes_relax)

lemma stack_arm_relax:
  assumes "rm' \<longrightarrow> rm" "stack_arm C rm oc = Some f"
  obtains f' where "stack_arm C rm' oc = Some f'" "\<And>s s'. f s = Ok s' \<Longrightarrow> f' s = Ok s'"
proof -
  note relax = num_relax [OF _ assms(1)]
  let ?Q = "\<lambda>f f' :: stack \<Rightarrow> stack script_result. \<forall>s s'. f s = Ok s' \<longrightarrow> f' s = Ok s'"
  have "rel_option ?Q (stack_arm C rm oc) (stack_arm C rm' oc)"
  proof (rule stack_arm_rel)
    show "?Q (op_pick_roll rm oc) (op_pick_roll rm' oc)"
      unfolding op_pick_roll_def by (auto simp: rbind_eq_Ok dest: relax split: if_splits)
    show "?Q (op_unary rm oc) (op_unary rm' oc)"
      unfolding op_unary_def by (auto simp: rbind_eq_Ok dest: relax split: list.splits)
    show "?Q (op_binary rm oc) (op_binary rm' oc)"
      unfolding op_binary_def by (auto simp: rbind_eq_Ok dest!: relax split: list.splits)
    show "?Q (op_within rm) (op_within rm')"
      unfolding op_within_def by (auto simp: rbind_eq_Ok dest!: relax split: list.splits)
  qed simp
  then show thesis using assms(2) that by (cases "stack_arm C rm' oc") auto
qed

end
