(* ===== verification/Eval_Safety.thy ===== *)
theory Eval_Safety
  imports Eval_Arms
begin

text \<open>
  The interpreter never panics: no index is out of range, no counter overflows and no assertion
  fails, for any script and stack, given a checker that answers (\<open>checker_contract\<close>), a script of at
  most \<open>2\<^sup>3\<^sup>2 - 1\<close> bytes and, for tapscript, an initialised validation weight.  The invariant \<open>safe\<close>
  bounds the counters of the loop by the position in the script.
\<close>

section \<open>The validation weight\<close>

definition weight_ok :: "SigVersion \<Rightarrow> ExecData \<Rightarrow> bool" where
  "weight_ok sv ed \<longleftrightarrow>
     (sv = Tapscript \<longrightarrow> validation_weight_left_init ed \<and> 0 \<le> validation_weight_left ed
        \<and> in_i64 (validation_weight_left ed))"

lemma eval_checksig_weight:
  assumes "eval_checksig cx sig pk code ed = Ok (b, ed')" "weight_ok (cx_sig_version cx) ed"
  shows "weight_ok (cx_sig_version cx) ed'"
  using assms unfolding eval_checksig_def eval_checksig_tapscript_def Let_def weight_ok_def
  by (auto simp: rbind_eq_Ok not_less split: SigVersion.splits if_splits)

section \<open>Multisignature indices stay in range\<close>

lemma stacktop_Ok [simp]: "stacktop s i = Ok v \<longleftrightarrow> 0 < i \<and> i \<le> length s \<and> v = s ! (i - 1)"
  by (auto simp: stacktop_def)

lemma no_panic_stacktop [simp]: "no_panic (stacktop s i) \<longleftrightarrow> 0 < i \<and> i \<le> length s"
  by (simp add: stacktop_def)

text \<open>One round of the matching loop, and its end.\<close>

lemma multisig_loop_stop: "\<not> (ok \<and> 0 < ns) \<Longrightarrow> multisig_loop cx code s ok ns nk isig ikey = Ok ok"
  unfolding multisig_loop.simps [of cx code s ok] by (simp only: if_False)

lemma multisig_loop_step:
  "ok \<and> 0 < ns \<Longrightarrow> multisig_loop cx code s ok ns nk isig ikey =
     rbind (stacktop s isig) (\<lambda>sig. rbind (stacktop s ikey) (\<lambda>pk.
     rbind (check_signature_encoding (cx_crypto cx) sig (cx_flags cx)) (\<lambda>_.
     rbind (check_pubkey_encoding pk (cx_flags cx) (cx_sig_version cx)) (\<lambda>_.
     rbind (check_ecdsa_signature (cx_checker cx) sig pk code (cx_sig_version cx)) (\<lambda>b.
       multisig_loop cx code s (\<not> nk - 1 < (if b then ns - 1 else ns)) (if b then ns - 1 else ns) (nk - 1)
         (if b then isig + 1 else isig) (ikey + 1))))))"
  unfolding multisig_loop.simps [of cx code s ok] Let_def by (simp only: if_True simp_thms)

lemma no_panic_multisig_delete:
  "0 < pos \<Longrightarrow> pos + n \<le> Suc (length s) \<Longrightarrow> no_panic (multisig_delete f s pos n code)"
  by (induction f s pos n code rule: multisig_delete.induct)
    (auto intro!: no_panic_rbind split: prod.splits)

lemma multisig_cleanup_Ok:
  "n \<le> length s \<Longrightarrow> multisig_cleanup f ok n k s = Ok s' \<Longrightarrow> s' = drop n s"
  by (induction f ok n k s rule: multisig_cleanup.induct)
    (auto simp: drop_Suc split: if_splits list.splits)

lemma no_panic_multisig_cleanup: "n \<le> length s \<Longrightarrow> no_panic (multisig_cleanup f ok n k s)"
  by (induction f ok n k s rule: multisig_cleanup.induct) (auto split: list.splits)

lemma no_panic_multisig_finish [simp]: "no_panic (multisig_finish cx oc ok s)"
  by (auto simp: multisig_finish_def split: list.splits)

section \<open>The invariant\<close>

text \<open>
  Between two rounds every counter is at most \<open>pc\<close>; inside a round, after the instruction has been
  read, the two that a round can increment are below it.
\<close>

definition safe_ctx :: "eval_ctx \<Rightarrow> bool" where
  "safe_ctx cx \<longleftrightarrow> cx_sig_version cx \<noteq> Taproot \<and> length (cx_script cx) \<le> u32_max"

definition safe :: "eval_ctx \<Rightarrow> eval_state \<Rightarrow> bool" where
  "safe cx st \<longleftrightarrow>
     st_pc st \<le> length (cx_script cx) \<and> st_pbegincodehash st \<le> st_pc st \<and> st_opcode_pos st \<le> st_pc st
     \<and> stack_size (st_vf_exec st) \<le> st_pc st \<and> weight_ok (cx_sig_version cx) (st_exec_data st)"

definition safe_mid :: "eval_ctx \<Rightarrow> eval_state \<Rightarrow> bool" where
  "safe_mid cx st \<longleftrightarrow>
     st_pc st \<le> length (cx_script cx) \<and> st_pbegincodehash st \<le> st_pc st \<and> st_opcode_pos st < st_pc st
     \<and> stack_size (st_vf_exec st) < st_pc st \<and> weight_ok (cx_sig_version cx) (st_exec_data st)"

definition keeps_weight :: "eval_ctx \<Rightarrow> eval_state \<Rightarrow> eval_state script_result \<Rightarrow> bool" where
  "keeps_weight cx st r \<longleftrightarrow>
     (\<forall>st'. r = Ok st' \<longrightarrow> weight_ok (cx_sig_version cx) (st_exec_data st)
        \<longrightarrow> weight_ok (cx_sig_version cx) (st_exec_data st'))"

lemma keeps_weight_same: "(\<And>st'. r = Ok st' \<Longrightarrow> st_exec_data st' = st_exec_data st) \<Longrightarrow> keeps_weight cx st r"
  by (auto simp: keeps_weight_def)

lemma exec_opcode_weight: "keeps_weight cx st (exec_opcode cx f oc st)"
proof (rule exec_opcode_rule)
  show "keeps_weight cx st (on_stack g st)" for g
    by (rule keeps_weight_same) (auto simp: on_stack_def rbind_eq_Ok)
  show "keeps_weight cx st (op_checksig cx oc st)"
    by (auto simp: keeps_weight_def op_checksig_def rbind_eq_Ok dest: eval_checksig_weight
        split: list.splits if_splits)
  show "keeps_weight cx st (op_checksigadd cx st)"
    by (auto simp: keeps_weight_def op_checksigadd_def rbind_eq_Ok dest: eval_checksig_weight
        split: list.splits if_splits)
  show "keeps_weight cx st (op_checkmultisig cx oc st)"
    by (rule keeps_weight_same) (auto elim: op_checkmultisig_Ok)
  show "keeps_weight cx st (op_if cx f oc st)"
    by (rule keeps_weight_same) (auto simp: op_if_def Let_def rbind_eq_Ok split: list.splits if_splits)
  show "keeps_weight cx st (op_codeseparator st)"
    by (auto simp: keeps_weight_def op_codeseparator_def weight_ok_def)
qed (rule keeps_weight_same; auto simp: op_else_def op_endif_def op_toaltstack_def op_fromaltstack_def
      rbind_eq_Ok dest!: frame_locks split: list.splits if_splits)+

lemma exec_instruction_weight:
  "exec_instruction cx f oc d st = Ok st' \<Longrightarrow> weight_ok (cx_sig_version cx) (st_exec_data st)
     \<Longrightarrow> weight_ok (cx_sig_version cx) (st_exec_data st')"
  using exec_opcode_weight [of cx st f oc]
  by (auto simp: exec_instruction_def keeps_weight_def split: if_splits)

lemma safe_step:
  assumes "safe cx st" "eval_step cx st = Ok st'"
  shows "safe cx st'"
  using assms(2)
proof (rule eval_step_Ok)
  fix oc d pc n st1
  let ?st = "st\<lparr>st_pc := pc, st_n_op_count := n\<rparr>"
  assume r: "read_instruction (cx_script cx) (st_pc st) = Some (oc, d, pc)"
    and e: "exec_instruction cx (all_true (st_vf_exec st)) oc d ?st = Ok st1"
    and st': "st' = st1\<lparr>st_opcode_pos := st_opcode_pos st1 + 1\<rparr>"
  have "weight_ok (cx_sig_version cx) (st_exec_data st1)"
    using exec_instruction_weight [OF e] assms(1) by (simp add: safe_def)
  then show ?thesis
    using read_instruction_bounds [OF r] frame_exec_instruction [OF e] assms(1)
    by (auto simp: st' safe_def frame_def)
qed

section \<open>No panic\<close>

context checker_contract
begin

lemma checksig_no_panic:
  assumes "ready c" "cx_checker cx = mk c" "cx_sig_version cx \<noteq> Taproot" "weight_ok (cx_sig_version cx) ed"
  shows "no_panic (eval_checksig cx sig pk code ed)"
proof -
  have pre: "no_panic (eval_checksig_pre_tapscript cx sig pk code)"
    unfolding eval_checksig_pre_tapscript_def assms(2)
    by (auto intro!: no_panic_rbind checker_no_panic assms(1) split: prod.split)
  have tap: "no_panic (eval_checksig_tapscript cx sig pk ed)" if "weight_ok Tapscript ed"
    using that unfolding eval_checksig_tapscript_def Let_def assms(2) weight_ok_def
    by (auto intro!: no_panic_rbind schnorr_no_panic assms(1) simp: in_i64_def limit_defs)
  show ?thesis
    using pre tap assms(3,4) unfolding eval_checksig_def
    by (auto intro!: no_panic_rbind split: SigVersion.split)
qed

lemma multisig_loop_no_panic:
  assumes "ready c" "cx_checker cx = mk c"
    and "0 < isig" "int isig + ns \<le> int (length s) + 1"
    and "0 < ikey" "int ikey + nk \<le> int (length s) + 1" "ok \<Longrightarrow> ns \<le> nk"
  shows "no_panic (multisig_loop cx code s ok ns nk isig ikey)"
  using assms
proof (induction cx code s ok ns nk isig ikey rule: multisig_loop.induct)
  case (1 cx code s ok ns nk isig ikey)
  show ?case
  proof (cases "ok \<and> ns > 0")
    case True
    show ?thesis
      using True "1.prems"
      by (subst multisig_loop.simps)
        (auto intro!: no_panic_rbind checker_no_panic "1.IH" simp: Let_def)
  next
    case False
    then show ?thesis by (auto simp: multisig_loop.simps [of cx code s ok])
  qed
qed

lemma multisig_check_no_panic:
  assumes "ready c" "cx_checker cx = mk c" "st_pbegincodehash st \<le> length (cx_script cx)"
    and "0 \<le> ns" "ns \<le> nk" "nat nk + nat ns + 3 \<le> length (st_stack st)"
  shows "no_panic (multisig_check cx oc st nk ns (nat nk + 3) (nat nk + nat ns + 3))"
proof -
  have "no_panic (multisig_loop cx code (st_stack st) True ns nk (nat nk + 3) 2)" for code
    using assms by (intro multisig_loop_no_panic) auto
  then show ?thesis
    using assms unfolding multisig_check_def Let_def
    by (auto intro!: no_panic_rbind no_panic_multisig_delete no_panic_multisig_cleanup)
qed

lemma checkmultisig_no_panic:
  assumes "ready c" "cx_checker cx = mk c" "st_pbegincodehash st \<le> length (cx_script cx)"
  shows "no_panic (op_checkmultisig cx oc st)"
proof -
  have *: "no_panic (multisig_check cx oc st nk ns (Suc (Suc (Suc (nat nk)))) (Suc (Suc (Suc (nat nk + nat ns)))))"
    if "0 \<le> ns" "ns \<le> nk" "Suc (Suc (Suc (nat nk + nat ns))) \<le> length (st_stack st)" for nk ns
    using multisig_check_no_panic [OF assms, of ns nk oc] that by (simp add: eval_nat_numeral)
  show ?thesis
    unfolding op_checkmultisig_def Let_def
    by (auto intro!: no_panic_rbind * intro: Suc_leI simp: not_less)
qed

lemma exec_opcode_no_panic:
  assumes "ready c" "cx_checker cx = mk c" "safe_ctx cx" "safe_mid cx st"
  shows "no_panic (exec_opcode cx f oc st)"
proof -
  note checks = checker_no_panic [OF assms(1)] checksig_no_panic [OF assms(1,2)]
  have pb: "st_pbegincodehash st \<le> length (cx_script cx)" and sv: "cx_sig_version cx \<noteq> Taproot"
    and vf: "stack_size (st_vf_exec st) < u32_max" and w: "weight_ok (cx_sig_version cx) (st_exec_data st)"
    using assms(3,4) by (auto simp: safe_ctx_def safe_mid_def)
  show ?thesis
  proof (rule exec_opcode_rule)
    show "no_panic (on_stack g st)"
      if "stack_arm (cx_crypto cx) (require_minimal cx) oc = Some g" for g
      unfolding on_stack_def by (intro no_panic_rbind no_panic_stack_arm [OF that]) simp
    show "no_panic (op_checklocktimeverify cx st)" "no_panic (op_checksequenceverify cx st)"
      unfolding op_checklocktimeverify_def op_checksequenceverify_def assms(2)
      by (auto intro!: no_panic_rbind checks split: list.split)
    show "no_panic (op_if cx f oc st)"
      unfolding op_if_def Let_def
      by (auto intro!: no_panic_rbind no_panic_push_back vf split: list.split)
    show "no_panic (op_else st)" "no_panic (op_endif st)"
      unfolding op_else_def op_endif_def by (auto intro!: no_panic_rbind no_panic_pop_toggle)
    show "no_panic (op_checksig cx oc st)"
      unfolding op_checksig_def using pb sv w
      by (auto intro!: no_panic_rbind checks split: list.split)
    show "no_panic (op_checksigadd cx st)"
      unfolding op_checksigadd_def num_add_def using pb sv w
      by (auto intro!: no_panic_rbind checks small_in_i64 dest!: num_bound split: list.split)
    show "no_panic (op_checkmultisig cx oc st)"
      by (rule checkmultisig_no_panic [OF assms(1,2) pb])
  qed (auto simp: op_upgradable_nop_def op_toaltstack_def op_fromaltstack_def op_codeseparator_def
        split: list.split)
qed

lemma eval_step_no_panic:
  assumes "ready c" "cx_checker cx = mk c" "safe_ctx cx" "safe cx st"
  shows "no_panic (eval_step cx st)"
proof -
  have mid: "safe_mid cx (st\<lparr>st_pc := pc, st_n_op_count := n\<rparr>)"
    if "read_instruction (cx_script cx) (st_pc st) = Some (oc, d, pc)" for oc d pc n
    using read_instruction_bounds [OF that] assms(4) by (auto simp: safe_def safe_mid_def)
  have instr: "no_panic (exec_instruction cx f oc d (st\<lparr>st_pc := pc, st_n_op_count := n\<rparr>))"
    if "read_instruction (cx_script cx) (st_pc st) = Some (oc, d, pc)" for f oc d pc n
    unfolding exec_instruction_def using exec_opcode_no_panic [OF assms(1-3) mid [OF that]] by simp
  have pos: "st_opcode_pos st1 + 1 \<le> u32_max"
    if "read_instruction (cx_script cx) (st_pc st) = Some (oc, d, pc)"
      "exec_instruction cx f oc d (st\<lparr>st_pc := pc, st_n_op_count := n\<rparr>) = Ok st1" for f oc d pc n st1
    using read_instruction_bounds [OF that(1)] frame_exec_instruction [OF that(2)] assms(3,4)
    by (auto simp: frame_def safe_def safe_ctx_def)
  show ?thesis
  proof (cases "read_instruction (cx_script cx) (st_pc st)")
    case None
    then show ?thesis by (simp add: eval_step_def Let_def)
  next
    case (Some r)
    obtain oc d pc where r: "r = (oc, d, pc)" by (rule prod_cases3)
    have checked: "no_panic (checked_u32_add (st_opcode_pos st1) 1)"
      if "exec_instruction cx f oc d (st\<lparr>st_pc := pc, st_n_op_count := n\<rparr>) = Ok st1" for f n st1
      using pos [OF Some [unfolded r] that] by simp
    show ?thesis
      unfolding eval_step_def Let_def Some r ok_or_simps rbind_simps prod.case
      by (intro no_panic_if no_panic_simps no_panic_rbind instr [OF Some [unfolded r]] checked)
  qed
qed

lemma eval_loop_no_panic:
  assumes "ready c" "cx_checker cx = mk c" "safe_ctx cx" "safe cx st"
  shows "no_panic (eval_loop cx st)"
  using assms
proof (induction cx st rule: eval_loop.induct)
  case (1 cx st)
  have "no_panic (eval_loop cx st')"
    if "st_pc st < length (cx_script cx)" "eval_step cx st = Ok st'" for st'
    using "1.IH" [OF that] "1.prems" safe_step [OF "1.prems"(4) that(2)] by blast
  then show ?case
    using eval_step_no_panic [OF "1.prems"]
    by (auto simp: eval_loop.simps [of cx st] intro!: no_panic_rbind)
qed

lemma eval_script_no_panic:
  assumes "ready c" "sv \<noteq> Taproot" "length script \<le> u32_max" "weight_ok sv ed"
  shows "no_panic (eval_script C stack script flags (mk c) sv ed)"
proof -
  let ?cx = "\<lparr>cx_crypto = C, cx_script = script, cx_flags = flags, cx_checker = mk c, cx_sig_version = sv\<rparr>"
  have "no_panic (eval_loop ?cx (eval_init stack ed))"
    using assms by (intro eval_loop_no_panic [of c])
      (auto simp: safe_ctx_def safe_def eval_init_def cs_new_def weight_ok_def)
  then show ?thesis
    using assms(2) unfolding eval_script_def by (auto intro!: no_panic_rbind)
qed

end

end
