(* ===== verification/Verify_Safety.thy ===== *)
theory Verify_Safety
  imports Verify Eval_Safety
begin

text \<open>
  Script verification never panics, for any checker that keeps \<open>checker_contract\<close>.  The assertion in
  the pay-to-script-hash branch holds because a script of that form cannot succeed on an empty
  stack; the weight assertion of tapscript holds because the witness branch sets the budget first.
\<close>

section \<open>Library facts\<close>

text \<open>
  A witness whose elements fit a 32-bit length and whose size fits the weight budget; a transaction
  within the block size limit is far below both.
\<close>

definition witness_fits :: "crypto \<Rightarrow> bytes list \<Rightarrow> bool" where
  "witness_fits C wit \<longleftrightarrow>
     (\<forall>elem \<in> set wit. length elem \<le> u32_max) \<and> in_i64 (int (witness_serialized_size C wit) + VALIDATION_WEIGHT_OFFSET)"

lemma scan_no_panic: "scan_for_op_success script f = Some r \<Longrightarrow> no_panic r"
proof -
  have "op_success_scan script f pc = Some r \<Longrightarrow> no_panic r" for pc
  proof (induction script f pc rule: op_success_scan.induct)
    case (1 script f pc)
    then show ?case
      by (auto simp: op_success_scan.simps [of script f pc] Let_def split: if_splits)
  qed
  then show "scan_for_op_success script f = Some r \<Longrightarrow> no_panic r"
    by (simp add: scan_for_op_success_def)
qed

lemma verify_taproot_commitment_no_panic:
  "33 \<le> length control \<Longrightarrow> no_panic (verify_taproot_commitment C control prog leaf)"
  by (auto simp: verify_taproot_commitment_def Let_def split: option.split)

lemma take_annex_facts:
  assumes "take_annex C wit = (stack, ed)" "wit \<noteq> []"
  shows "stack \<noteq> []" "set stack \<subseteq> set wit"
proof -
  have "butlast wit \<noteq> []" if "2 \<le> length wit" using that by (cases wit rule: rev_cases) auto
  then show "stack \<noteq> []" "set stack \<subseteq> set wit"
    using assms by (auto simp: take_annex_def Let_def split: if_splits dest: in_set_butlastD)
qed

lemma two_from_end:
  assumes "2 \<le> length xs"
  obtains ys a b where "xs = ys @ [a, b]"
proof -
  obtain zs b where z: "xs = zs @ [b]" using assms by (cases xs rule: rev_cases) auto
  with assms obtain ys a where "zs = ys @ [a]" by (cases zs rule: rev_cases) auto
  with z show thesis using that by simp
qed

lemma eval_p2sh_empty:
  assumes "is_p2sh spk"
  shows "eval_script C [] spk f chk Base ed = Err InvalidStackOperation"
proof -
  have s: "length spk = 23" "spk ! 0 = 0xa9" using assms by (auto simp: is_p2sh_def)
  then show ?thesis
    by (simp add: exec_simps op_hash160_def)
qed

context checker_contract
begin

lemma eval_script_legacy_no_panic:
  assumes "ready c" "legacy_limits sv"
  shows "no_panic (eval_script C stack script f (mk c) sv ed)"
proof (cases "length script > MAX_SCRIPT_SIZE")
  case True
  then show ?thesis using assms(2) by (auto simp: eval_script_def legacy_limits_def)
next
  case False
  then have "length script \<le> u32_max" by (simp add: MAX_SCRIPT_SIZE_def u32_max_def)
  then show ?thesis
    using assms by (intro eval_script_no_panic) (auto simp: legacy_limits_def weight_ok_def)
qed

lemma run_witness_script_no_panic:
  assumes "ready c" "legacy_limits sv \<or> sv = Tapscript \<and> length script \<le> u32_max \<and> weight_ok Tapscript ed"
  shows "no_panic (execute_witness_script C stack script f sv (mk c) ed)"
proof -
  have "no_panic (eval_script C s script f (mk c) sv ed)" for s
    using assms(2) eval_script_legacy_no_panic [OF assms(1)] eval_script_no_panic [OF assms(1), of Tapscript]
    by auto
  then have "no_panic (run_witness_script C stack script f sv (mk c) ed)"
    unfolding run_witness_script_def by (auto intro!: no_panic_rbind)
  then show ?thesis
    unfolding execute_witness_script_def by (auto dest: scan_no_panic split: option.split)
qed

lemma taproot_no_panic:
  assumes "ready c" "witness_fits C wit" "length prog = 32"
  shows "no_panic (verify_taproot C wit prog f (mk c))"
proof -
  have path: "no_panic (verify_taproot_script_path C wit stack prog f (mk c) ed)"
    if "2 \<le> length stack" "set stack \<subseteq> set wit" for stack ed
  proof -
    have "last (butlast stack) \<in> set wit"
      using that by (elim two_from_end) (auto simp: butlast_append)
    then have "length (last (butlast stack)) \<le> u32_max" using assms(2) by (auto simp: witness_fits_def)
    moreover have "in_i64 (int (witness_serialized_size C wit) + VALIDATION_WEIGHT_OFFSET)"
      using assms(2) by (simp add: witness_fits_def)
    ultimately show ?thesis
      using that(1) unfolding verify_taproot_script_path_def Let_def
      by (auto intro!: no_panic_rbind verify_taproot_commitment_no_panic run_witness_script_no_panic assms(1)
          simp: weight_ok_def VALIDATION_WEIGHT_OFFSET_def TAPROOT_CONTROL_BASE_SIZE_def)
  qed
  show ?thesis
  proof (cases "take_annex C wit")
    case (Pair stack ed)
    have "2 \<le> length stack \<or> length stack = 1" "set stack \<subseteq> set wit" if "wit \<noteq> []"
      using take_annex_facts [OF Pair that] by (cases stack; cases "tl stack"; auto)+
    then show ?thesis
      unfolding verify_taproot_def Pair prod.case
      by (auto intro!: no_panic_rbind path schnorr_no_panic assms(1) simp: assms(3))
  qed
qed

lemma witness_program_no_panic:
  assumes "ready c" "witness_fits C wit"
  shows "no_panic (verify_witness_program C wit v prog f (mk c) p)"
proof -
  have "no_panic (verify_witness_v0 C wit prog f (mk c))"
    unfolding verify_witness_v0_def Let_def
    by (auto intro!: run_witness_script_no_panic assms(1) simp: legacy_limits_def)
  then show ?thesis
    unfolding verify_witness_program_def
    by (auto intro!: taproot_no_panic assms simp: WITNESS_V1_TAPROOT_SIZE_def)
qed

lemma verify_script_no_panic:
  assumes "ready c" "witness_fits C wit"
  shows "no_panic (verify_script C sig spk wit f (mk c))"
proof -
  note eval = eval_script_legacy_no_panic [OF assms(1), of Base]
  note prog = witness_program_no_panic [OF assms]
  have bare: "no_panic (verify_bare_witness C sig spk wit f (mk c) s)" for s
    unfolding verify_bare_witness_def by (auto intro!: no_panic_rbind prog split: option.split)
  have true: "no_panic (check_true s)" "no_panic (check_clean f s)" for s
    by (auto simp: check_true_def check_clean_def split: list.split)
  have p2sh: "no_panic (verify_p2sh C sig wit f (mk c) ed (Some s) had)" if "s \<noteq> []" for ed s had
    using that unfolding verify_p2sh_def verify_p2sh_witness_def
    by (auto intro!: no_panic_rbind eval prog true simp: legacy_limits_def split: list.split option.split)
  have ne: "s \<noteq> []" if "is_p2sh spk" "eval_script C s spk f (mk c) Base ed = Ok r" for s ed r
    using eval_p2sh_empty [OF that(1)] that(2) by force
  show ?thesis
    unfolding verify_script_def Let_def
    by (auto intro!: no_panic_rbind eval bare true p2sh simp: legacy_limits_def dest: ne)
qed

end

end
