(* ===== verification/Sighash_Facts.thy ===== *)
theory Sighash_Facts
  imports Sighash Verify_Safety
begin

text \<open>
  The transaction signature checker: it keeps the contract the interpreter relies on, its caches
  never change an answer, and the removal of code separators and the sequence lock follow their
  reference definitions.
\<close>

section \<open>The checker keeps the contract\<close>

definition checker_ready :: "crypto \<times> tx_codec \<times> TxSignatureChecker \<Rightarrow> bool" where
  "checker_ready c = (case c of (C, K, tc) \<Rightarrow>
     signing_data_ends_with_type K \<and> tc_input_index tc < length (tx_input (tc_tx tc)))"

lemma signing_dataD:
  "signing_data_ends_with_type K \<Longrightarrow> segwit_v0_signing_data K tx i code amount ty = Some buf \<Longrightarrow> \<not> length buf < 4"
  by (simp add: signing_data_ends_with_type_def not_less)

lemma ecdsa_sighash_answers:
  "signing_data_ends_with_type K \<Longrightarrow> \<exists>h. ecdsa_sighash C K tc ht code sv = Ok h"
  by (auto simp: ecdsa_sighash_def dest: signing_dataD split: SigVersion.split option.split)

lemma ecdsa_check_answers:
  "signing_data_ends_with_type K \<Longrightarrow> \<exists>b. ecdsa_check C K tc sig pk code sv = Ok b"
  using ecdsa_sighash_answers [of K C tc "last sig" code sv]
  by (auto simp: ecdsa_check_def Let_def split: option.split)

lemma taproot_input_part_answers:
  "tc_input_index tc < length (tx_input (tc_tx tc)) \<Longrightarrow> length (tc_prev_outputs tc) = length (tx_input (tc_tx tc))
    \<Longrightarrow> \<exists>p. taproot_input_part K tc acp = Ok p"
  by (simp add: taproot_input_part_def index_def)

lemma get_tx_hashes_same:
  "get_tx_hashes C K tc = (h, tc') \<Longrightarrow>
     tc_tx tc' = tc_tx tc \<and> tc_input_index tc' = tc_input_index tc \<and> tc_prev_outputs tc' = tc_prev_outputs tc
     \<and> tc_amount tc' = tc_amount tc \<and> tc_single_output_hash tc' = tc_single_output_hash tc"
  by (auto simp: get_tx_hashes_def Let_def split: option.splits)

lemma taproot_sighash_answers:
  assumes "tc_input_index tc < length (tx_input (tc_tx tc))"
  shows "\<exists>h. fst (taproot_sighash C K tc ht sv ed) = Ok h"
proof -
  obtain h tc' where g: "get_tx_hashes C K tc = (h, tc')" by (cases "get_tx_hashes C K tc")
  show ?thesis
    using get_tx_hashes_same [OF g] assms taproot_input_part_answers [of tc' K "anyone_can_pay ht"]
    unfolding taproot_sighash_def Let_def g prod.case
    by (auto split: option.split prod.split result.split)
qed

lemma schnorr_check_no_panic:
  assumes "tc_input_index tc < length (tx_input (tc_tx tc))" "length pk = 32" "sv = Taproot \<or> sv = Tapscript"
  shows "no_panic (fst (schnorr_check C K tc sig pk sv ed))"
proof -
  let ?ht = "schnorr_hash_type sig"
  obtain h t where "taproot_sighash C K tc ?ht sv ed = (Ok h, t)"
    using taproot_sighash_answers [OF assms(1), of C K ?ht sv ed] by (metis prod.collapse)
  then show ?thesis
    using assms(2,3) unfolding schnorr_check_def schnorr_verdict_def
    by (auto split: option.split intro!: no_panic_rbind)
qed

interpretation txc: checker_contract "\<lambda>(C, K, tc). tx_signature_checker C K tc" checker_ready
proof
  fix c sig pk code sv
  assume "checker_ready c"
  then show "\<exists>b. check_ecdsa_signature (case c of (C, K, tc) \<Rightarrow> tx_signature_checker C K tc) sig pk code sv = Ok b"
    by (auto simp: checker_ready_def tx_signature_checker_def ecdsa_check_answers)
next
  fix c sig sv ed and pk :: bytes
  assume "checker_ready c" "length pk = 32" "sv = Taproot \<or> sv = Tapscript"
  then show "no_panic (check_schnorr_signature (case c of (C, K, tc) \<Rightarrow> tx_signature_checker C K tc) sig pk sv ed)"
    by (auto simp: checker_ready_def tx_signature_checker_def schnorr_check_no_panic)
next
  fix c n
  assume "checker_ready c"
  then show "\<exists>b. check_lock_time (case c of (C, K, tc) \<Rightarrow> tx_signature_checker C K tc) n = Ok b"
    "\<exists>b. check_sequence (case c of (C, K, tc) \<Rightarrow> tx_signature_checker C K tc) n = Ok b"
    by (auto simp: checker_ready_def tx_signature_checker_def lock_time_check_def sequence_check_def Let_def index_def)
qed

section \<open>The caches are transparent\<close>

definition coherent :: "crypto \<Rightarrow> tx_codec \<Rightarrow> TxSignatureChecker \<Rightarrow> bool" where
  "coherent C K tc \<longleftrightarrow>
     (\<forall>h. tc_taproot tc = Some h \<longrightarrow> h = TaprootTxHashes_compute C K (tc_tx tc) (tc_prev_outputs tc))
     \<and> (\<forall>h. tc_single_output_hash tc = Some h \<longrightarrow> h = single_output_hash C K (tc_tx tc) (tc_input_index tc))"

definition fresh :: "TxSignatureChecker \<Rightarrow> TxSignatureChecker" where
  "fresh tc = tc\<lparr>tc_taproot := None, tc_single_output_hash := None\<rparr>"

lemma fresh_simps [simp]:
  "tc_tx (fresh tc) = tc_tx tc" "tc_input_index (fresh tc) = tc_input_index tc"
  "tc_amount (fresh tc) = tc_amount tc" "tc_prev_outputs (fresh tc) = tc_prev_outputs tc"
  "tc_taproot (fresh tc) = None" "tc_single_output_hash (fresh tc) = None"
  by (simp_all add: fresh_def)

lemma get_tx_hashes_coherent:
  assumes "coherent C K tc"
  obtains tc' where "get_tx_hashes C K tc = (TaprootTxHashes_compute C K (tc_tx tc) (tc_prev_outputs tc), tc')"
    "coherent C K tc'" "fresh tc' = fresh tc"
  by (rule that [of "snd (get_tx_hashes C K tc)"])
    (use assms in \<open>auto simp: get_tx_hashes_def coherent_def fresh_def Let_def split: option.split\<close>)

lemma get_single_output_coherent:
  assumes "coherent C K tc"
  obtains tc' where "get_single_output C K tc = (single_output_hash C K (tc_tx tc) (tc_input_index tc), tc')"
    "coherent C K tc'" "fresh tc' = fresh tc"
  by (rule that [of "snd (get_single_output C K tc)"])
    (use assms in \<open>auto simp: get_single_output_def coherent_def fresh_def Let_def split: option.split\<close>)


lemma fresh_eq_fields:
  "fresh tc' = fresh tc \<Longrightarrow> tc_tx tc' = tc_tx tc \<and> tc_input_index tc' = tc_input_index tc
     \<and> tc_amount tc' = tc_amount tc \<and> tc_prev_outputs tc' = tc_prev_outputs tc"
  by (metis fresh_simps(1-4))

lemma taproot_input_part_fresh: "fresh tc' = fresh tc \<Longrightarrow> taproot_input_part K tc' acp = taproot_input_part K tc acp"
  by (drule fresh_eq_fields) (simp add: taproot_input_part_def)

text \<open>With a coherent cache the hash is the one of the plain formula, and the cache stays coherent.\<close>

definition taproot_sighash_spec ::
  "crypto \<Rightarrow> tx_codec \<Rightarrow> TxSignatureChecker \<Rightarrow> byte \<Rightarrow> SigVersion \<Rightarrow> ExecData \<Rightarrow> bytes option script_result" where
  "taproot_sighash_spec C K tc ht sv ed =
     (if \<not> defined_taproot_hash_type ht \<or> length (tc_prev_outputs tc) \<noteq> length (tx_input (tc_tx tc)) then Ok None
      else rbind (taproot_input_part K tc (anyone_can_pay ht)) (\<lambda>part.
        let head = taproot_head K (tc_tx tc) (TaprootTxHashes_compute C K (tc_tx tc) (tc_prev_outputs tc)) ht sv ed part;
            tail = taproot_tail K sv ed
        in if taproot_output_type ht = 0x03
           then Ok (map_option (\<lambda>single. tap_sighash K (head @ single @ tail))
                  (single_output_hash C K (tc_tx tc) (tc_input_index tc)))
           else Ok (Some (tap_sighash K (head @ tail)))))"

lemma taproot_sighash_coherent:
  assumes "coherent C K tc"
  obtains tc' where "taproot_sighash C K tc ht sv ed = (taproot_sighash_spec C K tc ht sv ed, tc')"
    "coherent C K tc'" "fresh tc' = fresh tc"
proof -
  obtain tc1 where 1: "get_tx_hashes C K tc = (TaprootTxHashes_compute C K (tc_tx tc) (tc_prev_outputs tc), tc1)"
    "coherent C K tc1" "fresh tc1 = fresh tc"
    by (rule get_tx_hashes_coherent [OF assms])
  obtain tc2 where 2: "get_single_output C K tc1 = (single_output_hash C K (tc_tx tc1) (tc_input_index tc1), tc2)"
    "coherent C K tc2" "fresh tc2 = fresh tc1"
    by (rule get_single_output_coherent [OF 1(2)])
  note same = fresh_eq_fields [OF 1(3)] taproot_input_part_fresh [OF 1(3)]
  show thesis
    by (rule that [of "snd (taproot_sighash C K tc ht sv ed)"])
      (use 1 2 same assms in \<open>auto simp: taproot_sighash_def taproot_sighash_spec_def Let_def
        split: result.split option.split\<close>)
qed

lemma taproot_sighash_spec_fresh:
  assumes "fresh tc' = fresh tc"
  shows "taproot_sighash_spec C K tc' ht sv ed = taproot_sighash_spec C K tc ht sv ed"
proof -
  have e: "tc_tx tc' = tc_tx tc" "tc_input_index tc' = tc_input_index tc" "tc_prev_outputs tc' = tc_prev_outputs tc"
    using fresh_eq_fields [OF assms] by simp_all
  show ?thesis unfolding taproot_sighash_spec_def e taproot_input_part_fresh [OF assms] by (rule refl)
qed

lemma coherent_fresh [simp]: "coherent C K (fresh tc)"
  by (simp add: coherent_def)

lemma schnorr_check_coherent:
  assumes "coherent C K tc" "fresh tc' = fresh tc" "coherent C K tc'"
  shows "fst (schnorr_check C K tc sig pk sv ed) = fst (schnorr_check C K tc' sig pk sv ed)
    \<and> coherent C K (snd (schnorr_check C K tc sig pk sv ed))
    \<and> fresh (snd (schnorr_check C K tc sig pk sv ed)) = fresh tc"
proof -
  have *: "\<exists>t. taproot_sighash C K tc ht sv ed = (taproot_sighash_spec C K tc ht sv ed, t)
      \<and> coherent C K t \<and> fresh t = fresh tc"
    "\<exists>t. taproot_sighash C K tc' ht sv ed = (taproot_sighash_spec C K tc ht sv ed, t)" for ht
    using taproot_sighash_coherent [OF assms(1)] taproot_sighash_coherent [OF assms(3)]
      taproot_sighash_spec_fresh [OF assms(2)] by metis+
  let ?ht = "schnorr_hash_type sig"
  obtain t t' where "taproot_sighash C K tc ?ht sv ed = (taproot_sighash_spec C K tc ?ht sv ed, t)"
    "coherent C K t" "fresh t = fresh tc"
    "taproot_sighash C K tc' ?ht sv ed = (taproot_sighash_spec C K tc ?ht sv ed, t')"
    using * [of ?ht] by blast
  then show ?thesis
    using assms(1) unfolding schnorr_check_def by (auto split: option.split)
qed


text \<open>
  Signature checks of several inputs of one transaction, in any order, all sharing one cache: each
  call takes the cache the previous one left.
\<close>

type_synonym schnorr_call = "nat \<times> nat \<times> bytes \<times> bytes \<times> SigVersion \<times> ExecData"

fun shared_checks ::
  "crypto \<Rightarrow> tx_codec \<Rightarrow> Transaction \<Rightarrow> TxOut list \<Rightarrow> TaprootTxHashes option \<Rightarrow> schnorr_call list
     \<Rightarrow> bool script_result list" where
  "shared_checks C K tx prevs cache [] = []"
| "shared_checks C K tx prevs cache ((i, amount, sig, pk, sv, ed) # calls) =
     (let (r, tc) = schnorr_check C K (TxSignatureChecker_with_cache tx i amount prevs cache) sig pk sv ed
      in r # shared_checks C K tx prevs (tc_taproot tc) calls)"

lemma shared_checks_eq:
  assumes "\<forall>h. cache = Some h \<longrightarrow> h = TaprootTxHashes_compute C K tx prevs"
  shows "shared_checks C K tx prevs cache calls =
    map (\<lambda>(i, amount, sig, pk, sv, ed).
      fst (schnorr_check C K (TxSignatureChecker_new tx i amount prevs) sig pk sv ed)) calls"
  using assms
proof (induction calls arbitrary: cache)
  case (Cons call calls)
  obtain i amount sig pk sv ed where c: "call = (i, amount, sig, pk, sv, ed)" by (cases call)
  let ?tc = "TxSignatureChecker_with_cache tx i amount prevs cache"
  let ?new = "TxSignatureChecker_new tx i amount prevs"
  have "coherent C K ?tc" "coherent C K ?new" "fresh ?new = fresh ?tc"
    using Cons.prems by (auto simp: coherent_def fresh_def TxSignatureChecker_with_cache_def TxSignatureChecker_new_def)
  note s = schnorr_check_coherent [OF this(1,3,2), of sig pk sv ed]
  let ?tc' = "snd (schnorr_check C K ?tc sig pk sv ed)"
  have "tc_tx ?tc' = tx \<and> tc_prev_outputs ?tc' = prevs"
    using fresh_eq_fields s by (metis TxSignatureChecker_with_cache_def TxSignatureChecker.select_convs(1,4))
  then have "\<forall>h. tc_taproot ?tc' = Some h \<longrightarrow> h = TaprootTxHashes_compute C K tx prevs"
    using s by (simp add: coherent_def)
  from Cons.IH [OF this] show ?case
    using s by (simp add: c Let_def case_prod_beta)
qed simp


section \<open>Code separators\<close>

text \<open>
  The reference: the script cut into instructions, a truncated last one included, with the separators
  left out.
\<close>

definition chunk_size :: "bytes \<Rightarrow> nat" where
  "chunk_size s =
     (let n = length s in
      if n = 0 then 0
      else if s ! 0 \<le> 75 then min n (1 + unat (s ! 0))
      else if s ! 0 = 0x4c \<and> 1 < n then min n (2 + unat (s ! 1))
      else if s ! 0 = 0x4d \<and> 2 < n then min n (3 + le16 (s ! 1) (s ! 2))
      else if s ! 0 = 0x4e \<and> 4 < n then min n (5 + le32 (s ! 1) (s ! 2) (s ! 3) (s ! 4))
      else 1)"

lemma chunk_size_pos: "s \<noteq> [] \<Longrightarrow> 0 < chunk_size s"
  by (auto simp: chunk_size_def Let_def)

function chunks :: "bytes \<Rightarrow> bytes list" where
  "chunks s = (if s = [] then [] else take (chunk_size s) s # chunks (drop (chunk_size s) s))"
  by pat_completeness auto
termination
  by (relation "measure length") (simp_all add: chunk_size_pos)

declare chunks.simps [simp del]

lemma concat_chunks: "concat (chunks s) = s"
  by (induction s rule: chunks.induct) (subst chunks.simps, simp)

lemma separator_next_chunk:
  assumes "pc < length s"
  shows "min (separator_next s pc) (length s) = pc + chunk_size (drop pc s)"
proof -
  obtain n where n: "length s = pc + n" "0 < n"
    using assms by (metis less_imp_add_positive)
  note defs = n(1) separator_next_def chunk_size_def Let_def min_def
  consider "s ! pc \<le> 75" | "s ! pc = 0x4c" | "s ! pc = 0x4d" | "s ! pc = 0x4e"
    | "\<not> s ! pc \<le> 75" "s ! pc \<noteq> 0x4c" "s ! pc \<noteq> 0x4d" "s ! pc \<noteq> 0x4e"
    by blast
  then show ?thesis
  proof cases
    case 4
    then show ?thesis using n(2) by (simp add: defs eval_nat_numeral)
  qed (use n(2) in \<open>simp_all add: defs\<close>)
qed

lemma remove_codeseparators_chunks:
  "remove_codeseparators_from s pc = concat (filter (\<lambda>c. c \<noteq> [0xab]) (chunks (drop pc s)))"
proof (induction s pc rule: remove_codeseparators_from.induct)
  case (1 s pc)
  show ?case
  proof (cases "pc < length s")
    case False
    then show ?thesis by (simp add: remove_codeseparators_from.simps chunks.simps)
  next
    case True
    let ?n = "separator_next s pc" and ?k = "chunk_size (drop pc s)"
    have k: "0 < ?k" using True by (simp add: chunk_size_pos)
    have m: "min ?n (length s) = pc + ?k" by (rule separator_next_chunk [OF True])
    have rest: "drop ?n s = drop (pc + ?k) s"
      using m by (metis drop_all min.commute min_def nat_le_linear)
    have head: "subslice s pc (min ?n (length s)) = take ?k (drop pc s)" unfolding m by (simp add: subslice_def)
    have unfold: "chunks (drop pc s) = take ?k (drop pc s) # chunks (drop (pc + ?k) s)"
      using True by (subst chunks.simps) (simp add: add.commute)
    show ?thesis
    proof (cases "s ! pc = 0xab")
      case ab: True
      then have "?k = 1" using True by (simp add: chunk_size_def Let_def)
      then have "take ?k (drop pc s) = [0xab]" using True ab by (simp add: take_Suc hd_drop_conv_nth)
      then show ?thesis
        using True ab "1.IH"(1) [OF True ab] \<open>?k = 1\<close> by (simp add: remove_codeseparators_from.simps [of s pc] unfold)
    next
      case False
      have "take ?k (drop pc s) \<noteq> [0xab]"
      proof
        assume "take ?k (drop pc s) = [0xab]"
        then have "take ?k (drop pc s) ! 0 = 0xab" by simp
        then show False using False True k by simp
      qed
      then show ?thesis
        using True False "1.IH"(2) [OF True False] by (simp add: remove_codeseparators_from.simps [of s pc] unfold rest head)
    qed
  qed
qed


section \<open>Relative lock times\<close>

lemma and_exp: "(n :: int) AND 2 ^ k = (if bit n k then 2 ^ k else 0)"
  by (rule bit_eqI) (auto simp: bit_and_iff bit_exp_iff split: if_splits)

lemma or_exp_mask: "l \<le> k \<Longrightarrow> (if b then 2 ^ k else 0) OR take_bit l n = (if b then 2 ^ k else 0) + take_bit l (n :: int)"
  by (rule disjunctive_add_eq_or [symmetric], rule bit_eqI) (auto simp: bit_and_iff bit_take_bit_iff bit_exp_iff split: if_splits)

lemma and_exp_mask:
  fixes n :: int
  assumes "l \<le> k"
  shows "n AND (2 ^ k OR mask l) = (if bit n k then 2 ^ k else 0) + n mod 2 ^ l"
  by (simp only: bit.conj_disj_distrib take_bit_eq_mask [symmetric] and_exp or_exp_mask [OF assms] take_bit_eq_mod [symmetric])

lemma and_lock_mask: "(n :: int) AND (2 ^ 22 + 65535) = (if bit n 22 then 2 ^ 22 else 0) + n mod 65536"
proof -
  have "(2 ^ 22 + 65535 :: int) = 2 ^ 22 OR mask 16" by (simp add: mask_eq_exp_minus_1)
  moreover have "(2 ^ 16 :: int) = 65536" by simp
  ultimately show ?thesis using and_exp_mask [of 16 22 n] by simp
qed

lemma mask_value: "uint (SEQUENCE_LOCKTIME_TYPE_FLAG OR SEQUENCE_LOCKTIME_MASK) = 2 ^ 22 + 65535"
  "uint SEQUENCE_LOCKTIME_TYPE_FLAG = 2 ^ 22"
  by (simp_all add: SEQUENCE_LOCKTIME_TYPE_FLAG_def SEQUENCE_LOCKTIME_MASK_def)

lemma disable_bit: "(w :: u32) AND SEQUENCE_LOCKTIME_DISABLE_FLAG \<noteq> 0 \<longleftrightarrow> bit w 31"
  using has_flag_bit [of 31 w] by (simp add: has_flag_def SEQUENCE_LOCKTIME_DISABLE_FLAG_def)

lemma uint_and_mask: "uint (w AND (SEQUENCE_LOCKTIME_TYPE_FLAG OR SEQUENCE_LOCKTIME_MASK))
    = (if bit w 22 then 2 ^ 22 else 0) + uint w mod 65536"
  unfolding unsigned_and_eq mask_value and_lock_mask by (simp add: bit_unsigned_iff)

lemma sequence_check_spec:
  assumes "tc_input_index tc < length (tx_input (tc_tx tc))"
  defines "w \<equiv> sequence (tx_input (tc_tx tc) ! tc_input_index tc)"
  shows "sequence_check tc n = Ok (2 \<le> version (tc_tx tc) \<and> \<not> bit w 31 \<and> (bit n 22 \<longleftrightarrow> bit w 22)
    \<and> n mod 65536 \<le> uint w mod 65536)"
proof -
  have lt: "x mod 65536 < 2 ^ 22" "0 \<le> x mod 65536" for x :: int
    using pos_mod_bound [of 65536 x] by simp_all
  have i: "index (tx_input (tc_tx tc)) (tc_input_index tc) = Ok (tx_input (tc_tx tc) ! tc_input_index tc)"
    using assms(1) by (simp add: index_def)
  show ?thesis
    unfolding sequence_check_def Let_def i rbind_simps disable_bit uint_and_mask mask_value and_lock_mask w_def [symmetric]
    using lt [of n] lt [of "uint w"] by (auto simp: not_le not_less)
qed

lemma lock_time_check_spec:
  assumes "tc_input_index tc < length (tx_input (tc_tx tc))"
  shows "lock_time_check tc n = Ok ((n < 500000000 \<longleftrightarrow> uint (lock_time (tc_tx tc)) < 500000000)
    \<and> n \<le> uint (lock_time (tc_tx tc)) \<and> sequence (tx_input (tc_tx tc) ! tc_input_index tc) \<noteq> 0xFFFFFFFF)"
  using assms by (auto simp: lock_time_check_def Let_def index_def LOCKTIME_THRESHOLD_def word_less_def word_le_def)

text \<open>Concrete parameters for the witnesses.\<close>

definition sample_codec :: tx_codec where
  "sample_codec = \<lparr>
     enc_outpoint = txid, enc_sequence = (\<lambda>w. [ucast w]), enc_amount = (\<lambda>n. [of_nat n]), enc_script = (\<lambda>s. s),
     enc_txout = script_pubkey, enc_version = (\<lambda>w. [ucast w]), enc_lock_time = (\<lambda>w. [ucast w]),
     enc_u32 = (\<lambda>w. [ucast w]), ecdsa_sighash_type = (\<lambda>n. n),
     segwit_v0_signing_data = (\<lambda>tx i code amount ty. Some (code @ replicate 4 (of_nat ty))),
     legacy_signature_hash = (\<lambda>tx i code ty. Some (replicate 32 0)), tap_sighash = (\<lambda>m. replicate 32 0)\<rparr>"

lemma sample_codec_ends [simp]: "signing_data_ends_with_type sample_codec"
  by (auto simp: signing_data_ends_with_type_def sample_codec_def)

definition sample_tx :: Transaction where
  "sample_tx = \<lparr>version = 2, lock_time = 100,
     tx_input = [\<lparr>previous_output = \<lparr>txid = replicate 32 1, vout = 0\<rparr>, script_sig = [], sequence = 10, witness = []\<rparr>],
     tx_output = [\<lparr>out_value = 5, script_pubkey = [0x51]\<rparr>]\<rparr>"

section \<open>Properties\<close>

text \<open>
  C33: The relative lock check is BIP 112: it accepts exactly when the version is at least 2, the
  disable bit of the input's sequence is clear, both values are of the same kind (bit 22), and the
  low sixteen bits of the operand do not exceed those of the sequence.
\<close>

theorem sequence_check_bip112:
  assumes "tc_input_index tc < length (tx_input (tc_tx tc))"
  shows "sequence_check tc n = Ok (2 \<le> version (tc_tx tc)
    \<and> \<not> bit (sequence (tx_input (tc_tx tc) ! tc_input_index tc)) 31
    \<and> (bit n 22 \<longleftrightarrow> bit (sequence (tx_input (tc_tx tc) ! tc_input_index tc)) 22)
    \<and> n mod 65536 \<le> uint (sequence (tx_input (tc_tx tc) ! tc_input_index tc)) mod 65536)"
  by (rule sequence_check_spec [OF assms])

theorem sequence_check_bip112_witness:
  "sequence_check (TxSignatureChecker_new sample_tx 0 7 []) 9 = Ok True"
proof -
  let ?tc = "TxSignatureChecker_new sample_tx 0 7 []"
  have "tc_input_index ?tc < length (tx_input (tc_tx ?tc))"
    by (simp add: TxSignatureChecker_new_def TxSignatureChecker_with_cache_def sample_tx_def)
  from sequence_check_bip112 [OF this, of 9] show ?thesis
    by (simp add: TxSignatureChecker_new_def TxSignatureChecker_with_cache_def sample_tx_def)
qed

text \<open>
  The absolute lock check is BIP 65: it accepts exactly when the operand and the lock time are on
  the same side of the threshold, the operand has been reached, and the input is not final.
\<close>

theorem lock_time_check_bip65:
  assumes "tc_input_index tc < length (tx_input (tc_tx tc))"
  shows "lock_time_check tc n = Ok ((n < 500000000 \<longleftrightarrow> uint (lock_time (tc_tx tc)) < 500000000)
    \<and> n \<le> uint (lock_time (tc_tx tc)) \<and> sequence (tx_input (tc_tx tc) ! tc_input_index tc) \<noteq> 0xFFFFFFFF)"
  by (rule lock_time_check_spec [OF assms])

theorem lock_time_check_bip65_witness:
  "lock_time_check (TxSignatureChecker_new sample_tx 0 7 []) 101 = Ok False"
proof -
  let ?tc = "TxSignatureChecker_new sample_tx 0 7 []"
  have "tc_input_index ?tc < length (tx_input (tc_tx ?tc))"
    by (simp add: TxSignatureChecker_new_def TxSignatureChecker_with_cache_def sample_tx_def)
  from lock_time_check_bip65 [OF this, of 101] show ?thesis
    by (simp add: TxSignatureChecker_new_def TxSignatureChecker_with_cache_def sample_tx_def)
qed

text \<open>
  C29: Sharing the cache of transaction hashes between the inputs never changes an answer: any sequence
  of Schnorr checks on any inputs that starts with an empty cache and hands it on gives the answers
  of independent checkers.
\<close>

theorem shared_cache_transparent:
  "shared_checks C K tx prevs None calls =
    map (\<lambda>(i, amount, sig, pk, sv, ed).
      fst (schnorr_check C K (TxSignatureChecker_new tx i amount prevs) sig pk sv ed)) calls"
  by (rule shared_checks_eq) simp

text \<open>
  C32: Removing code separators drops exactly the separator instructions: the script is the
  concatenation of its instructions, and the result is the concatenation of those that are not the
  single byte \<open>OP_CODESEPARATOR\<close>; a separator byte inside a push stays.
\<close>

theorem remove_codeseparators_instructions:
  "concat (chunks s) = s \<and> remove_codeseparators s = concat (filter (\<lambda>c. c \<noteq> [0xab]) (chunks s))"
  using remove_codeseparators_chunks [of s 0] by (simp add: concat_chunks remove_codeseparators_def)

end
