(* ===== verification/Eval_Limits.thy ===== *)
theory Eval_Limits
  imports Eval_Safety
begin

text \<open>
  What a successful run of the interpreter says about the script and the stack: the script parses
  to its end, holds no disabled opcode, no oversized push and at most 201 counted opcodes, its
  conditionals nest, and the stacks stay within their limits.  \<open>parse\<close> and \<open>balanced\<close> are reference
  definitions over the whole script; the loop is related to them by induction.
\<close>

section \<open>Reference parser\<close>

text \<open>The instructions of a script, or \<open>None\<close> when the last one is cut off.\<close>

function parse_from :: "bytes \<Rightarrow> nat \<Rightarrow> (byte \<times> bytes) list option" where
  "parse_from script pc =
     (if pc < length script then
        case read_instruction script pc of
          None \<Rightarrow> None
        | Some (opcode, d, pc') \<Rightarrow> map_option ((#) (opcode, d)) (parse_from script pc')
      else Some [])"
  by pat_completeness auto
termination
  by (relation "measure (\<lambda>(script, pc). length script - pc)")
    (auto dest!: read_instruction_bounds intro: diff_less_mono2)

declare parse_from.simps [simp del]

definition parse :: "bytes \<Rightarrow> (byte \<times> bytes) list option" where
  "parse script = parse_from script 0"

text \<open>The nesting depth of conditionals after an opcode, or \<open>None\<close> for an unbalanced one.\<close>

definition cond_step :: "byte \<Rightarrow> nat \<Rightarrow> nat option" where
  "cond_step opcode d =
     (if opcode = OP_IF \<or> opcode = OP_NOTIF then Some (Suc d)
      else if opcode = OP_ELSE then (if d = 0 then None else Some d)
      else if opcode = OP_ENDIF then (if d = 0 then None else Some (d - 1))
      else Some d)"

fun cond_depth :: "byte list \<Rightarrow> nat \<Rightarrow> nat option" where
  "cond_depth [] d = Some d"
| "cond_depth (x # xs) d = Option.bind (cond_step x d) (cond_depth xs)"

definition balanced :: "byte list \<Rightarrow> bool" where
  "balanced xs \<longleftrightarrow> cond_depth xs 0 = Some 0"

section \<open>Conditionals nest\<close>

lemma stack_arm_cond: "stack_arm C rm oc = Some f \<Longrightarrow> cond_step oc d = Some d"
  by (rule ccontr) (auto simp: cond_step_def stack_arm_def op_defs split: if_splits)

lemma not_cond_op [simp]: "oc \<noteq> OP_IF \<Longrightarrow> oc \<noteq> OP_NOTIF \<Longrightarrow> oc \<noteq> OP_ELSE \<Longrightarrow> oc \<noteq> OP_ENDIF \<Longrightarrow> cond_step oc d = Some d"
  by (simp add: cond_step_def)

definition cond_post :: "byte \<Rightarrow> eval_state \<Rightarrow> eval_state script_result \<Rightarrow> bool" where
  "cond_post oc st r \<longleftrightarrow>
     (\<forall>st'. r = Ok st' \<longrightarrow> cond_step oc (stack_size (st_vf_exec st)) = Some (stack_size (st_vf_exec st')))"

lemma exec_opcode_cond: "cond_post oc st (exec_opcode cx f oc st)"
proof (rule exec_opcode_rule)
  show "cond_post oc st (on_stack g st)" if "stack_arm (cx_crypto cx) (require_minimal cx) oc = Some g" for g
    using stack_arm_cond [OF that] by (auto simp: cond_post_def on_stack_def rbind_eq_Ok)
  show "cond_post oc st (op_if cx f oc st)" if "oc = OP_IF \<or> oc = OP_NOTIF"
    using that by (auto simp: cond_post_def op_if_def Let_def rbind_eq_Ok cond_step_def
        dest!: push_back_size split: list.splits if_splits)
  show "cond_post oc st (op_else st)" if "oc = OP_ELSE"
    using that by (auto simp: cond_post_def op_else_def rbind_eq_Ok cond_step_def cs_is_empty_def op_defs
        dest!: toggle_top_size split: if_splits)
  show "cond_post oc st (op_endif st)" if "oc = OP_ENDIF"
    using that by (auto simp: cond_post_def op_endif_def rbind_eq_Ok cond_step_def cs_is_empty_def op_defs
        dest!: pop_back_size split: if_splits)
  show "cond_post oc st (op_checkmultisig cx oc st)" if "oc = OP_CHECKMULTISIG \<or> oc = OP_CHECKMULTISIGVERIFY"
    using that by (auto simp: cond_post_def cond_step_def op_defs elim!: op_checkmultisig_Ok)
  show "cond_post oc st (op_checksig cx oc st)" if "oc = OP_CHECKSIG \<or> oc = OP_CHECKSIGVERIFY"
    using that by (auto simp: cond_post_def op_checksig_def rbind_eq_Ok cond_step_def op_defs
        split: list.splits if_splits)
  show "cond_post oc st (op_checksigadd cx st)" if "oc = OP_CHECKSIGADD"
    using that by (auto simp: cond_post_def op_checksigadd_def rbind_eq_Ok cond_step_def op_defs
        split: list.splits if_splits)
  show "cond_post oc st (op_upgradable_nop cx st)" if "oc = OP_NOP1 \<or> OP_NOP4 \<le> oc \<and> oc \<le> OP_NOP10"
    using that by (auto simp: cond_post_def cond_step_def op_defs dest!: frame_locks)
qed (auto simp: cond_post_def op_toaltstack_def op_fromaltstack_def op_codeseparator_def cond_step_def
      op_defs dest!: frame_locks split: list.splits)

lemma exec_instruction_cond:
  assumes "exec_instruction cx f oc d st = Ok st'"
  shows "cond_step oc (stack_size (st_vf_exec st)) = Some (stack_size (st_vf_exec st'))"
proof -
  have push: "cond_step oc n = Some n" if "oc \<le> OP_PUSHDATA4" for n
    using that by (auto simp: cond_step_def op_defs word_le_nat_alt)
  have other: "cond_step oc n = Some n" if "\<not> (OP_IF \<le> oc \<and> oc \<le> OP_ENDIF)" for n
    using that by (auto simp: cond_step_def op_defs)
  show ?thesis
    using assms exec_opcode_cond [of oc st cx f] push other
    by (auto simp: exec_instruction_def cond_post_def split: if_splits)
qed


section \<open>A successful run has parsed the whole script\<close>

text \<open>What the loop has established about the instructions from \<open>pc\<close> on.\<close>

definition counted_ops :: "(byte \<times> bytes) list \<Rightarrow> nat" where
  "counted_ops is = length (filter (\<lambda>(opcode, _). OP_16 < opcode) is)"

lemma counted_ops_simps [simp]:
  "counted_ops [] = 0"
  "counted_ops ((oc, d) # is) = (if OP_16 < oc then 1 else 0) + counted_ops is"
  by (simp_all add: counted_ops_def)

definition run_facts :: "eval_ctx \<Rightarrow> eval_state \<Rightarrow> eval_state \<Rightarrow> (byte \<times> bytes) list \<Rightarrow> bool" where
  "run_facts cx st st' is \<longleftrightarrow>
     parse_from (cx_script cx) (st_pc st) = Some is
     \<and> (\<forall>(opcode, d) \<in> set is. \<not> is_disabled opcode \<and> length d \<le> MAX_SCRIPT_ELEMENT_SIZE)
     \<and> cond_depth (map fst is) (stack_size (st_vf_exec st)) = Some (stack_size (st_vf_exec st'))
     \<and> (legacy_limits (cx_sig_version cx) \<longrightarrow>
          st_n_op_count st + counted_ops is \<le> st_n_op_count st'
          \<and> (st_n_op_count st \<le> MAX_OPS_PER_SCRIPT \<longrightarrow> st_n_op_count st' \<le> MAX_OPS_PER_SCRIPT))"

lemma run_facts_step:
  assumes "eval_step cx st = Ok st1" "run_facts cx st1 st' is" "st_pc st < length (cx_script cx)"
  shows "\<exists>is. run_facts cx st st' is"
  using assms(1)
proof (rule eval_step_Ok)
  fix oc d pc n st2
  let ?counted = "legacy_limits (cx_sig_version cx) \<and> OP_16 < oc"
  let ?st = "st\<lparr>st_pc := pc, st_n_op_count := n\<rparr>"
  assume r: "read_instruction (cx_script cx) (st_pc st) = Some (oc, d, pc)"
    and d: "length d \<le> MAX_SCRIPT_ELEMENT_SIZE" "\<not> is_disabled oc"
    and n: "n = (if ?counted then st_n_op_count st + 1 else st_n_op_count st)"
      "?counted \<Longrightarrow> n \<le> MAX_OPS_PER_SCRIPT"
    and e: "exec_instruction cx (all_true (st_vf_exec st)) oc d ?st = Ok st2"
    and st1: "st1 = st2\<lparr>st_opcode_pos := st_opcode_pos st2 + 1\<rparr>"
  note f = frame_exec_instruction [OF e, unfolded frame_def, simplified]
  have "parse_from (cx_script cx) (st_pc st) = Some ((oc, d) # is)"
    using assms(2,3) r f by (subst parse_from.simps) (simp add: run_facts_def st1)
  moreover have "cond_step oc (stack_size (st_vf_exec st)) = Some (stack_size (st_vf_exec st1))"
    using exec_instruction_cond [OF e] by (simp add: st1)
  ultimately have "run_facts cx st st' ((oc, d) # is)"
    using assms(2) d n f by (auto simp: run_facts_def st1)
  then show ?thesis by blast
qed

lemma eval_loop_run_facts:
  "eval_loop cx st = Ok st' \<Longrightarrow> st_pc st \<le> length (cx_script cx) \<Longrightarrow> \<exists>is. run_facts cx st st' is"
proof (induction cx st rule: eval_loop.induct)
  case (1 cx st)
  show ?case
  proof (cases "st_pc st < length (cx_script cx)")
    case True
    then obtain st1 where s: "eval_step cx st = Ok st1" and l: "eval_loop cx st1 = Ok st'"
      using "1.prems"(1) by (auto simp: eval_loop.simps [of cx st])
    then show ?thesis
      using "1.IH" [OF True s l] eval_step_pc [OF s] run_facts_step [OF s _ True] by blast
  next
    case False
    then have "st' = st" using "1.prems"(1) by (simp add: eval_loop.simps [of cx st])
    then have "run_facts cx st st' []" using False by (simp add: run_facts_def parse_from.simps)
    then show ?thesis by blast
  qed
qed

section \<open>Stack and element sizes\<close>

definition small_post :: "eval_state \<Rightarrow> eval_state script_result \<Rightarrow> bool" where
  "small_post st r \<longleftrightarrow>
     (\<forall>st'. r = Ok st' \<longrightarrow> small (st_stack st) \<longrightarrow> small (st_altstack st)
        \<longrightarrow> small (st_stack st') \<and> small (st_altstack st'))"

lemma small_drop: "small s \<Longrightarrow> small (drop n s)"
  by (rule small_take_drop)

lemma multisig_check_small:
  assumes "multisig_check cx oc st nk ns (nat nk + 3) (nat nk + nat ns + 3) = Ok s"
    and "small (st_stack st)" "nat nk + nat ns + 3 \<le> length (st_stack st)"
  shows "small s"
proof -
  obtain ok s1 where c: "multisig_cleanup (cx_flags cx) ok (nat nk + nat ns + 3 - 1) (nat nk + 2) (st_stack st) = Ok s1"
    and f: "multisig_finish cx oc ok s1 = Ok s"
    using assms(1) unfolding multisig_check_def Let_def by (auto simp only: rbind_eq_Ok)
  have "s1 = drop (nat nk + nat ns + 3 - 1) (st_stack st)"
    using assms(3) by (intro multisig_cleanup_Ok [OF _ c]) simp
  then have "small s1" using assms(2) by (simp add: small_drop)
  then show ?thesis using f by (auto simp: multisig_finish_def split: list.splits if_splits)
qed

lemma exec_opcode_small:
  assumes "digest_sizes (cx_crypto cx)"
  shows "small_post st (exec_opcode cx f oc st)"
proof (rule exec_opcode_rule)
  show "small_post st (on_stack g st)" if "stack_arm (cx_crypto cx) (require_minimal cx) oc = Some g" for g
    using small_stack_arm [OF that assms] by (auto simp: small_post_def on_stack_def rbind_eq_Ok)
  show "small_post st (op_checkmultisig cx oc st)"
    by (auto simp: small_post_def elim!: op_checkmultisig_Ok intro: multisig_check_small)
  show "small_post st (op_if cx f oc st)"
    by (auto simp: small_post_def op_if_def Let_def rbind_eq_Ok split: list.splits if_splits)
  show "small_post st (op_checksig cx oc st)"
    by (auto simp: small_post_def op_checksig_def rbind_eq_Ok split: list.splits if_splits)
  show "small_post st (op_checksigadd cx st)"
    by (auto simp: small_post_def op_checksigadd_def rbind_eq_Ok split: list.splits if_splits)
qed (auto simp: small_post_def op_else_def op_endif_def op_toaltstack_def op_fromaltstack_def
      op_codeseparator_def rbind_eq_Ok dest!: frame_locks split: list.splits if_splits)

lemma eval_step_small:
  assumes "digest_sizes (cx_crypto cx)" "eval_step cx st = Ok st'" "small (st_stack st)" "small (st_altstack st)"
  shows "small (st_stack st') \<and> small (st_altstack st')
    \<and> length (st_stack st') + length (st_altstack st') \<le> MAX_STACK_SIZE"
  using assms(2)
proof (rule eval_step_Ok)
  fix oc d pc n st2
  let ?st = "st\<lparr>st_pc := pc, st_n_op_count := n\<rparr>"
  assume "length d \<le> MAX_SCRIPT_ELEMENT_SIZE" "length (st_stack st2) + length (st_altstack st2) \<le> MAX_STACK_SIZE"
    "exec_instruction cx (all_true (st_vf_exec st)) oc d ?st = Ok st2"
    "st' = st2\<lparr>st_opcode_pos := st_opcode_pos st2 + 1\<rparr>"
  then show ?thesis
    using exec_opcode_small [OF assms(1), of ?st "all_true (st_vf_exec st)" oc] assms(3,4)
    by (auto simp: exec_instruction_def small_post_def split: if_splits)
qed

lemma eval_loop_small:
  assumes "digest_sizes (cx_crypto cx)" "eval_loop cx st = Ok st'" "small (st_stack st)" "small (st_altstack st)"
  shows "small (st_stack st') \<and> small (st_altstack st')
    \<and> (st_pc st < length (cx_script cx) \<longrightarrow> length (st_stack st') + length (st_altstack st') \<le> MAX_STACK_SIZE)"
  using assms
proof (induction cx st rule: eval_loop.induct)
  case (1 cx st)
  show ?case
  proof (cases "st_pc st < length (cx_script cx)")
    case True
    then obtain st1 where s: "eval_step cx st = Ok st1" and l: "eval_loop cx st1 = Ok st'"
      using "1.prems"(2) by (auto simp: eval_loop.simps [of cx st])
    have st1: "small (st_stack st1) \<and> small (st_altstack st1)
        \<and> length (st_stack st1) + length (st_altstack st1) \<le> MAX_STACK_SIZE"
      by (rule eval_step_small [OF "1.prems"(1) s "1.prems"(3,4)])
    show ?thesis
    proof (cases "st_pc st1 < length (cx_script cx)")
      case c: True
      then show ?thesis using "1.IH" [OF True s "1.prems"(1) l] st1 by blast
    next
      case False
      then have "st' = st1" using l by (simp add: eval_loop.simps [of cx st1])
      then show ?thesis using st1 by simp
    qed
  next
    case False
    then have "st' = st" using "1.prems"(2) by (simp add: eval_loop.simps [of cx st])
    then show ?thesis using "1.prems" False by simp
  qed
qed

section \<open>Properties\<close>

lemma eval_script_run:
  assumes "eval_script C stack script flags chk sv ed = Ok r"
  obtains st where
    "eval_loop \<lparr>cx_crypto = C, cx_script = script, cx_flags = flags, cx_checker = chk, cx_sig_version = sv\<rparr>
       (eval_init stack ed) = Ok st"
    "cs_is_empty (st_vf_exec st)" "r = (st_stack st, st_exec_data st)"
    "legacy_limits sv \<Longrightarrow> length script \<le> MAX_SCRIPT_SIZE"
  using assms by (auto simp: eval_script_def rbind_eq_Ok not_less split: if_splits)

lemma eval_script_facts:
  assumes "eval_script C stack script flags chk sv ed = Ok r"
  obtains "is" where "parse script = Some is"
    "\<forall>(opcode, d) \<in> set is. \<not> is_disabled opcode \<and> length d \<le> MAX_SCRIPT_ELEMENT_SIZE"
    "balanced (map fst is)" "legacy_limits sv \<Longrightarrow> counted_ops is \<le> MAX_OPS_PER_SCRIPT"
proof (rule eval_script_run [OF assms])
  fix st
  let ?cx = "\<lparr>cx_crypto = C, cx_script = script, cx_flags = flags, cx_checker = chk, cx_sig_version = sv\<rparr>"
  assume l: "eval_loop ?cx (eval_init stack ed) = Ok st" and e: "cs_is_empty (st_vf_exec st)"
  obtain "is" where "run_facts ?cx (eval_init stack ed) st is"
    using eval_loop_run_facts [OF l] by (auto simp: eval_init_def)
  then show thesis
    using e by (intro that [of "is"])
      (auto simp: run_facts_def eval_init_def cs_new_def cs_is_empty_def parse_def balanced_def)
qed

text \<open>
  C19: A script that the interpreter accepts has been parsed to its last byte: no instruction is cut
  off, every push fits the element limit, and no disabled opcode occurs anywhere in it, executed or
  not.
\<close>

theorem eval_script_well_formed:
  assumes "eval_script C stack script flags chk sv ed = Ok r"
  shows "\<exists>is. parse script = Some is \<and>
    (\<forall>(opcode, d) \<in> set is. \<not> is_disabled opcode \<and> length d \<le> MAX_SCRIPT_ELEMENT_SIZE)"
  by (rule eval_script_facts [OF assms]) blast

theorem eval_script_well_formed_witness:
  "\<exists>is. parse [0x51, 0x69, 0x00] = Some is \<and>
    (\<forall>(opcode, d) \<in> set is. \<not> is_disabled opcode \<and> length d \<le> MAX_SCRIPT_ELEMENT_SIZE)"
  by (rule eval_script_well_formed [of sample_crypto "[]" _ 0 NoopChecker Base ExecData_new])
    (simp add: exec_simps op_num_def op_verify_def serialize_i64_def abs_bytes.simps)

text \<open>
  C20: The conditionals of an accepted script are balanced: reading its opcodes from left to right,
  every else and endif is inside an open conditional and none is left open at the end.
\<close>

theorem eval_script_balanced:
  assumes "eval_script C stack script flags chk sv ed = Ok r"
  shows "\<exists>is. parse script = Some is \<and> balanced (map fst is)"
  by (rule eval_script_facts [OF assms]) blast

theorem eval_script_balanced_witness:
  "\<exists>is. parse [0x00, 0x63, 0x6a, 0x68] = Some is \<and> balanced (map fst is)"
  by (rule eval_script_balanced [of sample_crypto "[]" _ 0 NoopChecker Base ExecData_new])
    (simp add: exec_simps op_if_def op_endif_def condition_stack_defs NO_FALSE_def)

text \<open>
  C21: Under the two older signature versions an accepted script has at most 10000 bytes and at most
  201 opcodes above \<open>OP_16\<close>, counted over the whole script.
\<close>

theorem eval_script_op_limit:
  assumes "eval_script C stack script flags chk sv ed = Ok r" and "legacy_limits sv"
  shows "length script \<le> MAX_SCRIPT_SIZE \<and>
    (\<exists>is. parse script = Some is \<and> counted_ops is \<le> MAX_OPS_PER_SCRIPT)"
  using eval_script_run [OF assms(1)] eval_script_facts [OF assms(1)] assms(2) by metis

theorem eval_script_op_limit_witness:
  "length [0x51, 0x61, 0x61 :: byte] \<le> MAX_SCRIPT_SIZE \<and>
    (\<exists>is. parse [0x51, 0x61, 0x61] = Some is \<and> counted_ops is \<le> MAX_OPS_PER_SCRIPT)"
  by (rule eval_script_op_limit [of sample_crypto "[]" _ 0 NoopChecker Base ExecData_new])
    (simp_all add: exec_simps op_num_def)

text \<open>
  C22: The interpreter keeps the stack limits: started on elements of at most 520 bytes, an accepted
  script leaves only such elements, and, unless the script is empty, at most 1000 of them.
\<close>

theorem eval_script_stack_limits:
  assumes "digest_sizes C" "small stack" "eval_script C stack script flags chk sv ed = Ok (stack', ed')"
  shows "small stack' \<and> (script \<noteq> [] \<longrightarrow> length stack' \<le> MAX_STACK_SIZE)"
proof (rule eval_script_run [OF assms(3)])
  fix st
  let ?cx = "\<lparr>cx_crypto = C, cx_script = script, cx_flags = flags, cx_checker = chk, cx_sig_version = sv\<rparr>"
  assume "eval_loop ?cx (eval_init stack ed) = Ok st" "(stack', ed') = (st_stack st, st_exec_data st)"
  then show ?thesis
    using eval_loop_small [of ?cx "eval_init stack ed" st] assms(1,2) by (auto simp: eval_init_def)
qed

theorem eval_script_stack_limits_witness:
  "small [[1, 2], [1, 2]] \<and> length [[1, 2 :: byte], [1, 2]] \<le> MAX_STACK_SIZE"
proof -
  have "eval_script sample_crypto [[1, 2]] [0x76] 0 NoopChecker Base ExecData_new
      = Ok ([[1, 2], [1, 2]], ExecData_new\<lparr>codeseparator_pos_init := True\<rparr>)"
    by (simp add: exec_simps op_dup_def ExecData_new_def)
  from eval_script_stack_limits [OF digest_sizes_sample _ this] show ?thesis
    by (simp add: MAX_SCRIPT_ELEMENT_SIZE_def)
qed

end
