(* ===== verification/Eval_Flags.thy ===== *)
theory Eval_Flags
  imports Eval_Limits
begin

text \<open>
  Verification flags only ever restrict the interpreter: whatever it accepts under some flags it
  accepts, with the same result, under any subset of them.  This is what makes a new rule a soft
  fork.  The proof compares the two runs arm by arm.
\<close>

section \<open>Signature checks\<close>

lemma checksig_pre_relax:
  assumes "flags_le f (cx_flags cx)" "eval_checksig_pre_tapscript cx sig pk code = Ok b"
  shows "eval_checksig_pre_tapscript (cx\<lparr>cx_flags := f\<rparr>) sig pk code = Ok b"
  using assms(2) unfolding eval_checksig_pre_tapscript_def
  by (elim rbind_relax)
    (auto intro: check_signature_encoding_mono [OF assms(1)] check_pubkey_encoding_mono [OF assms(1)]
      dest: has_flag_mono [OF assms(1)] split: if_splits prod.splits)

lemma checksig_tapscript_relax:
  assumes "flags_le f (cx_flags cx)" "eval_checksig_tapscript cx sig pk ed = Ok r"
  shows "eval_checksig_tapscript (cx\<lparr>cx_flags := f\<rparr>) sig pk ed = Ok r"
  using assms(2) unfolding eval_checksig_tapscript_def Let_def
  by (elim rbind_relax) (auto dest: has_flag_mono [OF assms(1)] split: if_splits)

lemma checksig_relax:
  assumes "flags_le f (cx_flags cx)" "eval_checksig cx sig pk code ed = Ok r"
  shows "eval_checksig (cx\<lparr>cx_flags := f\<rparr>) sig pk code ed = Ok r"
  using assms(2) checksig_pre_relax [OF assms(1)] checksig_tapscript_relax [OF assms(1)]
  unfolding eval_checksig_def
  by (auto simp: rbind_eq_Ok split: SigVersion.splits)

lemma multisig_delete_relax:
  "flags_le f g \<Longrightarrow> multisig_delete g s pos n code = Ok r \<Longrightarrow> multisig_delete f s pos n code = Ok r"
  by (induction g s pos n code rule: multisig_delete.induct)
    (auto simp: rbind_eq_Ok dest: has_flag_mono split: prod.splits if_splits)

lemma multisig_loop_relax:
  assumes "flags_le f (cx_flags cx)" "multisig_loop cx code s ok ns nk isig ikey = Ok r"
  shows "multisig_loop (cx\<lparr>cx_flags := f\<rparr>) code s ok ns nk isig ikey = Ok r"
  using assms
proof (induction cx code s ok ns nk isig ikey rule: multisig_loop.induct)
  case (1 cx code s ok ns nk isig ikey)
  note enc = check_signature_encoding_mono [OF "1.prems"(1)] check_pubkey_encoding_mono [OF "1.prems"(1)]
  show ?case
  proof (cases "ok \<and> ns > 0")
    case True
    let ?ns = "\<lambda>b. if b then ns - 1 else ns" and ?isig = "\<lambda>b. if b then isig + 1 else isig"
    let ?loop = "\<lambda>cx b. multisig_loop cx code s (\<not> nk - 1 < ?ns b) (?ns b) (nk - 1) (?isig b) (ikey + 1)"
    obtain sig pk b where *: "stacktop s isig = Ok sig" "stacktop s ikey = Ok pk"
        "check_signature_encoding (cx_crypto cx) sig (cx_flags cx) = Ok ()"
        "check_pubkey_encoding pk (cx_flags cx) (cx_sig_version cx) = Ok ()"
        "check_ecdsa_signature (cx_checker cx) sig pk code (cx_sig_version cx) = Ok b"
      and rest: "?loop cx b = Ok r"
      using "1.prems"(2) unfolding multisig_loop_step [OF True] by (elim rbind_OkE) simp
    have "?loop (cx\<lparr>cx_flags := f\<rparr>) b = Ok r"
      by (rule "1.IH" [OF True * refl refl refl refl "1.prems"(1) rest])
    moreover have "check_signature_encoding (cx_crypto cx) sig f = Ok ()"
      "check_pubkey_encoding pk f (cx_sig_version cx) = Ok ()"
      using * enc by blast+
    ultimately show ?thesis using * unfolding multisig_loop_step [OF True] by (simp del: stacktop_Ok)
  next
    case False
    show ?thesis using "1.prems"(2) by (simp only: multisig_loop_stop [OF False])
  qed
qed

lemma multisig_cleanup_relax:
  "flags_le f g \<Longrightarrow> multisig_cleanup g ok n k s = Ok r \<Longrightarrow> n \<le> length s \<Longrightarrow> multisig_cleanup f ok n k s = Ok r"
  by (induction g ok n k s rule: multisig_cleanup.induct)
    (auto dest: has_flag_mono split: list.splits if_splits)

lemma multisig_finish_relax:
  assumes "flags_le f (cx_flags cx)" "multisig_finish cx oc ok s = Ok r"
  shows "multisig_finish (cx\<lparr>cx_flags := f\<rparr>) oc ok s = Ok r"
  using assms(2) by (auto simp: multisig_finish_def dest: has_flag_mono [OF assms(1)] split: list.splits if_splits)

lemma multisig_check_relax:
  assumes le: "flags_le f (cx_flags cx)"
    and ok: "multisig_check cx oc st nk ns isig i = Ok s" and "i - 1 \<le> length (st_stack st)"
  shows "multisig_check (cx\<lparr>cx_flags := f\<rparr>) oc st nk ns isig i = Ok s"
  using ok unfolding multisig_check_def Let_def
  by (elim rbind_relax)
    (use assms(3) in \<open>auto intro: multisig_delete_relax [OF le] multisig_loop_relax [OF le]
      multisig_finish_relax [OF le] multisig_cleanup_relax [OF le] split: if_splits\<close>)

lemma op_checkmultisig_relax:
  assumes le: "flags_le f (cx_flags cx)" and ok: "op_checkmultisig cx oc st = Ok st'"
  shows "op_checkmultisig (cx\<lparr>cx_flags := f\<rparr>) oc st = Ok st'"
proof -
  have num: "num (require_minimal cx) v = Ok n \<Longrightarrow> num (require_minimal (cx\<lparr>cx_flags := f\<rparr>)) v = Ok n" for v n
    by (erule num_relax) (auto simp: require_minimal_def dest: has_flag_mono [OF le])
  have sv: "cx_sig_version (cx\<lparr>cx_flags := f\<rparr>) = cx_sig_version cx" by simp
  note check = multisig_check_relax [OF le]
  show ?thesis
    using ok unfolding op_checkmultisig_def Let_def sv
    by (elim if_relax rbind_relax) (auto dest: num intro!: check)
qed


section \<open>The other arms\<close>

lemma from_bytes_relax':
  "map_err g (from_bytes v m n) = Ok k \<Longrightarrow> (m' \<longrightarrow> m) \<Longrightarrow> map_err g (from_bytes v m' n) = Ok k"
  by (cases m; cases m') (auto simp: map_err_eq intro: from_bytes_relax)

lemma require_minimal_relax:
  "flags_le f (cx_flags cx) \<Longrightarrow> require_minimal (cx\<lparr>cx_flags := f\<rparr>) \<longrightarrow> require_minimal cx"
  by (auto simp: require_minimal_def dest: has_flag_mono)

lemma op_locks_relax:
  assumes le: "flags_le f (cx_flags cx)"
  shows "op_checklocktimeverify cx st = Ok st' \<Longrightarrow> op_checklocktimeverify (cx\<lparr>cx_flags := f\<rparr>) st = Ok st'"
    and "op_checksequenceverify cx st = Ok st' \<Longrightarrow> op_checksequenceverify (cx\<lparr>cx_flags := f\<rparr>) st = Ok st'"
    and "op_upgradable_nop cx st = Ok st' \<Longrightarrow> op_upgradable_nop (cx\<lparr>cx_flags := f\<rparr>) st = Ok st'"
proof -
  note num = from_bytes_relax' [OF _ require_minimal_relax [OF le]]
  show "op_checklocktimeverify cx st = Ok st' \<Longrightarrow> op_checklocktimeverify (cx\<lparr>cx_flags := f\<rparr>) st = Ok st'"
  proof (cases "has_flag (cx_flags cx) VERIFY_CHECKLOCKTIMEVERIFY")
    case True
    assume ok: "op_checklocktimeverify cx st = Ok st'"
    then have "st' = st" by (rule frame_locks)
    with ok True show ?thesis unfolding op_checklocktimeverify_def
      by (auto simp: rbind_eq_Ok split: list.splits if_splits dest: num)
  next
    case False
    assume "op_checklocktimeverify cx st = Ok st'"
    with False show ?thesis unfolding op_checklocktimeverify_def by (auto dest: has_flag_mono [OF le])
  qed
  show "op_checksequenceverify cx st = Ok st' \<Longrightarrow> op_checksequenceverify (cx\<lparr>cx_flags := f\<rparr>) st = Ok st'"
  proof (cases "has_flag (cx_flags cx) VERIFY_CHECKSEQUENCEVERIFY")
    case True
    assume ok: "op_checksequenceverify cx st = Ok st'"
    then have "st' = st" by (rule frame_locks)
    with ok True show ?thesis unfolding op_checksequenceverify_def
      by (auto simp: rbind_eq_Ok split: list.splits if_splits dest: num)
  next
    case False
    assume "op_checksequenceverify cx st = Ok st'"
    with False show ?thesis unfolding op_checksequenceverify_def by (auto dest: has_flag_mono [OF le])
  qed
  show "op_upgradable_nop cx st = Ok st' \<Longrightarrow> op_upgradable_nop (cx\<lparr>cx_flags := f\<rparr>) st = Ok st'"
    unfolding op_upgradable_nop_def by (auto dest: has_flag_mono [OF le] split: if_splits)
qed

lemma op_if_relax:
  assumes le: "flags_le f (cx_flags cx)" and ok: "op_if cx b oc st = Ok st'"
  shows "op_if (cx\<lparr>cx_flags := f\<rparr>) b oc st = Ok st'"
  using ok unfolding op_if_def
  by (auto dest: has_flag_mono [OF le] split: list.splits if_splits)

lemma op_checksig_relax:
  assumes le: "flags_le f (cx_flags cx)" and ok: "op_checksig cx oc st = Ok st'"
  shows "op_checksig (cx\<lparr>cx_flags := f\<rparr>) oc st = Ok st'"
proof -
  have sv: "cx_script (cx\<lparr>cx_flags := f\<rparr>) = cx_script cx" by simp
  obtain pk sg r where s: "st_stack st = pk # sg # r"
    using ok by (auto simp: op_checksig_def split: list.splits)
  show ?thesis
    using ok unfolding op_checksig_def s list.case sv
    by (elim rbind_relax) (auto dest: checksig_relax [OF le])
qed

lemma op_checksigadd_relax:
  assumes le: "flags_le f (cx_flags cx)" and ok: "op_checksigadd cx st = Ok st'"
  shows "op_checksigadd (cx\<lparr>cx_flags := f\<rparr>) st = Ok st'"
proof -
  have sv: "cx_sig_version (cx\<lparr>cx_flags := f\<rparr>) = cx_sig_version cx"
    "cx_script (cx\<lparr>cx_flags := f\<rparr>) = cx_script cx" by simp_all
  obtain pk n sg r where s: "st_stack st = pk # n # sg # r"
    using ok by (auto simp: op_checksigadd_def split: list.splits if_splits)
  show ?thesis
    using ok unfolding op_checksigadd_def s list.case sv
    by (elim if_relax rbind_relax)
      (auto dest: checksig_relax [OF le] num_relax [OF _ require_minimal_relax [OF le]])
qed

section \<open>The interpreter\<close>

lemma exec_opcode_relax:
  assumes le: "flags_le f (cx_flags cx)" and ok: "exec_opcode cx b oc st = Ok st'"
  shows "exec_opcode (cx\<lparr>cx_flags := f\<rparr>) b oc st = Ok st'"
proof (cases "stack_arm (cx_crypto cx) (require_minimal cx) oc")
  case None
  let ?cx = "cx\<lparr>cx_flags := f\<rparr>"
  have "rel_option (\<lambda>_ _. True) (stack_arm (cx_crypto cx) (require_minimal cx) oc)
      (stack_arm (cx_crypto cx) (require_minimal ?cx) oc)"
    by (rule stack_arm_rel) simp_all
  then have None': "stack_arm (cx_crypto ?cx) (require_minimal ?cx) oc = None" using None by simp
  show ?thesis
    using ok unfolding exec_opcode_def None None' option.case
    by (elim if_relax)
      (assumption | rule op_locks_relax [OF le] op_if_relax [OF le] op_checksig_relax [OF le]
        op_checksigadd_relax [OF le] op_checkmultisig_relax [OF le], assumption)+
next
  case (Some g)
  obtain g' where g': "stack_arm (cx_crypto cx) (require_minimal (cx\<lparr>cx_flags := f\<rparr>)) oc = Some g'"
    "\<And>s s'. g s = Ok s' \<Longrightarrow> g' s = Ok s'"
    using stack_arm_relax [OF require_minimal_relax [OF le] Some] by blast
  then show ?thesis
    using ok Some by (auto simp: exec_opcode_def on_stack_def rbind_eq_Ok)
qed

lemma exec_instruction_relax:
  assumes le: "flags_le f (cx_flags cx)" and ok: "exec_instruction cx b oc d st = Ok st'"
  shows "exec_instruction (cx\<lparr>cx_flags := f\<rparr>) b oc d st = Ok st'"
  using ok unfolding exec_instruction_def
  by (elim if_relax) (auto dest: exec_opcode_relax [OF le] require_minimal_relax [OF le, THEN mp] split: if_splits)

lemma eval_step_relax:
  assumes le: "flags_le f (cx_flags cx)" and ok: "eval_step cx st = Ok st'"
  shows "eval_step (cx\<lparr>cx_flags := f\<rparr>) st = Ok st'"
proof -
  have sv: "cx_sig_version (cx\<lparr>cx_flags := f\<rparr>) = cx_sig_version cx"
    "cx_script (cx\<lparr>cx_flags := f\<rparr>) = cx_script cx" "cx_flags (cx\<lparr>cx_flags := f\<rparr>) = f" by simp_all
  obtain oc d pc where r: "read_instruction (cx_script cx) (st_pc st) = Some (oc, d, pc)"
    using ok by (auto elim: eval_step_Ok)
  show ?thesis
    using ok unfolding eval_step_def Let_def sv r ok_or_simps rbind_simps prod.case
    by (elim guard_relax rbind_relax)
      (auto dest: has_flag_mono [OF le] intro: exec_instruction_relax [OF le])
qed

lemma eval_loop_relax:
  assumes "flags_le f (cx_flags cx)" "eval_loop cx st = Ok st'"
  shows "eval_loop (cx\<lparr>cx_flags := f\<rparr>) st = Ok st'"
  using assms
proof (induction cx st rule: eval_loop.induct)
  case (1 cx st)
  have sv: "cx_script (cx\<lparr>cx_flags := f\<rparr>) = cx_script cx" by simp
  show ?case
    using "1.prems"(2) unfolding eval_loop.simps [of cx st] eval_loop.simps [of "cx\<lparr>cx_flags := f\<rparr>" st] sv
    by (elim if_relax rbind_relax)
      (auto intro: eval_step_relax [OF "1.prems"(1)] "1.IH" [OF _ _ "1.prems"(1)])
qed

lemma eval_script_relax:
  assumes "flags_le f g" "eval_script C stack script g chk sv ed = Ok r"
  shows "eval_script C stack script f chk sv ed = Ok r"
proof -
  let ?cx = "\<lambda>fl. \<lparr>cx_crypto = C, cx_script = script, cx_flags = fl, cx_checker = chk, cx_sig_version = sv\<rparr>"
  have "eval_loop (?cx f) st = Ok st'" if "eval_loop (?cx g) st = Ok st'" for st st'
    using eval_loop_relax [of f "?cx g" st st'] assms(1) that by simp
  then show ?thesis
    using assms(2) unfolding eval_script_def by (auto split: if_splits elim!: rbind_relax)
qed

section \<open>Property\<close>

text \<open>
  Soft-fork monotonicity of the interpreter: a script accepted under a flag word is accepted
  under every subset of its flags, leaving the same stack and the same execution data.
\<close>

theorem eval_script_flags_monotone:
  assumes "flags_le f g" "eval_script C stack script g chk sv ed = Ok r"
  shows "eval_script C stack script f chk sv ed = Ok r"
  by (rule eval_script_relax [OF assms])

theorem eval_script_flags_monotone_witness:
  "eval_script sample_crypto [] [0x51] 0 NoopChecker Base ExecData_new
     = Ok ([serialize_i64 1], ExecData_new\<lparr>codeseparator_pos_init := True\<rparr>)"
  by (rule eval_script_flags_monotone [of 0 VERIFY_MINIMALDATA])
    (simp_all add: exec_simps op_num_def ExecData_new_def)

end
