(* ===== verification/Verify_Flags.thy ===== *)
theory Verify_Flags
  imports Verify Eval_Flags
begin

text \<open>
  Soft-fork monotonicity of the whole verification: a spend accepted under some flags is accepted
  under any coherent subset of them.  \<open>coherent_flags\<close> is the requirement that \<open>CLEANSTACK\<close> comes with
  \<open>P2SH\<close> and \<open>WITNESS\<close>, and \<open>WITNESS\<close> with \<open>P2SH\<close>; without it the statement is false, since these
  rules count on one another.
\<close>

section \<open>Witness programs\<close>

text \<open>The flags only decide what the scan returns, not whether it finds an opcode.\<close>

lemma op_success_scan_flags:
  "op_success_scan script f pc =
     map_option (\<lambda>_. if has_flag f VERIFY_DISCOURAGE_OP_SUCCESS then Err DiscourageOpSuccess else Ok ())
       (op_success_scan script 0 pc)"
proof (induction script f pc rule: op_success_scan.induct)
  case (1 script f pc)
  show ?case
    unfolding op_success_scan.simps [of script f pc] op_success_scan.simps [of script 0 pc] Let_def
    using 1 by (simp add: has_flag_def [of 0])
qed

lemma scan_relax:
  assumes "flags_le f g"
  shows "scan_for_op_success script g = Some (Ok x) \<Longrightarrow> scan_for_op_success script f = Some (Ok x)"
    and "scan_for_op_success script g = None \<Longrightarrow> scan_for_op_success script f = None"
  using has_flag_mono [OF assms]
  unfolding scan_for_op_success_def op_success_scan_flags [of script f] op_success_scan_flags [of script g]
  by (auto split: if_splits)

lemma execute_witness_script_relax:
  assumes le: "flags_le f g" and ok: "execute_witness_script C stack script g sv chk ed = Ok ()"
  shows "execute_witness_script C stack script f sv chk ed = Ok ()"
proof -
  have run: "run_witness_script C stack script g sv chk ed = Ok () \<Longrightarrow> run_witness_script C stack script f sv chk ed = Ok ()"
    unfolding run_witness_script_def
    by (elim guard_relax rbind_relax) (auto intro: eval_script_relax [OF le])
  show ?thesis
    using ok run scan_relax [OF le, of script] unfolding execute_witness_script_def
    by (auto split: if_splits option.splits)
qed

lemma verify_witness_program_relax:
  assumes le: "flags_le f g" and ok: "verify_witness_program C wit v prog g chk p = Ok ()"
  shows "verify_witness_program C wit v prog f chk p = Ok ()"
proof -
  note run = execute_witness_script_relax [OF le]
  note flag = has_flag_mono [OF le]
  have v0: "verify_witness_v0 C wit prog f chk = Ok ()" if "verify_witness_v0 C wit prog g chk = Ok ()"
    using that unfolding verify_witness_v0_def Let_def by (auto dest: run split: if_splits)
  have script: "verify_taproot_script_path C wit stack prog f chk ed = Ok ()"
    if "verify_taproot_script_path C wit stack prog g chk ed = Ok ()" for stack ed
    using that unfolding verify_taproot_script_path_def Let_def
    by (elim if_relax rbind_relax) (auto dest: run flag)
  have v1: "verify_taproot C wit prog f chk = Ok ()" if "verify_taproot C wit prog g chk = Ok ()"
    using that unfolding verify_taproot_def
    by (auto dest: script flag split: if_splits prod.splits)
  show ?thesis
    using ok v0 v1 unfolding verify_witness_program_def by (auto dest: flag split: if_splits)
qed

section \<open>Script verification\<close>

text \<open>The combinations of flags that Bitcoin Core requires of a caller.\<close>

definition coherent_flags :: "u32 \<Rightarrow> bool" where
  "coherent_flags f \<longleftrightarrow>
     (has_flag f VERIFY_CLEANSTACK \<longrightarrow> has_flag f VERIFY_P2SH \<and> has_flag f VERIFY_WITNESS)
     \<and> (has_flag f VERIFY_WITNESS \<longrightarrow> has_flag f VERIFY_P2SH)"

lemma check_clean_relax: "flags_le f g \<Longrightarrow> check_clean g s = Ok () \<Longrightarrow> check_clean f s = Ok ()"
  by (auto simp: check_clean_def dest: has_flag_mono split: if_splits)

lemma verify_bare_witness_relax:
  assumes le: "flags_le f g" and ok: "verify_bare_witness C sig spk wit g chk s = Ok (had, s')"
  shows "verify_bare_witness C sig spk wit f chk s
    = Ok (if has_flag f VERIFY_WITNESS then (had, s') else (False, s))"
  using ok has_flag_mono [OF le] unfolding verify_bare_witness_def
  by (auto simp: rbind_eq_Ok dest!: verify_witness_program_relax [OF le] split: if_splits option.splits)

lemma verify_p2sh_witness_relax:
  assumes le: "flags_le f g" and ok: "verify_p2sh_witness C sig redeem wit g chk h s = Ok (had, s')"
  shows "verify_p2sh_witness C sig redeem wit f chk h' s
    = Ok (if has_flag f VERIFY_WITNESS
          then (if is_witness_program redeem = None then h' else had, s') else (h', s))"
  using ok has_flag_mono [OF le] unfolding verify_p2sh_witness_def
  by (auto simp: rbind_eq_Ok dest!: verify_witness_program_relax [OF le] split: if_splits option.splits)

lemma verify_p2sh_run:
  assumes "verify_p2sh C sig wit g chk ed copy had = Ok had'"
  obtains redeem s s1 ed1 s2 where "is_push_only sig" "copy = Some (redeem # s)"
    "eval_script C s redeem g chk Base ed = Ok (s1, ed1)" "check_true s1 = Ok ()"
    "verify_p2sh_witness C sig redeem wit g chk had s1 = Ok (had', s2)" "check_clean g s2 = Ok ()"
  using assms unfolding verify_p2sh_def
  by (auto split: if_splits option.splits list.splits elim!: rbind_OkE)

lemma verify_p2sh_relax:
  assumes le: "flags_le f g" and ok: "verify_p2sh C sig wit g chk ed copy had = Ok had'"
  shows "has_flag f VERIFY_WITNESS \<Longrightarrow> verify_p2sh C sig wit f chk ed copy had = Ok had'"
    and "\<not> has_flag f VERIFY_WITNESS \<Longrightarrow> \<not> has_flag f VERIFY_CLEANSTACK \<Longrightarrow>
      verify_p2sh C sig wit f chk ed copy h = Ok h"
proof -
  obtain redeem s s1 ed1 s2 where *: "is_push_only sig" "copy = Some (redeem # s)"
    "eval_script C s redeem g chk Base ed = Ok (s1, ed1)" "check_true s1 = Ok ()"
    "verify_p2sh_witness C sig redeem wit g chk had s1 = Ok (had', s2)" "check_clean g s2 = Ok ()"
    by (rule verify_p2sh_run [OF ok])
  have keep: "had' = had" if "is_witness_program redeem = None"
    using *(5) that by (auto simp: verify_p2sh_witness_def split: if_splits)
  note run = *(1,2,4) eval_script_relax [OF le *(3)] verify_p2sh_witness_relax [OF le *(5)]
    check_clean_relax [OF le *(6)]
  show "has_flag f VERIFY_WITNESS \<Longrightarrow> verify_p2sh C sig wit f chk ed copy had = Ok had'"
    using run keep unfolding verify_p2sh_def by simp
  show "\<not> has_flag f VERIFY_WITNESS \<Longrightarrow> \<not> has_flag f VERIFY_CLEANSTACK \<Longrightarrow>
      verify_p2sh C sig wit f chk ed copy h = Ok h"
    using run unfolding verify_p2sh_def by (simp add: check_clean_def)
qed

text \<open>The successful path of \<open>verify_script\<close>, in one rule.\<close>

lemma verify_script_run:
  assumes "verify_script C sig spk wit g chk = Ok ()"
  obtains s1 ed1 s2 ed2 had s3 had' where
    "has_flag g VERIFY_SIGPUSHONLY \<Longrightarrow> is_push_only sig"
    "eval_script C [] sig g chk Base ExecData_new = Ok (s1, ed1)"
    "eval_script C s1 spk g chk Base ed1 = Ok (s2, ed2)" "check_true s2 = Ok ()"
    "verify_bare_witness C sig spk wit g chk s2 = Ok (had, s3)"
    "has_flag g VERIFY_P2SH \<and> is_p2sh spk \<Longrightarrow> verify_p2sh C sig wit g chk ed2 (Some s1) had = Ok had'"
    "\<not> (has_flag g VERIFY_P2SH \<and> is_p2sh spk) \<Longrightarrow> check_clean g s3 = Ok () \<and> had' = had"
    "has_flag g VERIFY_WITNESS \<Longrightarrow> had' \<or> wit = []"
proof -
  from assms have 1: "has_flag g VERIFY_SIGPUSHONLY \<Longrightarrow> is_push_only sig"
    by (auto simp: verify_script_def split: if_splits)
  from assms obtain s1 ed1 s2 ed2 u had s3 had' where
    2: "eval_script C [] sig g chk Base ExecData_new = Ok (s1, ed1)"
    "eval_script C s1 spk g chk Base ed1 = Ok (s2, ed2)" "check_true s2 = Ok u"
    "verify_bare_witness C sig spk wit g chk s2 = Ok (had, s3)"
    and 3: "(if has_flag g VERIFY_P2SH \<and> is_p2sh spk
       then verify_p2sh C sig wit g chk ed2 (if has_flag g VERIFY_P2SH then Some s1 else None) had
       else rbind (check_clean g s3) (\<lambda>_. Ok had)) = Ok had'"
    and 4: "\<not> (has_flag g VERIFY_WITNESS \<and> \<not> had' \<and> wit \<noteq> [])"
    unfolding verify_script_def Let_def by (elim guard_OkE rbind_prod_OkE rbind_OkE) blast
  show thesis
    using that [OF 1 2(1,2) _ 2(4), of had'] 2(3) 3 4 by (auto simp: rbind_eq_Ok split: if_splits)
qed

lemma verify_script_relax:
  assumes le: "flags_le f g" and coherent: "coherent_flags f"
    and ok: "verify_script C sig spk wit g chk = Ok ()"
  shows "verify_script C sig spk wit f chk = Ok ()"
proof (rule verify_script_run [OF ok])
  fix s1 ed1 s2 ed2 had s3 had'
  assume push: "has_flag g VERIFY_SIGPUSHONLY \<Longrightarrow> is_push_only sig"
    and e: "eval_script C [] sig g chk Base ExecData_new = Ok (s1, ed1)"
      "eval_script C s1 spk g chk Base ed1 = Ok (s2, ed2)" and t: "check_true s2 = Ok ()"
    and b: "verify_bare_witness C sig spk wit g chk s2 = Ok (had, s3)"
    and p: "has_flag g VERIFY_P2SH \<and> is_p2sh spk \<Longrightarrow> verify_p2sh C sig wit g chk ed2 (Some s1) had = Ok had'"
    and c: "\<not> (has_flag g VERIFY_P2SH \<and> is_p2sh spk) \<Longrightarrow> check_clean g s3 = Ok () \<and> had' = had"
    and w: "has_flag g VERIFY_WITNESS \<Longrightarrow> had' \<or> wit = []"
  note flag = has_flag_mono [OF le]
  note run = eval_script_relax [OF le e(1)] eval_script_relax [OF le e(2)] t verify_bare_witness_relax [OF le b]
  have push': "\<not> (has_flag f VERIFY_SIGPUSHONLY \<and> \<not> is_push_only sig)" using push flag by blast
  show ?thesis
  proof (cases "has_flag f VERIFY_WITNESS")
    case True
    then have "has_flag f VERIFY_P2SH" using coherent by (simp add: coherent_flags_def)
    moreover have "verify_p2sh C sig wit f chk ed2 (Some s1) had = Ok had'" if "is_p2sh spk"
      using verify_p2sh_relax(1) [OF le p True] flag [OF calculation] that by blast
    moreover have "check_clean f s3 = Ok () \<and> had' = had" if "\<not> is_p2sh spk"
      using c that check_clean_relax [OF le] by blast
    ultimately show ?thesis
      using run push' True w flag [OF True] unfolding verify_script_def Let_def by auto
  next
    case False
    then have clean: "\<not> has_flag f VERIFY_CLEANSTACK" using coherent by (auto simp: coherent_flags_def)
    have "verify_p2sh C sig wit f chk ed2 (Some s1) h = Ok h" if "has_flag f VERIFY_P2SH" "is_p2sh spk" for h
      using verify_p2sh_relax(2) [OF le p False clean] flag that by blast
    then show ?thesis
      using run push' False clean unfolding verify_script_def Let_def by (auto simp: check_clean_def)
  qed
qed

section \<open>Properties\<close>

text \<open>
  Soft-fork monotonicity of script verification: a spend that verifies under a flag word
  verifies under every coherent subset of its flags.
\<close>

theorem verify_script_flags_monotone:
  assumes "flags_le f g" "coherent_flags f" "verify_script C sig spk wit g chk = Ok ()"
  shows "verify_script C sig spk wit f chk = Ok ()"
  by (rule verify_script_relax [OF assms])

theorem verify_script_flags_monotone_witness:
  "verify_script sample_crypto [] [0x51] [] VERIFY_P2SH NoopChecker = Ok ()"
proof (rule verify_script_flags_monotone)
  show "flags_le VERIFY_P2SH (VERIFY_P2SH OR VERIFY_MINIMALDATA)"
    by (simp add: flags_le_def flag_defs)
  show "coherent_flags VERIFY_P2SH"
    by (simp add: coherent_flags_def has_flag_def flag_defs)
  show "verify_script sample_crypto [] [0x51] [] (VERIFY_P2SH OR VERIFY_MINIMALDATA) NoopChecker = Ok ()"
    by (simp add: verify_script_def exec_simps op_num_def flag_defs check_true_def check_clean_def
        verify_bare_witness_def is_p2sh_def serialize_i64_def abs_bytes_pos)
qed

end
