(* ===== verification/Engine_Facts.thy ===== *)
theory Engine_Facts
  imports Engine Sighash_Facts Verify_Flags
begin

text \<open>
  The transaction entry point as the first failure among independent verdicts: the loop, its shared
  precomputed data and the checks in front of it amount to \<open>precheck\<close> followed by \<open>first_failure\<close> over
  \<open>input_verdict\<close>.
\<close>

section \<open>Reference definitions\<close>

text \<open>The verdict on one input, with a checker of its own.\<close>

definition input_verdict ::
  "crypto \<Rightarrow> tx_codec \<Rightarrow> Transaction \<Rightarrow> TxOut list \<Rightarrow> u32 \<Rightarrow> nat \<Rightarrow> unit script_result" where
  "input_verdict C K tx prevs f i =
     verify_script C (script_sig (tx_input tx ! i)) (script_pubkey (prevs ! i)) (witness (tx_input tx ! i)) f
       (tx_signature_checker C K (TxSignatureChecker_new tx i (out_value (prevs ! i)) prevs))"

text \<open>The checks before any input is looked at.\<close>

definition precheck :: "Transaction \<Rightarrow> TxOut list \<Rightarrow> u32 \<Rightarrow> Error option" where
  "precheck tx prevs f =
     (if \<not> valid_flags f then Some ErrInvalidFlags
      else if length prevs \<noteq> length (tx_input tx) then Some ErrSpentOutputsMismatch
      else if has_flag f VERIFY_TAPROOT \<and> prevs = [] then Some ErrSpentOutputsRequired
      else None)"

text \<open>The first call of a row that does not succeed, with its index.\<close>

fun first_failure :: "(nat \<Rightarrow> ('e, unit) result) \<Rightarrow> nat \<Rightarrow> nat \<Rightarrow> (nat \<times> 'e, unit) result" where
  "first_failure r i 0 = Ok ()"
| "first_failure r i (Suc n) = rbind (map_err (Pair i) (r i)) (\<lambda>_. first_failure r (Suc i) n)"

section \<open>The loop over the inputs\<close>

lemma verify_at:
  assumes "precheck (snd tx) prevs f = None" "i < length prevs"
  shows "verify C K (script_pubkey (prevs ! i)) (out_value (prevs ! i)) tx i f
    \<lparr>pd_tx = tx, pd_spent_outputs = prevs, pd_cache = None\<rparr> = map_err ErrScript (input_verdict C K (snd tx) prevs f i)"
  using assms
  by (auto simp: verify_def precheck_def input_verdict_def index_def Let_def TxSignatureChecker_with_cache_def
      TxSignatureChecker_new_def split: if_splits)

lemma verify_inputs_first_failure:
  assumes "precheck (snd tx) prevs f = None" "prevs = done' @ rest" "length done' = i"
  shows "verify_inputs C K tx f \<lparr>pd_tx = tx, pd_spent_outputs = prevs, pd_cache = None\<rparr> rest i
    = first_failure (\<lambda>j. map_err ErrScript (input_verdict C K (snd tx) prevs f j)) i (length rest)"
  using assms(2,3)
proof (induction rest arbitrary: done' i)
  case (Cons p rest)
  have "i < length prevs" "prevs ! i = p" using Cons.prems by (auto simp: nth_append)
  with Cons.IH [of "done' @ [p]" "Suc i"] verify_at [OF assms(1), of i C K] Cons.prems show ?case by simp
qed simp

lemma verify_transaction_eq:
  "verify_transaction C K tx prevs f = (case precheck (snd tx) prevs f of
     Some e \<Rightarrow> Err (0, e)
   | None \<Rightarrow> first_failure (\<lambda>j. map_err ErrScript (input_verdict C K (snd tx) prevs f j)) 0 (length prevs))"
proof (cases "precheck (snd tx) prevs f")
  case None
  then show ?thesis
    using verify_inputs_first_failure [OF None, of "[]" prevs 0 C K]
    by (auto simp: verify_transaction_def precheck_def PrecomputedTransactionData_new_def split: if_splits)
next
  case (Some e)
  then show ?thesis by (auto simp: verify_transaction_def precheck_def split: if_splits)
qed

lemma from_index_split:
  "(\<forall>j. i \<le> j \<and> j < m \<longrightarrow> P j) \<longleftrightarrow> (i < m \<longrightarrow> P i) \<and> (\<forall>j. Suc i \<le> j \<and> j < m \<longrightarrow> P j)"
  by (metis Suc_leD Suc_leI le_neq_implies_less le_refl)

lemma first_failure_Ok: "first_failure r i n = Ok () \<longleftrightarrow> (\<forall>j. i \<le> j \<and> j < i + n \<longrightarrow> r j = Ok ())"
proof (induction n arbitrary: i)
  case (Suc n)
  show ?case
    using Suc.IH [of "Suc i"] unfolding from_index_split [of i "i + Suc n"] by (cases "r i") simp_all
qed auto

lemma first_failure_Err:
  "first_failure r i n = Err (k, e) \<longleftrightarrow> i \<le> k \<and> k < i + n \<and> r k = Err e \<and> (\<forall>j. i \<le> j \<and> j < k \<longrightarrow> r j = Ok ())"
proof (induction n arbitrary: i)
  case (Suc n)
  show ?case
  proof (cases "i = k")
    case True
    then show ?thesis using Suc.IH [of "Suc i"] by (cases "r i") auto
  next
    case False
    then show ?thesis
      using Suc.IH [of "Suc i"] unfolding from_index_split [of i k] by (cases "r i") auto
  qed
qed auto

lemma first_failure_no_panic: "(\<And>j. i \<le> j \<Longrightarrow> j < i + n \<Longrightarrow> no_panic (r j)) \<Longrightarrow> no_panic (first_failure r i n)"
proof (induction n arbitrary: i)
  case (Suc n)
  then have "no_panic (first_failure r (Suc i) n)" "no_panic (r i)" by auto
  then show ?case by (cases "r i") auto
qed simp

lemma input_verdict_no_panic:
  assumes "signing_data_ends_with_type K" "i < length (tx_input tx)" "witness_fits C (witness (tx_input tx ! i))"
  shows "no_panic (input_verdict C K tx prevs f i)"
  using assms txc.verify_script_no_panic [of "(C, K, TxSignatureChecker_new tx i (out_value (prevs ! i)) prevs)"]
  by (simp add: input_verdict_def checker_ready_def TxSignatureChecker_new_def TxSignatureChecker_with_cache_def)

lemma precheck_relax: "flags_le f g \<Longrightarrow> precheck tx prevs g = None \<Longrightarrow> precheck tx prevs f = None"
  by (auto simp: precheck_def valid_flags_iff flags_le_bit has_flag_mono split: if_splits dest: has_flag_mono [OF flags_le_bit [THEN iffD2]])

end
