(* ===== verification/Multisig.thy ===== *)
theory Multisig
  imports Eval_Safety "HOL-Library.Sublist"
begin

text \<open>
  What the multisignature arm decides.  The loop walks signatures and keys once, in order; it is
  shown equal to a greedy recursion, and that to the existence of an order-preserving assignment of
  distinct keys to all signatures.
\<close>

section \<open>Greedy matching\<close>

fun greedy :: "('a \<Rightarrow> 'b \<Rightarrow> bool) \<Rightarrow> 'a list \<Rightarrow> 'b list \<Rightarrow> bool" where
  "greedy R [] ks = True"
| "greedy R (s # ss) [] = False"
| "greedy R (s # ss) (k # ks) = (if R s k then greedy R ss ks else greedy R (s # ss) ks)"

definition matching :: "('a \<Rightarrow> 'b \<Rightarrow> bool) \<Rightarrow> 'a list \<Rightarrow> 'b list \<Rightarrow> bool" where
  "matching R ss ks \<longleftrightarrow> (\<exists>ms. subseq ms ks \<and> list_all2 R ss ms)"

lemma matching_Nil [simp]: "matching R [] ks"
  by (auto simp: matching_def)

lemma matching_Cons_Nil [simp]: "\<not> matching R (s # ss) []"
  by (auto simp: matching_def dest: list_emb_Nil2)

lemma matching_weaken: "matching R ss ks \<Longrightarrow> matching R ss (k # ks)"
  by (auto simp: matching_def)

lemma matching_drop: "matching R (s # ss) ks \<Longrightarrow> matching R ss ks"
  by (fastforce simp: matching_def list_all2_Cons1 dest: subseq_Cons')

lemma matching_Cons:
  "matching R (s # ss) (k # ks) \<longleftrightarrow> (if R s k then matching R ss ks else matching R (s # ss) ks)"
proof -
  have take: "matching R ss ks" if "matching R (s # ss) (k # ks)"
    using that unfolding matching_def
    by (auto simp: list_all2_Cons1 subseq_Cons2_iff split: if_splits) (blast intro: subseq_Cons')+
  have use: "matching R (s # ss) (k # ks)" if m: "matching R ss ks" and r: "R s k"
  proof -
    obtain ms where "subseq ms ks" "list_all2 R ss ms" using m by (auto simp: matching_def)
    then have "subseq (k # ms) (k # ks) \<and> list_all2 R (s # ss) (k # ms)" using r by simp
    then show ?thesis unfolding matching_def by blast
  qed
  have skip: "matching R (s # ss) ks" if "matching R (s # ss) (k # ks)" "\<not> R s k"
    using that by (auto simp: matching_def list_all2_Cons1 subseq_Cons2_iff split: if_splits)
  show ?thesis
    using take use skip matching_weaken by (cases "R s k") auto
qed

lemma greedy_matching: "greedy R ss ks \<longleftrightarrow> matching R ss ks"
  by (induction R ss ks rule: greedy.induct) (auto simp: matching_Cons)

lemma greedy_length: "greedy R ss ks \<Longrightarrow> length ss \<le> length ks"
  by (induction R ss ks rule: greedy.induct) (auto split: if_splits)

section \<open>The loop is the greedy matching\<close>

lemma window_Cons:
  assumes "0 < i" "i + n \<le> length s" 
  shows "take (Suc n) (drop (i - 1) s) = s ! (i - 1) # take n (drop i s)"
  using assms by (cases i) (simp_all add: Cons_nth_drop_Suc [symmetric])

lemma multisig_loop_greedy:
  fixes ns nk :: int
  assumes "multisig_loop cx code s ok ns nk isig ikey = Ok b"
    and "0 \<le> ns" "0 \<le> nk" "ok = (ns \<le> nk)" "0 < isig" "0 < ikey"
    and "isig - 1 + nat ns \<le> length s" "ikey - 1 + nat nk \<le> length s"
  shows "b = greedy (\<lambda>sig pk. check_ecdsa_signature (cx_checker cx) sig pk code (cx_sig_version cx) = Ok True)
    (take (nat ns) (drop (isig - 1) s)) (take (nat nk) (drop (ikey - 1) s))"
  using assms
proof (induction cx code s ok ns nk isig ikey rule: multisig_loop.induct)
  case (1 cx code s ok ns nk isig ikey)
  let ?R = "\<lambda>sig pk. check_ecdsa_signature (cx_checker cx) sig pk code (cx_sig_version cx) = Ok True"
  show ?case
  proof (cases "ok \<and> 0 < ns")
    case False
    then have "b = ok" using "1.prems"(1) by (simp add: multisig_loop_stop)
    then show ?thesis
      using False "1.prems" greedy_length [of ?R "take (nat ns) (drop (isig - 1) s)" "take (nat nk) (drop (ikey - 1) s)"]
      by (cases "ns = 0") auto
  next
    case True
    obtain sig pk f where *: "stacktop s isig = Ok sig" "stacktop s ikey = Ok pk"
        "check_signature_encoding (cx_crypto cx) sig (cx_flags cx) = Ok ()"
        "check_pubkey_encoding pk (cx_flags cx) (cx_sig_version cx) = Ok ()"
        "check_ecdsa_signature (cx_checker cx) sig pk code (cx_sig_version cx) = Ok f"
      and rest: "multisig_loop cx code s (\<not> nk - 1 < (if f then ns - 1 else ns)) (if f then ns - 1 else ns)
        (nk - 1) (if f then isig + 1 else isig) (ikey + 1) = Ok b"
      using "1.prems"(1) unfolding multisig_loop_step [OF True] by (elim rbind_OkE) simp
    define n k where "n = nat ns - 1" and "k = nat nk - 1"
    have nk: "nat ns = Suc n" "nat nk = Suc k" "nat (ns - 1) = n" "nat (nk - 1) = k"
      using True "1.prems" by (auto simp: n_def k_def)
    have IH: "b = greedy ?R (take (nat (if f then ns - 1 else ns)) (drop ((if f then isig + 1 else isig) - 1) s))
        (take (nat (nk - 1)) (drop (ikey + 1 - 1) s))"
      using "1.prems" True by (intro "1.IH" [OF True * refl refl refl refl rest]) auto
    have sw: "take (Suc n) (drop (isig - 1) s) = sig # take n (drop isig s)"
      and kw: "take (Suc k) (drop (ikey - 1) s) = pk # take k (drop ikey s)"
      using * "1.prems" nk window_Cons [of isig n s] window_Cons [of ikey k s] by auto
    show ?thesis
      using IH *(5) sw kw by (cases f) (simp_all add: nk)
  qed
qed


section \<open>The whole arm\<close>

lemma op_checkmultisig_counts:
  assumes ok: "op_checkmultisig cx oc st = Ok st'"
    and stack: "st_stack st = bk # keys @ bs # sigs @ rest"
    and nk: "num (require_minimal cx) bk = Ok (int (length keys))"
    and ns: "num (require_minimal cx) bs = Ok (int (length sigs))"
  shows "length keys \<le> MAX_PUBKEYS_PER_MULTISIG \<and> length sigs \<le> length keys \<and>
    (\<exists>s. multisig_check cx oc st (int (length keys)) (int (length sigs)) (length keys + 3)
        (length keys + length sigs + 3) = Ok s \<and> st_stack st' = s)"
proof -
  have g: "getint (int (length keys)) = int (length keys)" "getint (int (length sigs)) = int (length sigs)"
    using num_bound [OF nk] num_bound [OF ns] by (simp_all add: getint_def)
  have t: "stacktop (st_stack st) 1 = Ok bk" "stacktop (st_stack st) (2 + length keys) = Ok bs"
    by (simp_all add: stack nth_append)
  note run = ok [unfolded op_checkmultisig_def Let_def t rbind_simps nk ns g nat_int]
  obtain s where "\<not> (int (length keys) < 0 \<or> MAX_PUBKEYS_PER_MULTISIG < length keys)"
    "\<not> (int (length sigs) < 0 \<or> int (length keys) < int (length sigs))"
    "multisig_check cx oc st (int (length keys)) (int (length sigs)) (2 + length keys + 1)
       (2 + length keys + 1 + length sigs) = Ok s"
    "st_stack st' = s"
    using run by (elim guard_OkE rbind_OkE) auto
  then show ?thesis by (auto simp: eval_nat_numeral ac_simps)
qed

lemma checkmultisig_matching:
  assumes ok: "op_checkmultisig cx OP_CHECKMULTISIG st = Ok st'"
    and stack: "st_stack st = bk # keys @ bs # sigs @ dummy # rest"
    and nk: "num (require_minimal cx) bk = Ok (int (length keys))"
    and ns: "num (require_minimal cx) bs = Ok (int (length sigs))"
  shows "\<exists>code. (cx_sig_version cx \<noteq> Base \<longrightarrow> code = drop (st_pbegincodehash st) (cx_script cx)) \<and>
    st_stack st' = stack_bool (matching (\<lambda>sig pk.
      check_ecdsa_signature (cx_checker cx) sig pk code (cx_sig_version cx) = Ok True) sigs keys) # rest"
proof -
  let ?s = "st_stack st" and ?k = "length keys" and ?n = "length sigs"
  have le: "?n \<le> ?k" and c: "multisig_check cx OP_CHECKMULTISIG st (int ?k) (int ?n) (?k + 3) (?k + ?n + 3) = Ok (st_stack st')"
    using op_checkmultisig_counts [OF ok stack nk ns] by auto
  obtain code b s1 where code: "cx_sig_version cx \<noteq> Base \<longrightarrow> code = drop (st_pbegincodehash st) (cx_script cx)"
    and loop: "multisig_loop cx code ?s True (int ?n) (int ?k) (?k + 3) 2 = Ok b"
    and clean: "multisig_cleanup (cx_flags cx) b (?k + ?n + 3 - 1) (?k + 2) ?s = Ok s1"
    and fin: "multisig_finish cx OP_CHECKMULTISIG b s1 = Ok (st_stack st')"
    using c unfolding multisig_check_def Let_def nat_int by (elim rbind_OkE) (force split: if_splits)
  have "b = greedy (\<lambda>sig pk. check_ecdsa_signature (cx_checker cx) sig pk code (cx_sig_version cx) = Ok True)
      (take ?n (drop (?k + 3 - 1) ?s)) (take ?k (drop (2 - 1) ?s))"
    using multisig_loop_greedy [OF loop] le by (simp add: stack)
  then have b: "b = matching (\<lambda>sig pk. check_ecdsa_signature (cx_checker cx) sig pk code (cx_sig_version cx) = Ok True) sigs keys"
    by (simp add: stack greedy_matching)
  have "s1 = drop (?k + ?n + 3 - 1) ?s" by (rule multisig_cleanup_Ok [OF _ clean]) (simp add: stack)
  then have "s1 = dummy # rest" by (simp add: stack)
  then have "st_stack st' = stack_bool b # rest"
    using fin by (auto simp: multisig_finish_def op_defs split: if_splits)
  then show ?thesis using code b by blast
qed

section \<open>Property\<close>

text \<open>
  C4: \<open>OP_CHECKMULTISIG\<close> on a stack that holds, from the top, a key count, that many keys, a
  signature count, that many signatures and a dummy element replaces all of them by true exactly when
  the signatures can be assigned to a subsequence of the keys so that each one verifies, and by false
  otherwise.  The script code is the executed script from the last separator on, except that the base
  version first deletes the signatures from it.
\<close>

theorem checkmultisig_decides_matching:
  assumes "op_checkmultisig cx OP_CHECKMULTISIG st = Ok st'"
    and "st_stack st = bk # keys @ bs # sigs @ dummy # rest"
    and "num (require_minimal cx) bk = Ok (int (length keys))"
    and "num (require_minimal cx) bs = Ok (int (length sigs))"
  shows "\<exists>code. (cx_sig_version cx \<noteq> Base \<longrightarrow> code = drop (st_pbegincodehash st) (cx_script cx)) \<and>
    st_stack st' = stack_bool (matching (\<lambda>sig pk.
      check_ecdsa_signature (cx_checker cx) sig pk code (cx_sig_version cx) = Ok True) sigs keys) # rest"
  by (rule checkmultisig_matching [OF assms])

text \<open>A checker that accepts a signature equal to the key, for a two-key example.\<close>

definition echo_checker :: checker where
  "echo_checker = NoopChecker\<lparr>check_ecdsa_signature := (\<lambda>sig pk code sv. Ok (sig = pk))\<rparr>"

definition echo_ctx :: eval_ctx where
  "echo_ctx = \<lparr>cx_crypto = sample_crypto, cx_script = [0xae], cx_flags = 0, cx_checker = echo_checker,
     cx_sig_version = WitnessV0\<rparr>"

definition echo_state :: eval_state where
  "echo_state = (eval_init [[2], [7], [8], [1], [8], []] ExecData_new)\<lparr>st_pc := 1\<rparr>"

lemma multisig_cleanup_True: "multisig_cleanup f True n k s = Ok (drop n s)"
  by (induction n arbitrary: k s) (simp_all add: drop_Suc)

lemma echo_run: "op_checkmultisig echo_ctx OP_CHECKMULTISIG echo_state
    = Ok (echo_state\<lparr>st_stack := [[1]], st_n_op_count := 2\<rparr>)"
  by (simp add: op_checkmultisig_def echo_ctx_def echo_state_def echo_checker_def eval_init_def
      stacktop_def num_def from_bytes_default_def from_bytes_eq DEFAULT_MAX_NUM_SIZE_def sm_value_def
      sm_mag_def getint_def limit_defs multisig_check_def slice_from_def multisig_loop_step multisig_loop_stop
      check_signature_encoding_def check_pubkey_encoding_def has_flag_def multisig_finish_def op_defs
      require_minimal_def Let_def multisig_cleanup_True stack_bool_def STACK_TRUE_def)

theorem checkmultisig_decides_matching_witness:
  "\<exists>code. code = [0xae] \<and>
    [[1]] = stack_bool (matching (\<lambda>sig pk. check_ecdsa_signature echo_checker sig pk code WitnessV0 = Ok True)
      [[8]] [[7], [8]]) # []"
  using checkmultisig_decides_matching [OF echo_run, of "[2]" "[[7], [8]]" "[1]" "[[8]]" "[]" "[]"]
  by (simp add: echo_ctx_def echo_state_def eval_init_def num_def from_bytes_default_def from_bytes_eq
      DEFAULT_MAX_NUM_SIZE_def sm_value_def sm_mag_def require_minimal_def has_flag_def)

end
