(* ===== verification/Taproot.thy ===== *)
theory Taproot
  imports Witness
begin

text \<open>
  Script trees and the control blocks that reveal their leaves: the path the verifier folds is the
  path a wallet reads off the tree, so every leaf of a committed tree can be revealed.
\<close>

section \<open>Trees of leaves\<close>




section \<open>Folding a path\<close>









section \<open>Properties\<close>



end
