(* ===== verification/Templates.thy ===== *)
theory Templates
  imports Verify Eval_Limits
begin

text \<open>
  Script templates and walks.  A single push reads back as its data, the push-only test and the
  \<open>OP_SUCCESS\<close> scan agree with the reference parser on every script that parses, and a version 0
  key-hash program reduces to one hash comparison and one signature check.
\<close>

section \<open>Pushes\<close>

lemma drop_bit_nat: "drop_bit k (n :: nat) = n div 2 ^ k"
  by (simp add: drop_bit_eq_div)

lemma le32_of_nat:
  assumes "n < 2 ^ 32"
  shows "le32 (of_nat n) (of_nat (drop_bit 8 n)) (of_nat (drop_bit 16 n)) (of_nat (drop_bit 24 n)) = n"
proof -
  define a b c where "a = n div 256" and "b = a div 256" and "c = b div 256"
  have d: "n div 2 ^ 8 = a" "n div 2 ^ 16 = b" "n div 2 ^ 24 = c"
    by (simp_all add: a_def b_def c_def div_mult2_eq [symmetric])
  have "c < 256" using assms by (simp add: a_def b_def c_def div_mult2_eq [symmetric] less_mult_imp_div_less)
  moreover have "n mod 256 + 256 * a = n" "a mod 256 + 256 * b = a" "b mod 256 + 256 * c = b"
    by (simp_all add: a_def b_def c_def)
  ultimately show ?thesis
    unfolding le32_eq drop_bit_nat unat_of_nat_byte d by simp
qed

lemma le16_of_nat:
  assumes "n < 2 ^ 16"
  shows "le16 (of_nat n) (of_nat (drop_bit 8 n)) = n"
proof -
  have "n div 256 < 256" using assms by (simp add: less_mult_imp_div_less)
  moreover have "n mod 256 + 256 * (n div 256) = n" by simp
  ultimately show ?thesis unfolding le16_eq drop_bit_nat unat_of_nat_byte by simp
qed

lemma of_nat_byte_cases: "n \<le> 75 \<Longrightarrow> (of_nat n :: byte) \<le> 75 \<and> ((of_nat n :: byte) = 0 \<longleftrightarrow> n = 0) \<and> unat (of_nat n :: byte) = n"
  by (simp add: word_le_nat_alt word_unat_eq_iff)

lemma read_build_single_push:
  assumes "length data < 2 ^ 32"
  shows "read_instruction (build_single_push data @ rest) 0
    = Some (build_single_push data ! 0, data, length (build_single_push data))"
proof -
  let ?n = "length data"
  consider "?n \<le> 75" | "75 < ?n" "?n \<le> 255" | "255 < ?n" "?n \<le> 65535" | "65535 < ?n" by linarith
  then show ?thesis
  proof cases
    case 1
    then show ?thesis
      using of_nat_byte_cases [OF 1] by (auto simp: read_instruction_def build_single_push_def Let_def read_push_def subslice_def)
  next
    case 2
    then show ?thesis
      by (simp add: read_instruction_def build_single_push_def Let_def read_push_def subslice_def op_defs)
  next
    case 3
    then show ?thesis
      using le16_of_nat [of ?n]
      by (simp add: read_instruction_def build_single_push_def Let_def read_push_def subslice_def op_defs)
  next
    case 4
    then show ?thesis
      using le32_of_nat [of ?n] assms
      by (simp add: read_instruction_def build_single_push_def Let_def read_push_def subslice_def op_defs)
  qed
qed

lemma push_pattern_single: "length sig \<le> 65535 \<Longrightarrow> push_pattern sig = build_single_push sig"
  by (simp add: push_pattern_def build_single_push_def Let_def)


section \<open>The two walks over a script\<close>

lemma parse_from_induct [consumes 1, case_names finished step]:
  assumes "parse_from script pc = Some is"
    and "\<And>pc. length script \<le> pc \<Longrightarrow> P pc []"
    and "\<And>pc oc d pc' is. pc < length script \<Longrightarrow> read_instruction script pc = Some (oc, d, pc')
      \<Longrightarrow> parse_from script pc' = Some is \<Longrightarrow> P pc' is \<Longrightarrow> P pc ((oc, d) # is)"
  shows "P pc is"
  using assms
proof (induction script pc arbitrary: "is" rule: parse_from.induct)
  case (1 script pc)
  show ?case
  proof (cases "pc < length script")
    case True
    then obtain oc d pc' js where r: "read_instruction script pc = Some (oc, d, pc')"
      "parse_from script pc' = Some js" "is = (oc, d) # js"
      using "1.prems"(1) by (auto simp: parse_from.simps [of script pc] split: option.splits)
    then show ?thesis using "1.IH" [OF True r(1) refl refl r(2)] "1.prems"(2,3) True by blast
  next
    case False
    then show ?thesis using "1.prems" by (simp add: parse_from.simps [of script pc])
  qed
qed

text \<open>Where the next instruction starts, by the class of the opcode.\<close>

lemma read_instruction_next:
  assumes r: "read_instruction s pc = Some (oc, d, pc')"
  shows "s ! pc = oc"
    and "oc \<le> 75 \<Longrightarrow> pc' = pc + 1 + unat oc"
    and "oc = 0x4c \<Longrightarrow> pc + 1 < length s \<and> pc' = pc + 1 + (1 + unat (s ! (pc + 1)))"
    and "oc = 0x4d \<Longrightarrow> pc + 1 + 1 < length s \<and> pc' = pc + 1 + (2 + le16 (s ! (pc + 1)) (s ! (pc + 1 + 1)))"
    and "oc = 0x4e \<Longrightarrow> pc + 1 + 3 < length s \<and>
      pc' = pc + 1 + (4 + le32 (s ! (pc + 1)) (s ! (pc + 1 + 1)) (s ! (pc + 1 + 2)) (s ! (pc + 1 + 3)))"
    and "\<not> oc \<le> 75 \<Longrightarrow> oc \<noteq> 0x4c \<Longrightarrow> oc \<noteq> 0x4d \<Longrightarrow> oc \<noteq> 0x4e \<Longrightarrow> pc' = pc + 1"
proof -
  show oc: "s ! pc = oc" using read_instruction_bounds [OF r] by simp
  note run = r [unfolded read_instruction_def Let_def oc op_defs]
  show "oc \<le> 75 \<Longrightarrow> pc' = pc + 1 + unat oc"
    using run by (cases "oc = 0") (auto simp: read_push_Some split: if_splits)
  show "oc = 0x4c \<Longrightarrow> pc + 1 < length s \<and> pc' = pc + 1 + (1 + unat (s ! (pc + 1)))"
    using run by (simp add: read_push_Some not_le split: if_splits)
  show "oc = 0x4d \<Longrightarrow> pc + 1 + 1 < length s \<and> pc' = pc + 1 + (2 + le16 (s ! (pc + 1)) (s ! (pc + 1 + 1)))"
    using run by (simp add: read_push_Some not_le split: if_splits)
  show "oc = 0x4e \<Longrightarrow> pc + 1 + 3 < length s \<and>
      pc' = pc + 1 + (4 + le32 (s ! (pc + 1)) (s ! (pc + 1 + 1)) (s ! (pc + 1 + 2)) (s ! (pc + 1 + 3)))"
    using run by (simp add: read_push_Some not_le split: if_splits)
  show "\<not> oc \<le> 75 \<Longrightarrow> oc \<noteq> 0x4c \<Longrightarrow> oc \<noteq> 0x4d \<Longrightarrow> oc \<noteq> 0x4e \<Longrightarrow> pc' = pc + 1"
    using run by (auto split: if_splits)
qed

lemma opcode_classes:
  obtains "(oc :: byte) \<le> 75" | "oc = 0x4c" | "oc = 0x4d" | "oc = 0x4e"
    | "\<not> oc \<le> 75" "oc \<noteq> 0x4c" "oc \<noteq> 0x4d" "oc \<noteq> 0x4e"
  by blast

lemma push_only_step:
  assumes "pc < length script" "read_instruction script pc = Some (oc, d, pc')"
  shows "push_only_from script pc \<longleftrightarrow> \<not> oc > OP_16 \<and> push_only_from script pc'"
proof -
  note next_pc = read_instruction_next [OF assms(2)]
  note unfold = push_only_from.simps [of script pc] Let_def next_pc(1) OP_16_def
  have small: "\<not> oc > 0x60" if "oc \<le> 75"
    using that by (simp add: word_le_nat_alt word_less_nat_alt)
  show ?thesis
  proof (rule opcode_classes [of oc])
    assume "oc \<le> 75"
    then show ?thesis using next_pc(2) assms(1) small by (auto simp: unfold)
  next
    assume "oc = 0x4c"
    then show ?thesis using next_pc(3) assms(1) by (simp add: unfold)
  next
    assume "oc = 0x4d"
    then show ?thesis using next_pc(4) assms(1) by (simp add: unfold)
  next
    assume "oc = 0x4e"
    then show ?thesis using next_pc(5) assms(1) by (simp add: unfold)
  next
    assume "\<not> oc \<le> 75" "oc \<noteq> 0x4c" "oc \<noteq> 0x4d" "oc \<noteq> 0x4e"
    then show ?thesis using next_pc(6) assms(1) by (auto simp: unfold)
  qed
qed

lemma scan_step:
  assumes "pc < length script" "read_instruction script pc = Some (oc, d, pc')"
  shows "op_success_scan script f pc =
    (if is_op_success oc then
       Some (if has_flag f VERIFY_DISCOURAGE_OP_SUCCESS then Err DiscourageOpSuccess else Ok ())
     else op_success_scan script f pc')"
proof -
  note next_pc = read_instruction_next [OF assms(2)]
  note unfold = op_success_scan.simps [of script f pc] Let_def next_pc(1) 
  have small: "\<not> is_op_success oc" if "oc \<le> 75"
    using that by (auto simp: is_op_success_def word_le_nat_alt)
  have push: "\<not> is_op_success 0x4c" "\<not> is_op_success 0x4d" "\<not> is_op_success 0x4e"
    by (simp_all add: is_op_success_def)
  show ?thesis
  proof (rule opcode_classes [of oc])
    assume "oc \<le> 75"
    then show ?thesis using next_pc(2) assms(1) small by (auto simp: unfold)
  next
    assume "oc = 0x4c"
    then show ?thesis using next_pc(3) assms(1) push by (simp add: unfold)
  next
    assume "oc = 0x4d"
    then show ?thesis using next_pc(4) assms(1) push by (simp add: unfold)
  next
    assume "oc = 0x4e"
    then show ?thesis using next_pc(5) assms(1) push by (simp add: unfold)
  next
    assume "\<not> oc \<le> 75" "oc \<noteq> 0x4c" "oc \<noteq> 0x4d" "oc \<noteq> 0x4e"
    then show ?thesis using next_pc(6) assms(1) by (auto simp: unfold)
  qed
qed


lemma push_only_parse:
  "parse_from script pc = Some is \<Longrightarrow> push_only_from script pc \<longleftrightarrow> (\<forall>(oc, d) \<in> set is. \<not> oc > OP_16)"
proof (induction rule: parse_from_induct)
  case (finished pc)
  then show ?case by (simp add: push_only_from.simps)
next
  case (step pc oc d pc' "is")
  then show ?case using push_only_step [of pc script oc d pc'] by auto
qed

lemma scan_parse:
  "parse_from script pc = Some is \<Longrightarrow> op_success_scan script f pc =
     (if \<exists>(oc, d) \<in> set is. is_op_success oc
      then Some (if has_flag f VERIFY_DISCOURAGE_OP_SUCCESS then Err DiscourageOpSuccess else Ok ())
      else None)"
proof (induction rule: parse_from_induct)
  case (finished pc)
  then show ?case by (simp add: op_success_scan.simps)
next
  case (step pc oc d pc' "is")
  then show ?case using scan_step [of pc script oc d pc' f] by auto
qed

section \<open>Version 0 key-hash programs\<close>

definition p2wpkh_ctx :: "crypto \<Rightarrow> bytes \<Rightarrow> u32 \<Rightarrow> checker \<Rightarrow> eval_ctx" where
  "p2wpkh_ctx C prog f chk = \<lparr>cx_crypto = C, cx_script = p2wpkh_script prog, cx_flags = f, cx_checker = chk,
     cx_sig_version = WitnessV0\<rparr>"

lemma p2wpkh_read:
  assumes "length prog = 20"
  shows "length (p2wpkh_script prog) = 25"
    "read_instruction (p2wpkh_script prog) 0 = Some (OP_DUP, [], 1)"
    "read_instruction (p2wpkh_script prog) 1 = Some (OP_HASH160, [], 2)"
    "read_instruction (p2wpkh_script prog) 2 = Some (0x14, prog, 23)"
    "read_instruction (p2wpkh_script prog) 23 = Some (OP_EQUALVERIFY, [], 24)"
    "read_instruction (p2wpkh_script prog) 24 = Some (OP_CHECKSIG, [], 25)"
  using assms
  by (simp_all add: p2wpkh_script_def read_instruction_def read_push_def subslice_def Let_def op_defs nth_append)

lemma p2wpkh_minimal: "length prog = 20 \<Longrightarrow> check_minimal_push prog 0x14"
  by (auto simp: check_minimal_push_def)

lemma p2wpkh_eval:
  assumes "length prog = 20"
  shows "eval_script C [pk, sig] (p2wpkh_script prog) f chk WitnessV0 ed =
    (if ripemd160 C (sha256 C pk) \<noteq> prog then Err EqualVerify
     else rbind (eval_checksig_pre_tapscript (p2wpkh_ctx C prog f chk) sig pk (p2wpkh_script prog)) (\<lambda>b.
       Ok ([stack_bool b], ed\<lparr>codeseparator_pos := 0xFFFFFFFF, codeseparator_pos_init := True\<rparr>)))"
proof -
  note simps = eval_script_def eval_init_def eval_step_def exec_instruction_def exec_opcode_def
    stack_arm_def on_stack_def legacy_limits_def limit_defs is_disabled_def op_defs
    checked_u32_add_def u32_max_def Let_def cs_new_def all_true_def cs_is_empty_def NO_FALSE_def
    op_dup_def op_hash160_def op_equal_def op_checksig_def slice_from_def eval_checksig_def
  show ?thesis
    using p2wpkh_read [OF assms, unfolded op_defs] p2wpkh_minimal [OF assms] assms
    by (cases "eval_checksig_pre_tapscript (p2wpkh_ctx C prog f chk) sig pk (p2wpkh_script prog)")
      (simp_all add: simps eval_loop.simps p2wpkh_ctx_def)
qed

lemma p2wpkh_program:
  assumes "length prog = 20"
  shows "verify_witness_program C [sig, pk] 0 prog f chk p2sh =
    (if length sig > MAX_SCRIPT_ELEMENT_SIZE \<or> length pk > MAX_SCRIPT_ELEMENT_SIZE then Err PushSize
     else if ripemd160 C (sha256 C pk) \<noteq> prog then Err EqualVerify
     else rbind (eval_checksig_pre_tapscript (p2wpkh_ctx C prog f chk) sig pk (p2wpkh_script prog)) (\<lambda>b.
       if b then Ok () else Err EvalFalse))"
  using assms
  by (cases "eval_checksig_pre_tapscript (p2wpkh_ctx C prog f chk) sig pk (p2wpkh_script prog)")
    (auto simp: verify_witness_program_def verify_witness_v0_def witness_defs execute_witness_script_def
      run_witness_script_def p2wpkh_eval)
section \<open>Properties\<close>

text \<open>
  Round trip of pushes: reading an instruction from a script that starts with the single push of
  some data gives back exactly that data and the position after the push.
\<close>

theorem single_push_round_trip:
  assumes "length data < 2 ^ 32"
  shows "\<exists>oc. read_instruction (build_single_push data @ rest) 0
    = Some (oc, data, length (build_single_push data))"
  using read_build_single_push [OF assms] by blast

theorem single_push_round_trip_witness:
  "\<exists>oc. read_instruction (build_single_push (replicate 300 7) @ [0xac]) 0
    = Some (oc, replicate 300 7, length (build_single_push (replicate 300 7)))"
  by (rule single_push_round_trip) simp

text \<open>
  On every script that parses, the push-only test holds exactly when each opcode is at most
  \<open>OP_16\<close>.
\<close>

theorem is_push_only_iff_parse:
  assumes "parse script = Some is"
  shows "is_push_only script \<longleftrightarrow> (\<forall>(oc, d) \<in> set is. \<not> oc > OP_16)"
  using push_only_parse [of script 0 "is"] assms by (simp add: is_push_only_def parse_def)

theorem is_push_only_iff_parse_witness:
  "is_push_only [0x51, 0x76] \<longleftrightarrow> \<not> OP_DUP > OP_16"
  using is_push_only_iff_parse [of "[0x51, 0x76]" "[(0x51, []), (0x76, [])]"]
  by (simp add: parse_def parse_from.simps read_instruction_def op_defs)

text \<open>
  A push that is cut off is walked over: the test accepts a script that does not parse.
\<close>

lemma push_only_truncated: "is_push_only [0x05] \<and> parse [0x05] = None"
  by (simp add: is_push_only_def push_only_from.simps parse_def parse_from.simps read_instruction_def
      read_push_def op_defs)

text \<open>
  C36: On every tapscript that parses, the scan reports an \<open>OP_SUCCESS\<close> exactly when the script holds
  one, and then returns success, or the policy error when that flag is set.
\<close>

theorem op_success_scan_iff_parse:
  assumes "parse script = Some is"
  shows "scan_for_op_success script f =
    (if \<exists>(oc, d) \<in> set is. is_op_success oc
     then Some (if has_flag f VERIFY_DISCOURAGE_OP_SUCCESS then Err DiscourageOpSuccess else Ok ())
     else None)"
  using scan_parse [of script 0 "is" f] assms by (simp add: scan_for_op_success_def parse_def)

theorem op_success_scan_iff_parse_witness:
  "scan_for_op_success [0x51, 0x50] 0 = Some (Ok ())"
  using op_success_scan_iff_parse [of "[0x51, 0x50]" "[(0x51, []), (0x50, [])]" 0]
  by (simp add: parse_def parse_from.simps read_instruction_def op_defs is_op_success_def has_flag_def)

text \<open>
  C37: Spending a version 0 key-hash program with a signature and a public key succeeds exactly when
  both fit the element limit, the key hashes to the program and the signature check of the implied
  script succeeds; each failure is reported by its own error.
\<close>

theorem p2wpkh_spend:
  assumes "length prog = 20"
  shows "verify_witness_program C [sig, pk] 0 prog f chk p2sh =
    (if length sig > MAX_SCRIPT_ELEMENT_SIZE \<or> length pk > MAX_SCRIPT_ELEMENT_SIZE then Err PushSize
     else if ripemd160 C (sha256 C pk) \<noteq> prog then Err EqualVerify
     else rbind (eval_checksig_pre_tapscript (p2wpkh_ctx C prog f chk) sig pk (p2wpkh_script prog)) (\<lambda>b.
       if b then Ok () else Err EvalFalse))"
  by (rule p2wpkh_program [OF assms])

theorem p2wpkh_spend_witness:
  "verify_witness_program sample_crypto [[], [2]] 0 (replicate 20 0) 0 NoopChecker False = Err EvalFalse"
proof -
  have "length (replicate 20 (0 :: byte)) = 20" by simp
  from p2wpkh_spend [OF this, of sample_crypto "[]" "[2]" 0 NoopChecker False] show ?thesis
    by (simp add: MAX_SCRIPT_ELEMENT_SIZE_def sample_crypto_def eval_checksig_pre_tapscript_def
        p2wpkh_ctx_def check_signature_encoding_def check_pubkey_encoding_def has_flag_def NoopChecker_def)
qed

end
