(* ===== verification/Tx_Lib.thy ===== *)
theory Tx_Lib
  imports Tx_Types
begin

text \<open>
  What the node takes from the \<open>bitcoin\<close> crate about transactions and blocks: the functions the
  validation code calls, as the fields of a record that every definition using them is given.
\<close>

record Header =
  hdr_version :: u32
  prev_blockhash :: bytes
  merkle_root :: bytes
  hdr_time :: u32
  bits :: u32
  hdr_nonce :: u32

record Block =
  header :: Header
  txdata :: "Transaction list"

record tx_lib =
  is_coinbase :: "Transaction \<Rightarrow> bool"
  is_null :: "OutPoint \<Rightarrow> bool"
  base_size :: "Transaction \<Rightarrow> nat"
  compute_txid :: "Transaction \<Rightarrow> bytes"
  compute_wtxid :: "Transaction \<Rightarrow> bytes"
  block_weight :: "Block \<Rightarrow> nat"
  block_total_size :: "Block \<Rightarrow> nat"
  sha256d :: "bytes \<Rightarrow> bytes"
  calculate_root :: "bytes list \<Rightarrow> bytes option"

datatype Network = Bitcoin | Testnet | Testnet4 | Signet | Regtest

text \<open>The documented meaning of \<open>is_coinbase\<close>: a single input that spends the null outpoint.\<close>

definition coinbase_has_null_input :: "tx_lib \<Rightarrow> bool" where
  "coinbase_has_null_input L \<longleftrightarrow>
     (\<forall>tx. is_coinbase L tx \<longleftrightarrow> (\<exists>input. tx_input tx = [input] \<and> is_null L (previous_output input)))"

text \<open>A concrete instance for worked examples.\<close>

definition sample_lib :: tx_lib where
  "sample_lib = \<lparr>
     is_coinbase = (\<lambda>tx. length (tx_input tx) = 1 \<and> txid (previous_output (hd (tx_input tx))) = []),
     is_null = (\<lambda>op. txid op = []), base_size = (\<lambda>tx. 60), compute_txid = (\<lambda>tx. replicate 32 0),
     compute_wtxid = (\<lambda>tx. replicate 32 0), block_weight = (\<lambda>b. 400), block_total_size = (\<lambda>b. 100),
     sha256d = (\<lambda>x. replicate 32 0), calculate_root = (\<lambda>hs. if hs = [] then None else Some (replicate 32 0))\<rparr>"

lemma sample_lib_coinbase [simp]: "coinbase_has_null_input sample_lib"
  by (auto simp: coinbase_has_null_input_def sample_lib_def length_Suc_conv)

end
