(* ===== verification/Sigops.thy ===== *)
theory Sigops
  imports Tx_Lib Opcodes
begin

text \<open>
  Signature operation counting: \<open>node/src/validation/sigops.rs\<close>.  The opcode constants have the values
  of \<open>Opcodes\<close>.  Counts are natural numbers; a script counts at most twenty per byte, so a \<open>u64\<close> holds
  every sum over data that fits in memory.
\<close>

definition SIGOPS_MAX_PUBKEYS_PER_MULTISIG :: nat where "SIGOPS_MAX_PUBKEYS_PER_MULTISIG = 20"
definition SIGOPS_WITNESS_SCALE_FACTOR :: nat where "SIGOPS_WITNESS_SCALE_FACTOR = 4"
definition SIGOPS_WITNESS_V0_KEYHASH_SIZE :: nat where "SIGOPS_WITNESS_V0_KEYHASH_SIZE = 20"
definition SIGOPS_WITNESS_V0_SCRIPTHASH_SIZE :: nat where "SIGOPS_WITNESS_V0_SCRIPTHASH_SIZE = 32"
definition OP_INVALIDOPCODE :: byte where "OP_INVALIDOPCODE = 0xff"

lemmas sigops_defs = SIGOPS_MAX_PUBKEYS_PER_MULTISIG_def SIGOPS_WITNESS_SCALE_FACTOR_def
  SIGOPS_WITNESS_V0_KEYHASH_SIZE_def SIGOPS_WITNESS_V0_SCRIPTHASH_SIZE_def OP_INVALIDOPCODE_def

datatype SigOpFlags = SigLegacy | SigP2sh | SigP2shWitness

definition flags_p2sh :: "SigOpFlags \<Rightarrow> bool" where
  "flags_p2sh f \<longleftrightarrow> f \<noteq> SigLegacy"

definition flags_witness :: "SigOpFlags \<Rightarrow> bool" where
  "flags_witness f \<longleftrightarrow> f = SigP2shWitness"

section \<open>Reading one opcode\<close>

text \<open>The data of a push of \<open>len\<close> bytes at \<open>pc\<close>, and the position after it.\<close>

definition get_data :: "bytes \<Rightarrow> byte \<Rightarrow> nat \<Rightarrow> nat \<Rightarrow> (byte \<times> bytes \<times> nat) option" where
  "get_data script opcode pc len =
     (if pc + len \<le> length script then Some (opcode, subslice script pc (pc + len), pc + len) else None)"

definition get_op :: "bytes \<Rightarrow> nat \<Rightarrow> (byte \<times> bytes \<times> nat) option" where
  "get_op script pc =
     (if pc < length script then
        let opcode = script ! pc; pc = pc + 1 in
        if opcode = OP_PUSHDATA1 then
          (if pc < length script then get_data script opcode (pc + 1) (unat (script ! pc)) else None)
        else if opcode = OP_PUSHDATA2 then
          (if pc + 2 \<le> length script
           then get_data script opcode (pc + 2) (le16 (script ! pc) (script ! (pc + 1))) else None)
        else if opcode = OP_PUSHDATA4 then
          (if pc + 4 \<le> length script
           then get_data script opcode (pc + 4)
                  (le32 (script ! pc) (script ! (pc + 1)) (script ! (pc + 2)) (script ! (pc + 3)))
           else None)
        else if opcode < OP_PUSHDATA1 then get_data script opcode pc (unat opcode)
        else Some (opcode, [], pc)
      else None)"

lemma get_op_bounds: "get_op script pc = Some (oc, d, pc') \<Longrightarrow> pc < pc' \<and> pc' \<le> length script"
  by (auto simp: get_op_def get_data_def Let_def split: if_splits)

definition decode_op_n :: "byte \<Rightarrow> byte" where
  "decode_op_n opcode = (if opcode = OP_0 then 0 else opcode - (OP_1 - 1))"

definition is_pay_to_script_hash :: "bytes \<Rightarrow> bool" where
  "is_pay_to_script_hash script \<longleftrightarrow>
     length script = 23 \<and> script ! 0 = OP_HASH160 \<and> script ! 1 = 0x14 \<and> script ! 22 = OP_EQUAL"

text \<open>The walk of \<open>is_push_only\<close> from \<open>pc\<close>.\<close>

function sigops_push_only_from :: "bytes \<Rightarrow> nat \<Rightarrow> bool" where
  "sigops_push_only_from script pc =
     (if pc < length script then
        case get_op script pc of
          Some (opcode, _, pc') \<Rightarrow> if opcode \<le> OP_16 then sigops_push_only_from script pc' else False
        | None \<Rightarrow> False
      else True)"
  by pat_completeness auto
termination
  by (relation "measure (\<lambda>(script, pc). length script - pc)")
    (auto dest!: get_op_bounds intro: diff_less_mono2)

declare sigops_push_only_from.simps [simp del]

definition sigops_is_push_only :: "bytes \<Rightarrow> bool" where
  "sigops_is_push_only script = sigops_push_only_from script 0"

definition witness_program :: "bytes \<Rightarrow> (byte \<times> bytes) option" where
  "witness_program script =
     (if length script < 4 \<or> length script > 42 then None
      else if script ! 0 \<noteq> OP_0 \<and> \<not> (OP_1 \<le> script ! 0 \<and> script ! 0 \<le> OP_16) then None
      else if unat (script ! 1) + 2 = length script then Some (decode_op_n (script ! 0), drop 2 script)
      else None)"

section \<open>Counting\<close>

function sigop_count_from :: "bytes \<Rightarrow> bool \<Rightarrow> nat \<Rightarrow> byte \<Rightarrow> nat \<Rightarrow> nat" where
  "sigop_count_from script accurate pc last_opcode n =
     (if pc < length script then
        case get_op script pc of
          None \<Rightarrow> n
        | Some (opcode, _, pc') \<Rightarrow>
          sigop_count_from script accurate pc' opcode
            (if opcode = OP_CHECKSIG \<or> opcode = OP_CHECKSIGVERIFY then n + 1
             else if opcode = OP_CHECKMULTISIG \<or> opcode = OP_CHECKMULTISIGVERIFY then
               (if accurate \<and> OP_1 \<le> last_opcode \<and> last_opcode \<le> OP_16
                then n + unat (decode_op_n last_opcode)
                else n + SIGOPS_MAX_PUBKEYS_PER_MULTISIG)
             else n)
      else n)"
  by pat_completeness auto
termination
  by (relation "measure (\<lambda>(script, _, pc, _). length script - pc)")
    (auto dest!: get_op_bounds intro: diff_less_mono2)

declare sigop_count_from.simps [simp del]

definition script_sigop_count :: "bytes \<Rightarrow> bool \<Rightarrow> nat" where
  "script_sigop_count script accurate = sigop_count_from script accurate 0 OP_INVALIDOPCODE 0"

text \<open>The loop of \<open>p2sh_sigop_count\<close>; \<open>None\<close> is its early return of 0.\<close>

function p2sh_last_push :: "bytes \<Rightarrow> nat \<Rightarrow> bytes \<Rightarrow> bytes option" where
  "p2sh_last_push sig pc data =
     (if pc < length sig then
        case get_op sig pc of
          None \<Rightarrow> None
        | Some (opcode, pushed, pc') \<Rightarrow>
          if opcode > OP_16 then None else p2sh_last_push sig pc' pushed
      else Some data)"
  by pat_completeness auto
termination
  by (relation "measure (\<lambda>(sig, pc, _). length sig - pc)")
    (auto dest!: get_op_bounds intro: diff_less_mono2)

declare p2sh_last_push.simps [simp del]

definition p2sh_sigop_count :: "bytes \<Rightarrow> bytes \<Rightarrow> nat" where
  "p2sh_sigop_count spk sig =
     (if \<not> is_pay_to_script_hash spk then script_sigop_count spk True
      else case p2sh_last_push sig 0 [] of
        None \<Rightarrow> 0
      | Some data \<Rightarrow> script_sigop_count data True)"

definition witness_program_sigops :: "byte \<Rightarrow> bytes \<Rightarrow> bytes list \<Rightarrow> nat" where
  "witness_program_sigops ver program wit =
     (if ver = 0 then
        if length program = SIGOPS_WITNESS_V0_KEYHASH_SIZE then 1
        else if length program = SIGOPS_WITNESS_V0_SCRIPTHASH_SIZE \<and> wit \<noteq> []
        then script_sigop_count (last wit) True
        else 0
      else 0)"

text \<open>The loop of \<open>witness_sigop_count\<close>, which breaks where an opcode does not parse.\<close>

function witness_last_push :: "bytes \<Rightarrow> nat \<Rightarrow> bytes \<Rightarrow> bytes" where
  "witness_last_push sig pc data =
     (if pc < length sig then
        case get_op sig pc of
          None \<Rightarrow> data
        | Some (_, pushed, pc') \<Rightarrow> witness_last_push sig pc' pushed
      else data)"
  by pat_completeness auto
termination
  by (relation "measure (\<lambda>(sig, pc, _). length sig - pc)")
    (auto dest!: get_op_bounds intro: diff_less_mono2)

declare witness_last_push.simps [simp del]

definition witness_sigop_count :: "bytes \<Rightarrow> bytes \<Rightarrow> bytes list \<Rightarrow> SigOpFlags \<Rightarrow> nat" where
  "witness_sigop_count sig spk wit f =
     (if \<not> flags_witness f then 0
      else case witness_program spk of
        Some (ver, program) \<Rightarrow> witness_program_sigops ver program wit
      | None \<Rightarrow>
        if is_pay_to_script_hash spk \<and> sigops_is_push_only sig then
          case witness_program (witness_last_push sig 0 []) of
            Some (ver, program) \<Rightarrow> witness_program_sigops ver program wit
          | None \<Rightarrow> 0
        else 0)"

definition legacy_sigop_count :: "Transaction \<Rightarrow> nat" where
  "legacy_sigop_count tx =
     (let inputs = sum_list (map (\<lambda>i. script_sigop_count (script_sig i) False) (tx_input tx));
          outputs = sum_list (map (\<lambda>out. script_sigop_count (script_pubkey out) False) (tx_output tx))
      in inputs + outputs)"

definition assert_prevouts :: "Transaction \<Rightarrow> TxOut list \<Rightarrow> ('e, unit) result" where
  "assert_prevouts tx prevouts = (if length prevouts = length (tx_input tx) then Ok () else Panic)"

definition transaction_p2sh_sigop_count :: "tx_lib \<Rightarrow> Transaction \<Rightarrow> TxOut list \<Rightarrow> ('e, nat) result" where
  "transaction_p2sh_sigop_count L tx prevouts =
     (if is_coinbase L tx then Ok 0
      else rbind (assert_prevouts tx prevouts) (\<lambda>_.
        Ok (sum_list (map (\<lambda>(input, prevout). p2sh_sigop_count (script_pubkey prevout) (script_sig input))
          (filter (\<lambda>(_, prevout). is_pay_to_script_hash (script_pubkey prevout)) (zip (tx_input tx) prevouts))))))"

definition transaction_sigop_cost :: "tx_lib \<Rightarrow> Transaction \<Rightarrow> TxOut list \<Rightarrow> SigOpFlags \<Rightarrow> ('e, nat) result" where
  "transaction_sigop_cost L tx prevouts f =
     (let cost = legacy_sigop_count tx * SIGOPS_WITNESS_SCALE_FACTOR in
      if is_coinbase L tx then Ok cost
      else rbind (assert_prevouts tx prevouts) (\<lambda>_.
        rbind (if flags_p2sh f
               then rbind (transaction_p2sh_sigop_count L tx prevouts) (\<lambda>n.
                 Ok (cost + n * SIGOPS_WITNESS_SCALE_FACTOR))
               else Ok cost) (\<lambda>cost.
          Ok (foldl (\<lambda>cost (input, prevout).
                cost + witness_sigop_count (script_sig input) (script_pubkey prevout) (witness input) f)
              cost (zip (tx_input tx) prevouts)))))"

end
