(* ===== verification/Sigops_Facts.thy ===== *)
theory Sigops_Facts
  imports Sigops Templates
begin

text \<open>
  The sigop counter against the interpreter: both read the same instructions, so the counts can be
  stated over the parsed script, bounded by its opcodes and compared between modes.
\<close>

section \<open>The same instructions\<close>

lemma get_op_read_instruction: "get_op script pc = read_instruction script pc"
proof (cases "script ! pc" rule: opcode_classes)
  case 1
  then have ne: "script ! pc < OP_PUSHDATA1" "script ! pc \<noteq> OP_PUSHDATA1" "script ! pc \<noteq> OP_PUSHDATA2" "script ! pc \<noteq> OP_PUSHDATA4"
    by (auto simp: op_defs word_less_nat_alt word_le_nat_alt)
  then show ?thesis using 1
    by (cases "script ! pc = 0") (auto simp: get_op_def read_instruction_def get_data_def read_push_def Let_def subslice_def)
qed (auto simp: get_op_def read_instruction_def get_data_def read_push_def Let_def op_defs word_less_nat_alt word_le_nat_alt)

lemma sigops_push_only_iff_parse:
  "sigops_push_only_from script pc \<longleftrightarrow> (\<exists>is. parse_from script pc = Some is \<and> (\<forall>(oc, d) \<in> set is. oc \<le> OP_16))"
proof (induction script pc rule: sigops_push_only_from.induct)
  case (1 script pc)
  show ?case
  proof (cases "pc < length script \<and> (\<exists>oc d pc'. read_instruction script pc = Some (oc, d, pc'))")
    case True
    then obtain oc d pc' where t: "pc < length script" "read_instruction script pc = Some (oc, d, pc')" by blast
    then show ?thesis
      using "1.IH" [OF t(1), of "(oc, d, pc')" oc "(d, pc')" d pc']
      by (auto simp: sigops_push_only_from.simps [of script pc] parse_from.simps [of script pc] get_op_read_instruction)
  next
    case False
    then show ?thesis
      by (auto simp: sigops_push_only_from.simps [of script pc] parse_from.simps [of script pc] get_op_read_instruction
          split: option.splits)
  qed
qed

section \<open>Counts over the opcodes\<close>
















lemma foldl_add: "foldl (\<lambda>c x. c + f x) (c :: nat) xs = c + sum_list (map f xs)"
  by (induction xs arbitrary: c) simp_all

text \<open>The cost of a transaction as one sum.\<close>

lemma transaction_sigop_cost_eq:
  "transaction_sigop_cost L tx prevs f =
    (if is_coinbase L tx then Ok (4 * legacy_sigop_count tx)
     else if length prevs \<noteq> length (tx_input tx) then Panic
     else Ok (4 * legacy_sigop_count tx
       + (if flags_p2sh f then 4 * sum_list (map (\<lambda>(input, prevout). p2sh_sigop_count (script_pubkey prevout) (script_sig input))
           (filter (\<lambda>(_, prevout). is_pay_to_script_hash (script_pubkey prevout)) (zip (tx_input tx) prevs))) else 0)
       + sum_list (map (\<lambda>(input, prevout). witness_sigop_count (script_sig input) (script_pubkey prevout) (witness input) f)
           (zip (tx_input tx) prevs))))"
  by (simp add: transaction_sigop_cost_def transaction_p2sh_sigop_count_def assert_prevouts_def Let_def
      SIGOPS_WITNESS_SCALE_FACTOR_def case_prod_unfold foldl_add)

lemma witness_sigop_count_flags: "witness_sigop_count sig spk wit f = (if flags_witness f then witness_sigop_count sig spk wit SigP2shWitness else 0)"
  by (simp add: witness_sigop_count_def flags_witness_def)

section \<open>Properties\<close>



text \<open>
  C38: The push-only test of the sigop counter is the strict one: it holds exactly when the whole
  script parses and no opcode exceeds \<open>OP_16\<close>, and it implies the test of the script engine, which
  also accepts a script whose last push is cut off.
\<close>

theorem sigops_push_only_strict:
  "(sigops_is_push_only script \<longleftrightarrow> (\<exists>is. parse script = Some is \<and> (\<forall>(oc, d) \<in> set is. oc \<le> OP_16)))
    \<and> (sigops_is_push_only script \<longrightarrow> is_push_only script)
    \<and> is_push_only [0x05] \<and> \<not> sigops_is_push_only [0x05]"
proof -
  have i: "sigops_is_push_only script \<longleftrightarrow> (\<exists>is. parse script = Some is \<and> (\<forall>(oc, d) \<in> set is. oc \<le> OP_16))"
    by (simp add: sigops_is_push_only_def sigops_push_only_iff_parse parse_def)
  moreover have "is_push_only script" if "parse script = Some is" "\<forall>(oc, d) \<in> set is. oc \<le> OP_16" for "is"
    using push_only_parse [of script 0 "is"] that by (force simp: is_push_only_def parse_def)
  moreover have "\<not> sigops_is_push_only [0x05]"
    by (simp add: sigops_is_push_only_def sigops_push_only_from.simps get_op_def get_data_def op_defs)
  ultimately show ?thesis using push_only_truncated by blast
qed

theorem sigops_push_only_strict_witness: "is_push_only [0x51, 0x02, 0x03, 0x04]"
  using sigops_push_only_strict [of "[0x51, 0x02, 0x03, 0x04]"]
  by (simp add: sigops_is_push_only_def sigops_push_only_from.simps get_op_def get_data_def op_defs)

text \<open>
  The sigop cost of a transaction needs one spent output per input, and then grows with the flags:
  witness counting costs at least as much as counting redeem scripts, which costs at least as much as
  the legacy count, and the last is four times the sigops of the scripts of the transaction itself.
\<close>

theorem sigop_cost_grows_with_flags:
  assumes "\<not> is_coinbase L tx"
  shows "(length prevs \<noteq> length (tx_input tx) \<and> (\<forall>f. transaction_sigop_cost L tx prevs f = Panic))
    \<or> (\<exists>a b. length prevs = length (tx_input tx)
        \<and> transaction_sigop_cost L tx prevs SigLegacy = Ok (4 * legacy_sigop_count tx)
        \<and> transaction_sigop_cost L tx prevs SigP2sh = Ok a
        \<and> transaction_sigop_cost L tx prevs SigP2shWitness = Ok b
        \<and> 4 * legacy_sigop_count tx \<le> a \<and> a \<le> b)"
  using assms
  by (cases "length prevs = length (tx_input tx)")
    (simp_all add: transaction_sigop_cost_eq flags_p2sh_def flags_witness_def witness_sigop_count_flags [of _ _ _ SigLegacy]
      witness_sigop_count_flags [of _ _ _ SigP2sh] case_prod_unfold)

theorem sigop_cost_grows_with_flags_witness:
  "transaction_sigop_cost sample_lib
     \<lparr>version = 1, lock_time = 0,
       tx_input = [\<lparr>previous_output = \<lparr>txid = [1], vout = 0\<rparr>, script_sig = [], sequence = 0, witness = []\<rparr>],
       tx_output = []\<rparr> [] SigP2sh = (Panic :: (unit, nat) result)"
  (is "transaction_sigop_cost _ ?tx _ _ = _")
proof -
  have "\<not> is_coinbase sample_lib ?tx" by (simp add: sample_lib_def)
  from sigop_cost_grows_with_flags [OF this, of "[]", where ?'c = unit] show ?thesis by auto
qed

end
