(* ===== verification/U256.thy ===== *)
theory U256
  imports Script_Num
begin

text \<open>
  The 256-bit arithmetic on big-endian byte arrays of \<open>node/src/storage/blockindex.rs\<close>.  A loop that runs
  from the last byte to the first is a recursion over the reversed array; products, carries and
  remainders are 64-bit words and sums 16-bit words, as in the code.  The lemmas give each operation
  as arithmetic on the number the array denotes.
\<close>

type_synonym u16 = "16 word"

definition ZERO32 :: bytes where "ZERO32 = replicate 32 0"

section \<open>Operations\<close>

text \<open>The byte of a sum and the carry, from the least significant byte on.\<close>

fun add_loop :: "bytes \<Rightarrow> bytes \<Rightarrow> u16 \<Rightarrow> bytes \<times> u16" where
  "add_loop (a # as) (b # bs) carry =
     (let sum = ucast a + ucast b + carry; (rest, carry') = add_loop as bs (drop_bit 8 sum)
      in (ucast sum # rest, carry'))"
| "add_loop _ _ carry = ([], carry)"

definition add_u256 :: "bytes \<Rightarrow> bytes \<Rightarrow> bytes" where
  "add_u256 a b =
     (let (result, carry) = add_loop (rev a) (rev b) 0 in
      if carry \<noteq> 0 then replicate 32 0xff else rev result)"

fun sub_loop :: "bytes \<Rightarrow> bytes \<Rightarrow> u16 \<Rightarrow> bytes" where
  "sub_loop (a # as) (b # bs) borrow =
     (let diff = ucast a - ucast b - borrow
      in ucast diff # sub_loop as bs (if diff > 0xff then 1 else 0))"
| "sub_loop _ _ borrow = []"

definition sub_u256 :: "bytes \<Rightarrow> bytes \<Rightarrow> bytes" where
  "sub_u256 a b = rev (sub_loop (rev a) (rev b) 0)"

fun add_one_loop :: "bytes \<Rightarrow> bytes" where
  "add_one_loop [] = []"
| "add_one_loop (b # bs) = (if b + 1 = 0 then (b + 1) # add_one_loop bs else (b + 1) # bs)"

definition add_one_u256 :: "bytes \<Rightarrow> bytes" where
  "add_one_u256 a = rev (add_one_loop (rev a))"

fun mul_loop :: "bytes \<Rightarrow> u64 \<Rightarrow> u64 \<Rightarrow> bytes" where
  "mul_loop [] b carry = []"
| "mul_loop (a # as) b carry =
     (let prod = ucast a * b + carry in ucast prod # mul_loop as b (drop_bit 8 prod))"

definition mul_u256_u32 :: "bytes \<Rightarrow> u32 \<Rightarrow> bytes" where
  "mul_u256_u32 a b = rev (mul_loop (rev a) (ucast b) 0)"

fun div_loop :: "bytes \<Rightarrow> u64 \<Rightarrow> u64 \<Rightarrow> bytes" where
  "div_loop [] b rem = []"
| "div_loop (a # as) b rem =
     (let cur = push_bit 8 rem OR ucast a in ucast (cur div b) # div_loop as b (cur mod b))"

text \<open>A division by zero panics.\<close>

definition div_u256_u32 :: "bytes \<Rightarrow> u32 \<Rightarrow> ('e, bytes) result" where
  "div_u256_u32 a b = (if b = 0 then Panic else Ok (div_loop a (ucast b) 0))"

definition target_from_compact :: "u32 \<Rightarrow> bytes" where
  "target_from_compact bits_u32 =
     (let exponent = unat (drop_bit 24 bits_u32);
          mantissa = bits_u32 AND 0x007fffff;
          target = ZERO32
      in if exponent = 0 then target
         else
           let byte_offset = 32 - exponent;
               target = (if byte_offset < 32 then target[byte_offset := ucast (drop_bit 16 mantissa AND 0xff)] else target);
               target = (if byte_offset + 1 < 32 then target[byte_offset + 1 := ucast (drop_bit 8 mantissa AND 0xff)] else target)
           in if byte_offset + 2 < 32 then target[byte_offset + 2 := ucast (mantissa AND 0xff)] else target)"

definition compact_from_target :: "bytes \<Rightarrow> u32" where
  "compact_from_target target =
     (let first_nonzero = length (takeWhile (\<lambda>b. b = 0) target) in
      if first_nonzero = 32 then 0
      else
        let exponent = of_nat (32 - first_nonzero) :: u32;
            mantissa = push_bit 16 (ucast (target ! first_nonzero));
            mantissa = (if first_nonzero + 1 < 32 then mantissa OR push_bit 8 (ucast (target ! (first_nonzero + 1))) else mantissa);
            mantissa = (if first_nonzero + 2 < 32 then mantissa OR ucast (target ! (first_nonzero + 2)) else mantissa)
        in if mantissa AND 0x00800000 \<noteq> 0 then push_bit 24 (exponent + 1) OR drop_bit 8 mantissa
           else push_bit 24 exponent OR mantissa)"

text \<open>The sign of a comparison: 1, -1 or 0.\<close>

fun compare_targets :: "bytes \<Rightarrow> bytes \<Rightarrow> int" where
  "compare_targets (a # as) (b # bs) = (if a > b then 1 else if a < b then - 1 else compare_targets as bs)"
| "compare_targets _ _ = 0"

section \<open>The number an array denotes\<close>

definition be_nat :: "bytes \<Rightarrow> nat" where
  "be_nat a = le_nat (rev a)"

lemma be_nat_less: "be_nat a < 256 ^ length a"
  using le_nat_less [of "rev a"] by (simp add: be_nat_def)

lemma be_nat_Cons: "be_nat (b # bs) = unat b * 256 ^ length bs + be_nat bs"
  by (simp add: be_nat_def le_nat_append)

lemma be_nat_append: "be_nat (as @ bs) = be_nat as * 256 ^ length bs + be_nat bs"
  by (simp add: be_nat_def le_nat_append)

lemma be_nat_Nil [simp]: "be_nat [] = 0"
  by (simp add: be_nat_def)

lemma be_nat_zeros [simp]: "be_nat (replicate n 0) = 0"
  by (induction n) (simp_all add: be_nat_Cons)

lemma be_nat_inj: "length a = length b \<Longrightarrow> be_nat a = be_nat b \<longleftrightarrow> a = b"
proof (induction a b rule: list_induct2)
  case (Cons x xs y ys)
  let ?p = "256 ^ length xs :: nat"
  have lt: "be_nat xs < ?p" "be_nat ys < ?p" using be_nat_less [of xs] be_nat_less [of ys] Cons.hyps by simp_all
  have "unat x * ?p + be_nat xs = unat y * ?p + be_nat ys \<longleftrightarrow> unat x = unat y \<and> be_nat xs = be_nat ys"
  proof
    assume e: "unat x * ?p + be_nat xs = unat y * ?p + be_nat ys"
    have "unat x = (unat x * ?p + be_nat xs) div ?p" using lt by simp
    also have "\<dots> = unat y" unfolding e using lt by simp
    finally show "unat x = unat y \<and> be_nat xs = be_nat ys" using e by simp
  qed simp
  moreover have "unat x = unat y \<longleftrightarrow> x = y" by (rule word_unat_eq_iff [symmetric])
  ultimately show ?case using Cons by (simp add: be_nat_Cons)
qed simp

section \<open>Comparison\<close>

lemma compare_targets_less:
  "length a = length b \<Longrightarrow> compare_targets a b = (if be_nat a > be_nat b then 1 else if be_nat a < be_nat b then - 1 else 0)"
proof (induction a b rule: list_induct2)
  case (Cons x xs y ys)
  let ?p = "256 ^ length xs :: nat"
  have lt: "be_nat xs < ?p" "be_nat ys < ?p" using be_nat_less [of xs] be_nat_less [of ys] Cons.hyps by simp_all
  have step: "unat u * ?p + m < unat v * ?p + n" if "unat u < unat v" "m < ?p" for u v :: byte and m n
  proof -
    have "unat u * ?p + m < (unat u + 1) * ?p" using that(2) by simp
    also have "\<dots> \<le> unat v * ?p" using that(1) by (intro mult_right_mono) simp_all
    finally show ?thesis by simp
  qed
  consider "unat x < unat y" | "unat y < unat x" | "x = y" by (metis linorder_neqE_nat unsigned_word_eqI)
  then show ?case
  proof cases
    case 1
    then show ?thesis using step [OF 1 lt(1), of "be_nat ys"] Cons.hyps by (simp add: be_nat_Cons word_less_nat_alt)
  next
    case 2
    then show ?thesis using step [OF 2 lt(2), of "be_nat xs"] Cons.hyps by (simp add: be_nat_Cons word_less_nat_alt)
  next
    case 3
    then show ?thesis using Cons by (simp add: be_nat_Cons)
  qed
qed simp

section \<open>Multiplication and division by a word\<close>

lemma unat_ucast_byte: "unat (ucast (w :: 'a::len word) :: byte) = unat w mod 256"
  by (simp add: unsigned_ucast_eq take_bit_eq_mod)

lemma unat_upcast:
  assumes "LENGTH('a::len) \<le> LENGTH('b::len)"
  shows "unat (ucast (w :: 'a word) :: 'b word) = unat w"
proof -
  have "unat w < 2 ^ LENGTH('b)"
    using unsigned_less [of w, where ?'a = nat] power_increasing [OF assms, of "2 :: nat"] by (simp only: less_le_trans)
  then show ?thesis by (simp add: unsigned_ucast_eq take_bit_nat_eq_self)
qed

lemma unat_ucast_u64 [simp]: "unat (ucast (b :: byte) :: u64) = unat b" "unat (ucast (w :: u32) :: u64) = unat w"
  by (simp_all add: unat_upcast)

lemma unat_drop_8: "unat (drop_bit 8 (w :: 'a::len word)) = unat w div 256"
  by (simp only: unat_drop_bit_eq drop_bit_eq_div [where ?'a = nat]) simp

lemma carry_step:
  fixes p x :: nat
  shows "p mod 256 + 256 * ((x + p div 256) mod 256 ^ n) = (p + 256 * x) mod 256 ^ Suc n"
proof -
  have "(p + 256 * x) mod (256 * 256 ^ n) = 256 * ((p + 256 * x) div 256 mod 256 ^ n) + (p + 256 * x) mod 256"
    by (rule mod_mult2_eq)
  then show ?thesis by (simp add: add.commute)
qed

lemma le_nat_mul_loop:
  "unat b < 2 ^ 32 \<Longrightarrow> unat c < 2 ^ 32 \<Longrightarrow>
   le_nat (mul_loop as b c) = (le_nat as * unat b + unat c) mod 256 ^ length as"
proof (induction as arbitrary: c)
  case (Cons a as)
  let ?prod = "ucast a * b + c"
  have "unat a * unat b \<le> 255 * (2 ^ 32 - 1)" using Cons.prems(1) by (intro mult_mono) simp_all
  then have le: "unat a * unat b + unat c \<le> 255 * (2 ^ 32 - 1) + (2 ^ 32 - 1)" using Cons.prems by simp
  have m: "unat (ucast a * b) = unat a * unat b"
    using le by (subst unat_mult_lem [THEN iffD1]) simp_all
  have p: "unat ?prod = unat a * unat b + unat c"
    using le m by (subst unat_add_lem [THEN iffD1]) simp_all
  have d: "unat (drop_bit 8 ?prod) = (unat a * unat b + unat c) div 256" by (simp only: unat_drop_8 p)
  have "unat (drop_bit 8 ?prod) < 2 ^ 32" unfolding d using le by simp
  from Cons.IH [OF Cons.prems(1) this] show ?case
    using carry_step [of "unat a * unat b + unat c" "le_nat as * unat b" "length as"]
    unfolding mul_loop.simps Let_def le_nat.simps unat_ucast_byte p d by (simp add: algebra_simps)
qed simp

lemma length_mul_loop [simp]: "length (mul_loop as b c) = length as"
  by (induction as arbitrary: c) (simp_all add: Let_def)

lemma length_mul [simp]: "length (mul_u256_u32 a b) = length a"
  by (simp add: mul_u256_u32_def)

lemma be_nat_mul: "be_nat (mul_u256_u32 a b) = (be_nat a * unat b) mod 256 ^ length a"
  using le_nat_mul_loop [of "ucast b" 0 "rev a"] unsigned_less [of b, where ?'a = nat]
  by (simp add: mul_u256_u32_def be_nat_def)

lemma length_div_loop [simp]: "length (div_loop as b r) = length as"
  by (induction as arbitrary: r) (simp_all add: Let_def)

lemma div_mod_scaled: "x div b * p * b + x mod b * p = x * (p :: nat)"
proof -
  have "x div b * p * b + x mod b * p = (x div b * b + x mod b) * p" by (simp only: distrib_right distrib_left mult_ac)
  then show ?thesis by (simp only: div_mult_mod_eq)
qed

lemma be_nat_div_loop:
  "0 < unat b \<Longrightarrow> unat b < 2 ^ 32 \<Longrightarrow> unat r < unat b \<Longrightarrow>
   be_nat (div_loop as b r) = (unat r * 256 ^ length as + be_nat as) div unat b"
proof (induction as arbitrary: r)
  case (Cons a as)
  let ?cur = "push_bit 8 r OR ucast a" and ?p = "256 ^ length as :: nat"
  have s: "unat (push_bit 8 r) = unat r * 256"
    using Cons.prems by (subst unsigned_push_bit_eq) (simp add: push_bit_eq_mult take_bit_eq_mod del: push_bit_of_Suc_0)
  have "unat ?cur = (unat r * 256) OR unat a"
    using s by (simp only: unsigned_or_eq unat_ucast_u64)
  also have "\<dots> = unat a + 256 * unat r"
    using or_push_bit_nat [of "unat a" 8 "unat r"] by (simp add: or.commute push_bit_eq_mult)
  finally have c: "unat ?cur = unat a + 256 * unat r" .
  have "unat ?cur < 256 * unat b" unfolding c using Cons.prems(3) unat_byte_less [of a] by linarith
  then have q: "unat ?cur div unat b < 256" using Cons.prems(1) by (simp add: div_less_iff_less_mult)
  have rem: "unat (?cur mod b) = unat ?cur mod unat b" by (simp add: unat_mod)
  have "unat (?cur mod b) < unat b" unfolding rem using Cons.prems(1) by simp
  note ih = Cons.IH [OF Cons.prems(1,2) this]
  have "be_nat (div_loop (a # as) b r) = unat ?cur div unat b * ?p + (unat ?cur mod unat b * ?p + be_nat as) div unat b"
    using q ih by (simp add: Let_def be_nat_Cons unat_ucast_byte unat_div rem)
  also have "\<dots> = (unat ?cur div unat b * ?p * unat b + (unat ?cur mod unat b * ?p + be_nat as)) div unat b"
    using Cons.prems(1) by simp
  also have "unat ?cur div unat b * ?p * unat b + unat ?cur mod unat b * ?p = unat ?cur * ?p"
    by (rule div_mod_scaled)
  then have "unat ?cur div unat b * ?p * unat b + (unat ?cur mod unat b * ?p + be_nat as) = unat ?cur * ?p + be_nat as"
    by simp
  finally show ?case by (simp add: c be_nat_Cons algebra_simps)
qed simp

lemma be_nat_div: "b \<noteq> 0 \<Longrightarrow> \<exists>q. div_u256_u32 a b = Ok q \<and> length q = length a \<and> be_nat q = be_nat a div unat b"
  using be_nat_div_loop [of "ucast b" 0 a] unsigned_less [of b, where ?'a = nat]
  by (auto simp: div_u256_u32_def unat_gt_0)

end
