(* ===== verification/Compact.thy ===== *)
theory Compact
  imports U256
begin

text \<open>
  The compact form of targets: what \<open>target_from_compact\<close> decodes, what \<open>compact_from_target\<close> keeps of a
  target, and that decoding and encoding are inverse on canonical forms.
\<close>

section \<open>Decoding\<close>

lemma unat_upcast_u32 [simp]: "unat (ucast (b :: byte) :: u32) = unat b"
  by (simp add: unat_upcast)

definition compact_value :: "nat \<Rightarrow> nat \<Rightarrow> nat" where
  "compact_value e m =
     (if e = 0 then 0 else if e \<le> 3 then m div 256 ^ (3 - e) else m * 256 ^ (min e 32 - 3))"

lemma update_three:
  "(replicate (n + (3 + k)) d)[n := x, n + 1 := y, n + 2 := z] = replicate n d @ x # y # z # replicate k d"
  by (induction n) (simp_all add: numeral_3_eq_3 numeral_2_eq_2)

lemma unat_mask_23: "unat ((w :: u32) AND 0x007fffff) = unat w mod 2 ^ 23"
proof -
  have "w AND 0x007fffff = take_bit 23 w" by (simp add: take_bit_eq_mask mask_eq_exp_minus_1)
  then show ?thesis by (simp only: unsigned_take_bit_eq take_bit_eq_mod [where ?'a = nat])
qed

lemma unat_mask_ff: "unat (ucast ((w :: u32) AND 0xff) :: byte) = unat w mod 256"
proof -
  have "w AND 0xff = take_bit 8 w" by (simp add: take_bit_eq_mask mask_eq_exp_minus_1)
  then show ?thesis by (simp only: unat_ucast_byte unsigned_take_bit_eq take_bit_eq_mod [where ?'a = nat]) simp
qed

lemma unat_drop_u32: "unat (drop_bit k (w :: u32)) = unat w div 2 ^ k"
  by (simp only: unat_drop_bit_eq drop_bit_eq_div [where ?'a = nat])

lemma three_bytes: "m < 2 ^ 24 \<Longrightarrow> (m div 2 ^ 16 mod 256) * 65536 + (m div 2 ^ 8 mod 256) * 256 + m mod 256 = (m :: nat)"
proof -
  assume "m < 2 ^ 24"
  then have q: "m div 2 ^ 16 mod 256 = m div 256 div 256" by (simp add: div_mult2_eq [symmetric])
  have "m div 256 div 256 * 256 + m div 256 mod 256 = m div 256" "m div 256 * 256 + m mod 256 = m"
    by (rule div_mult_mod_eq)+
  moreover have "(2 :: nat) ^ 8 = 256" by simp
  ultimately show ?thesis unfolding q by (simp only:)
qed

lemma length_target_from_compact [simp]: "length (target_from_compact w) = 32"
  by (simp add: target_from_compact_def Let_def ZERO32_def)

lemma be_nat_target_from_compact:
  "be_nat (target_from_compact w) = compact_value (unat (drop_bit 24 w)) (unat w mod 2 ^ 23)"
proof -
  define e where "e = unat (drop_bit 24 w)"
  define m where "m = unat w mod 2 ^ 23"
  define x where "x = (ucast (drop_bit 16 (w AND 0x007fffff) AND 0xff) :: byte)"
  define y where "y = (ucast (drop_bit 8 (w AND 0x007fffff) AND 0xff) :: byte)"
  define z where "z = (ucast ((w AND 0x007fffff) AND 0xff) :: byte)"
  have bytes: "unat x = m div 2 ^ 16 mod 256" "unat y = m div 2 ^ 8 mod 256" "unat z = m mod 256"
    unfolding x_def y_def z_def m_def by (simp_all only: unat_mask_ff unat_drop_u32 unat_mask_23)
  have m: "m < 2 ^ 24" by (simp add: m_def less_trans [OF mod_less_divisor])
  have t: "target_from_compact w = (if e = 0 then ZERO32 else
      let n = 32 - e; t = (if n < 32 then ZERO32[n := x] else ZERO32); t = (if n + 1 < 32 then t[n + 1 := y] else t)
      in if n + 2 < 32 then t[n + 2 := z] else t)"
    by (simp add: target_from_compact_def e_def x_def y_def z_def Let_def)
  have v: "unat x * 65536 + unat y * 256 + unat z = m" unfolding bytes by (rule three_bytes [OF m])
  consider "e = 0" | "e = 1" | "e = 2" | "3 \<le> e" by linarith
  then have "be_nat (target_from_compact w) = compact_value e m"
  proof cases
    case 1
    then show ?thesis by (simp add: t compact_value_def ZERO32_def)
  next
    case 2
    then have "target_from_compact w = replicate 31 0 @ [x]" by (simp add: t ZERO32_def eval_nat_numeral)
    moreover have "m div 65536 < 256" using m by simp
    ultimately show ?thesis using 2 bytes(1) by (simp add: be_nat_append be_nat_Cons compact_value_def)
  next
    case 3
    then have "target_from_compact w = replicate 30 0 @ [x, y]" by (simp add: t ZERO32_def eval_nat_numeral)
    moreover have "unat x * 256 + unat y = m div 256" using v bytes(3) unat_byte_less [of z] by linarith
    ultimately show ?thesis using 3 by (simp add: be_nat_append be_nat_Cons compact_value_def)
  next
    case 4
    define n where "n = 32 - e"
    define k where "k = min e 32 - 3"
    have nk: "32 = n + (3 + k)" using 4 by (simp add: n_def k_def)
    have "n + 2 < 32" "e \<noteq> 0" using 4 by (simp_all add: n_def)
    then have "target_from_compact w = (replicate 32 0)[n := x, n + 1 := y, n + 2 := z]"
      unfolding t n_def [symmetric] Let_def ZERO32_def by simp
    also have "\<dots> = replicate n 0 @ x # y # z # replicate k 0" unfolding nk by (rule update_three)
    finally have "be_nat (target_from_compact w) = (unat x * 65536 + unat y * 256 + unat z) * 256 ^ k"
      by (simp add: be_nat_append be_nat_Cons algebra_simps power_add)
    then show ?thesis using 4 by (cases "e = 3") (simp_all add: v k_def compact_value_def)
  qed
  then show ?thesis by (simp add: e_def m_def)
qed

section \<open>Encoding\<close>

lemma unat_push_or:
  assumes "e < 256" "m < 2 ^ 24" "unat (v :: u32) = m"
  shows "unat (push_bit 24 (of_nat e :: u32) OR v) = e * 2 ^ 24 + m"
proof -
  have "unat (of_nat e :: u32) = e" using assms(1) by (simp add: unat_of_nat)
  then have "unat (push_bit 24 (of_nat e :: u32)) = push_bit 24 e"
    using assms(1) by (subst unsigned_push_bit_eq) (simp add: push_bit_eq_mult take_bit_eq_mod)
  then have "unat (push_bit 24 (of_nat e :: u32) OR v) = m OR push_bit 24 e"
    by (simp only: unsigned_or_eq assms(3) or.commute)
  also have "\<dots> = m + 2 ^ 24 * e" by (rule or_push_bit_nat [OF assms(2)])
  finally show ?thesis by simp
qed

lemma unat_mantissa:
  fixes b0 b1 b2 :: byte
  shows "unat ((push_bit 16 (ucast b0) OR push_bit 8 (ucast b1)) OR (ucast b2 :: u32)) = unat b0 * 65536 + unat b1 * 256 + unat b2"
proof -
  have p: "unat (push_bit k (ucast b :: u32)) = push_bit k (unat b)" if "k \<le> 16" for k and b :: byte
  proof -
    have "unat b * 2 ^ k \<le> 255 * 2 ^ 16" using that by (intro mult_mono power_increasing) simp_all
    then show ?thesis
      by (subst unsigned_push_bit_eq) (simp add: push_bit_eq_mult take_bit_eq_mod)
  qed
  have "unat ((push_bit 16 (ucast b0) OR push_bit 8 (ucast b1)) OR (ucast b2 :: u32))
      = (unat b2 OR push_bit 8 (unat b1)) OR push_bit 16 (unat b0)"
    by (simp add: unsigned_or_eq p ac_simps)
  also have "unat b2 OR push_bit 8 (unat b1) = unat b2 + 256 * unat b1"
    using or_push_bit_nat [of "unat b2" 8 "unat b1"] by simp
  also have "\<dots> OR push_bit 16 (unat b0) = unat b2 + 256 * unat b1 + 65536 * unat b0"
    using or_push_bit_nat [of "unat b2 + 256 * unat b1" 16 "unat b0"] unat_byte_less [of b2] unat_byte_less [of b1] by simp
  finally show ?thesis by simp
qed

lemma and_push_bit: "n < 32 \<Longrightarrow> (v :: u32) AND push_bit n 1 \<noteq> 0 \<longleftrightarrow> bit v n"
  by (auto simp: bit_eq_iff [of _ 0] bit_and_iff bit_exp_iff)

lemma bit_23: "(v :: u32) AND 0x00800000 \<noteq> 0 \<longleftrightarrow> bit v 23"
  using and_push_bit [of 23 v] by simp

lemma bit_23_less: "unat (v :: u32) < 2 ^ 24 \<Longrightarrow> bit v 23 \<longleftrightarrow> 2 ^ 23 \<le> unat v"
proof -
  assume l: "unat v < 2 ^ 24"
  have "bit v 23 \<longleftrightarrow> bit (unat v) 23" by (simp add: bit_unsigned_iff)
  also have "\<dots> \<longleftrightarrow> odd (unat v div 2 ^ 23)" by (simp only: bit_iff_odd)
  finally have "bit v 23 \<longleftrightarrow> odd (unat v div 2 ^ 23)" .
  moreover have "unat v div 2 ^ 23 \<in> {0, 1}" using l by (simp add: div_less_iff_less_mult) linarith
  moreover have "unat v div 2 ^ 23 = 0 \<longleftrightarrow> unat v < 2 ^ 23" by (simp add: div_eq_0_iff)
  ultimately show ?thesis by force
qed

text \<open>The three leading bytes of a number of \<open>n\<close> bytes, padded on the right.\<close>

definition top3 :: "nat \<Rightarrow> nat \<Rightarrow> nat" where
  "top3 n v = (if 3 \<le> n then v div 256 ^ (n - 3) else v * 256 ^ (3 - n))"

lemma leading_zeros:
  assumes "length t = 32" "be_nat t \<noteq> 0"
  obtains z b rest where "t = replicate z 0 @ b # rest" "b \<noteq> 0" "z + Suc (length rest) = 32"
    "length (takeWhile (\<lambda>b. b = 0) t) = z"
proof -
  let ?z = "length (takeWhile (\<lambda>b. b = 0) t)"
  have z: "takeWhile (\<lambda>b. b = 0) t = replicate ?z 0"
    by (rule replicate_length_same [symmetric]) (auto dest: set_takeWhileD)
  have "dropWhile (\<lambda>b. b = 0) t \<noteq> []"
  proof
    assume "dropWhile (\<lambda>b. b = 0) t = []"
    then have "takeWhile (\<lambda>b. b = 0) t = t" using takeWhile_dropWhile_id [of "\<lambda>b. b = 0" t] by (simp only: append_Nil2)
    then have "be_nat t = 0" using z be_nat_zeros by metis
    then show False using assms(2) by simp
  qed
  then obtain b rest where d: "dropWhile (\<lambda>b. b = 0) t = b # rest" by (cases "dropWhile (\<lambda>b. b = 0) t") auto
  have t: "t = replicate ?z 0 @ b # rest" using takeWhile_dropWhile_id [of "\<lambda>b. b = 0" t] z d by simp
  have "b \<noteq> 0" using hd_dropWhile [of "\<lambda>b. b = 0" t] d by simp
  moreover have "?z + Suc (length rest) = 32" using assms(1) t by (metis length_Cons length_append length_replicate)
  ultimately show thesis using t that by blast
qed

lemma be_nat_lead:
  assumes "b \<noteq> 0"
  shows "256 ^ length rest \<le> be_nat (b # rest)"
proof -
  have "1 \<le> unat b" using assms by (simp add: Suc_le_eq unat_gt_0)
  then have "1 * 256 ^ length rest \<le> unat b * 256 ^ length rest" by (intro mult_right_mono) simp_all
  then show ?thesis by (simp only: be_nat_Cons mult_1)
qed

lemma power_interval_unique:
  fixes v :: nat
  assumes "256 ^ a \<le> v" "v < 256 ^ Suc a" "256 ^ c \<le> v" "v < 256 ^ Suc c"
  shows "a = c"
proof -
  have "256 ^ a < (256 :: nat) ^ Suc c" "256 ^ c < (256 :: nat) ^ Suc a" using assms by linarith+
  then have "a < Suc c" "c < Suc a" by (simp_all only: power_strict_increasing_iff)
  then show ?thesis by simp
qed

definition lead3 :: "byte \<Rightarrow> bytes \<Rightarrow> nat" where
  "lead3 b rest = unat b * 65536 + (case rest of [] \<Rightarrow> 0 | b1 # r \<Rightarrow> unat b1 * 256 + (case r of [] \<Rightarrow> 0 | b2 # _ \<Rightarrow> unat b2))"

lemma lead3_less: "lead3 b rest < 2 ^ 24"
proof -
  have l: "x * 65536 + (y * 256 + z) < 2 ^ 24" if "x < 256" "y < 256" "z < 256" for x y z :: nat using that by simp
  show ?thesis
    using l [of "unat b" 0 0] l [of "unat b" _ 0] l [of "unat b"] by (auto simp: lead3_def split: list.split)
qed

lemma top3_lead3: "top3 (Suc (length rest)) (be_nat (b # rest)) = lead3 b rest"
proof (cases rest)
  case (Cons b1 r)
  show ?thesis
  proof (cases r)
    case r: (Cons b2 s)
    have "be_nat (b # rest) = (unat b * 65536 + unat b1 * 256 + unat b2) * 256 ^ length s + be_nat s"
      by (simp add: Cons r be_nat_Cons algebra_simps)
    then show ?thesis using be_nat_less [of s] by (simp add: top3_def lead3_def Cons r)
  qed (simp add: top3_def lead3_def Cons be_nat_Cons)
qed (simp add: top3_def lead3_def be_nat_Cons)

lemma compact_from_split:
  assumes t: "t = replicate z 0 @ b # rest" and b: "b \<noteq> 0" and z: "z + Suc (length rest) = 32"
    and tw: "length (takeWhile (\<lambda>b. b = 0) t) = z"
  shows "unat (compact_from_target t) =
    (let M = lead3 b rest; n = Suc (length rest) in
     if 2 ^ 23 \<le> M then (n + 1) * 2 ^ 24 + M div 256 else n * 2 ^ 24 + M)"
proof -
  define b1 where "b1 = (case rest of [] \<Rightarrow> 0 | b1 # _ \<Rightarrow> b1)"
  define b2 where "b2 = (case rest of b1 # b2 # _ \<Rightarrow> b2 | _ \<Rightarrow> 0)"
  define m where "m = (push_bit 16 (ucast b) OR push_bit 8 (ucast b1)) OR (ucast b2 :: u32)"
  have m: "unat m = lead3 b rest"
    unfolding m_def unat_mantissa by (auto simp: lead3_def b1_def b2_def split: list.split)
  have n: "t ! z = b" "z + 1 < 32 \<Longrightarrow> t ! (z + 1) = b1" "z + 1 \<ge> 32 \<Longrightarrow> b1 = 0"
    "z + 2 < 32 \<Longrightarrow> t ! (z + 2) = b2" "z + 2 \<ge> 32 \<Longrightarrow> b2 = 0" "32 - z = Suc (length rest)" "z \<noteq> 32"
    using z by (auto simp: t nth_append b1_def b2_def split: list.split)
  have mant: "(let m0 = push_bit 16 (ucast (t ! z)) :: u32;
      m1 = (if z + 1 < 32 then m0 OR push_bit 8 (ucast (t ! (z + 1))) else m0)
      in if z + 2 < 32 then m1 OR ucast (t ! (z + 2)) else m1) = m"
    using n by (auto simp: m_def Let_def)
  have c: "compact_from_target t = (if m AND 0x00800000 \<noteq> 0 then push_bit 24 (of_nat (Suc (length rest)) + 1) OR drop_bit 8 m
      else push_bit 24 (of_nat (Suc (length rest))) OR m)"
    unfolding compact_from_target_def tw using n(6,7) mant by (simp add: Let_def)
  have l: "lead3 b rest < 2 ^ 24" by (rule lead3_less)
  have len: "Suc (Suc (length rest)) < 256" using z by simp
  have hi: "unat (push_bit 24 (of_nat (Suc (Suc (length rest))) :: u32) OR drop_bit 8 m) = Suc (Suc (length rest)) * 2 ^ 24 + lead3 b rest div 256"
  proof (rule unat_push_or [OF len])
    show "lead3 b rest div 256 < 2 ^ 24" using l by (rule le_less_trans [OF div_le_dividend])
    show "unat (drop_bit 8 m) = lead3 b rest div 256" by (simp only: unat_drop_8 m)
  qed
  have lo: "unat (push_bit 24 (of_nat (Suc (length rest)) :: u32) OR m) = Suc (length rest) * 2 ^ 24 + lead3 b rest"
    using l len by (intro unat_push_or) (simp_all add: m)
  have "of_nat (Suc (length rest)) + (1 :: u32) = of_nat (Suc (Suc (length rest)))" by simp
  then show ?thesis
    unfolding c bit_23 using hi lo bit_23_less [of m] l by (simp only: m Let_def if_split Suc_eq_plus1) simp
qed

lemma unat_compact_from_target:
  assumes "length t = 32" "256 ^ n \<le> be_nat t" "be_nat t < 256 ^ Suc n"
  shows "unat (compact_from_target t) =
    (let M = top3 (Suc n) (be_nat t) in
     if 2 ^ 23 \<le> M then (n + 2) * 2 ^ 24 + M div 256 else (n + 1) * 2 ^ 24 + M)"
proof -
  have "be_nat t \<noteq> 0" using assms(2) by (metis less_numeral_extra(3) not_one_le_zero one_le_numeral one_le_power order_trans)
  from leading_zeros [OF assms(1) this] obtain z b rest
    where t: "t = replicate z 0 @ b # rest" and b: "b \<noteq> 0" and z: "z + Suc (length rest) = 32"
      and tw: "length (takeWhile (\<lambda>b. b = 0) t) = z" .
  have v: "be_nat t = be_nat (b # rest)" by (simp add: t be_nat_append)
  have "be_nat (b # rest) < 256 ^ Suc (length rest)" using be_nat_less [of "b # rest"] by simp
  then have "n = length rest"
    using power_interval_unique [OF assms(2,3), of "length rest"] be_nat_lead [OF b, of rest] v by simp
  then show ?thesis
    using compact_from_split [OF t b z tw] top3_lead3 [of rest b] by (simp add: v Let_def)
qed

section \<open>What encoding keeps\<close>

lemma byte_length:
  assumes "length t = 32" "be_nat t \<noteq> 0"
  obtains n where "256 ^ n \<le> be_nat t" "be_nat t < 256 ^ Suc n" "n < 32"
proof -
  from leading_zeros [OF assms] obtain z b rest
    where t: "t = replicate z 0 @ b # rest" and b: "b \<noteq> 0" and z: "z + Suc (length rest) = 32" .
  have "be_nat t = be_nat (b # rest)" by (simp add: t be_nat_append)
  then show thesis
    using that [of "length rest"] be_nat_lead [OF b, of rest] be_nat_less [of "b # rest"] z by simp
qed

lemma compact_fields:
  assumes "unat (w :: u32) = e * 2 ^ 24 + m" "m < 2 ^ 23"
  shows "unat (drop_bit 24 w) = e" "unat w mod 2 ^ 23 = m"
proof -
  show "unat (drop_bit 24 w) = e" using assms by (simp add: unat_drop_u32)
  have "e * 2 ^ 24 + m = m + 2 * e * 2 ^ 23" by simp
  then have "unat w mod 2 ^ 23 = (m + 2 * e * 2 ^ 23) mod 2 ^ 23" using assms(1) by (simp only:)
  then show "unat w mod 2 ^ 23 = m" using assms(2) by (simp only: mod_mult_self1 mod_less)
qed

text \<open>Dropping the digits below \<open>p\<close> of a number whose kept part is at least \<open>2 ^ 15\<close>.\<close>

lemma truncate_bounds:
  fixes v p :: nat
  assumes "2 ^ 15 \<le> v div p"
  shows "v div p * p \<le> v \<and> 2 ^ 15 * v \<le> (2 ^ 15 + 1) * (v div p * p)"
proof -
  have p: "0 < p" using assms by (cases p) auto
  have v: "v \<le> v div p * p + p" using p mod_less_divisor [OF p, of v] div_mult_mod_eq [of v p] by linarith
  moreover have "2 ^ 15 * p \<le> v div p * p" using assms by (rule mult_right_mono) simp
  moreover have "2 ^ 15 * v \<le> 2 ^ 15 * (v div p * p) + 2 ^ 15 * p"
    using mult_left_mono [OF v, of "2 ^ 15"] by (simp only: distrib_left le0)
  ultimately have "2 ^ 15 * v \<le> 2 ^ 15 * (v div p * p) + v div p * p" by (meson add_left_mono order_trans)
  then show ?thesis by (simp only: distrib_right mult_1 div_times_less_eq_dividend)
qed

definition canonical_compact :: "u32 \<Rightarrow> bool" where
  "canonical_compact w \<longleftrightarrow>
     (let e = unat w div 2 ^ 24; m = unat w mod 2 ^ 24 in
      1 \<le> e \<and> e \<le> 32 \<and> 2 ^ 15 \<le> m \<and> m < 2 ^ 23 \<and> (e \<le> 2 \<longrightarrow> m mod 256 ^ (3 - e) = 0))"

text \<open>
  The exponent and mantissa chosen for a number of \<open>Suc n\<close> bytes, and the number they stand for.
\<close>

definition chosen :: "nat \<Rightarrow> nat \<Rightarrow> nat \<times> nat" where
  "chosen n v = (let M = top3 (Suc n) v in if 2 ^ 23 \<le> M then (n + 2, M div 256) else (n + 1, M))"

lemma unat_compact_chosen:
  assumes "length t = 32" "256 ^ n \<le> be_nat t" "be_nat t < 256 ^ Suc n" "chosen n (be_nat t) = (e, m)"
  shows "unat (compact_from_target t) = e * 2 ^ 24 + m"
  using unat_compact_from_target [OF assms(1-3)] assms(4) by (auto simp: chosen_def Let_def split: if_splits)

definition kept :: "nat \<Rightarrow> nat \<Rightarrow> nat \<Rightarrow> bool" where
  "kept v e m \<longleftrightarrow> 1 \<le> e \<and> e \<le> 32 \<and> 2 ^ 15 \<le> m \<and> m < 2 ^ 23 \<and> (e \<le> 2 \<longrightarrow> m mod 256 ^ (3 - e) = 0)
     \<and> compact_value e m \<le> v \<and> 2 ^ 15 * v \<le> (2 ^ 15 + 1) * compact_value e m"

lemma chosen_kept_short:
  assumes "n < 2" "256 ^ n \<le> v" "v < 256 ^ Suc n" "chosen n v = (e, m)"
  shows "kept v e m"
proof -
  consider "n = 0" "1 \<le> v" "v < 256" | "n = 1" "256 \<le> v" "v < 65536"
    using assms(1-3) by (cases n) (auto simp: less_Suc_eq)
  then show ?thesis
    by cases (use assms(4) in \<open>auto simp: chosen_def top3_def kept_def compact_value_def Let_def split: if_splits\<close>)
qed

lemma chosen_kept_long:
  assumes n: "2 \<le> n" "n < 32" and lo: "256 ^ n \<le> v" and hi: "v < 256 ^ Suc n" and v: "v < 2 ^ 255"
    and c: "chosen n v = (e, m)"
  shows "kept v e m"
proof -
  define p where "p = (256 :: nat) ^ (n - 2)"
  obtain k where k: "n = k + 2" using n(1) by (metis le_add_diff_inverse2)
  have p: "0 < p" "256 ^ n = 65536 * p" "256 ^ (n - 1) = 256 * p" "256 ^ Suc n = 2 ^ 24 * p"
    by (simp_all add: p_def k)
  have M: "top3 (Suc n) v = v div p" using n by (simp add: top3_def p_def)
  have M_lo: "65536 \<le> v div p" using lo p by (simp add: less_eq_div_iff_mult_less_eq)
  have M_hi: "v div p < 2 ^ 24" using hi p by (simp add: div_less_iff_less_mult)
  show ?thesis
  proof (cases "2 ^ 23 \<le> v div p")
    case True
    have "n \<noteq> 31"
    proof
      assume n31: "n = 31"
      have "2 ^ 23 * p \<le> v" using True p(1) by (simp only: less_eq_div_iff_mult_less_eq)
      then show False using v by (simp add: p_def n31)
    qed
    have d: "v div p div 256 = v div (256 * p)" by (simp only: div_mult2_eq [symmetric] mult.commute)
    have k': "2 ^ 15 \<le> v div (256 * p)" "v div (256 * p) < 2 ^ 23"
      using True M_hi unfolding d [symmetric] by (simp_all add: less_eq_div_iff_mult_less_eq div_less_iff_less_mult)
    have em: "e = n + 2" "m = v div (256 * p)" using c True by (simp_all add: chosen_def M d Let_def)
    have "compact_value e m = v div (256 * p) * (256 * p)"
      unfolding em using n \<open>n \<noteq> 31\<close> p(3) by (simp add: compact_value_def)
    then show ?thesis
      using truncate_bounds [OF k'(1)] k' n \<open>n \<noteq> 31\<close> by (simp add: kept_def em)
  next
    case False
    have em: "e = n + 1" "m = v div p" using c False by (simp_all add: chosen_def M Let_def)
    have "compact_value e m = v div p * p"
      unfolding em using n by (cases "n = 2") (simp_all add: compact_value_def p_def)
    then show ?thesis
      using truncate_bounds [of v p] M_lo False n by (simp add: kept_def em)
  qed
qed

lemma compact_from_target_facts:
  assumes "length t = 32" "be_nat t < 2 ^ 255"
  shows "be_nat (target_from_compact (compact_from_target t)) \<le> be_nat t"
    and "2 ^ 15 * be_nat t \<le> (2 ^ 15 + 1) * be_nat (target_from_compact (compact_from_target t))"
    and "be_nat t \<noteq> 0 \<Longrightarrow> canonical_compact (compact_from_target t)"
proof -
  let ?w = "compact_from_target t"
  have "be_nat (target_from_compact ?w) \<le> be_nat t
      \<and> 2 ^ 15 * be_nat t \<le> (2 ^ 15 + 1) * be_nat (target_from_compact ?w)
      \<and> (be_nat t \<noteq> 0 \<longrightarrow> canonical_compact ?w)"
  proof (cases "be_nat t = 0")
    case True
    then have "t = replicate 32 0" using be_nat_inj [of t "replicate 32 0"] assms(1) by simp
    then have "?w = 0" by (simp add: compact_from_target_def takeWhile_replicate)
    then show ?thesis using True by (simp add: be_nat_target_from_compact compact_value_def)
  next
    case False
    from byte_length [OF assms(1) this] obtain n where n: "256 ^ n \<le> be_nat t" "be_nat t < 256 ^ Suc n" "n < 32" .
    obtain e m where c: "chosen n (be_nat t) = (e, m)" by (cases "chosen n (be_nat t)")
    have w: "unat ?w = e * 2 ^ 24 + m" by (rule unat_compact_chosen [OF assms(1) n(1,2) c])
    have k: "kept (be_nat t) e m"
      using chosen_kept_short [OF _ n(1,2) c] chosen_kept_long [OF _ n(3,1,2) assms(2) c] by linarith
    then have m: "m < 2 ^ 23" by (simp add: kept_def)
    have "unat ?w div 2 ^ 24 = e" "unat ?w mod 2 ^ 24 = m" using w m by simp_all
    then have "canonical_compact ?w" using k by (simp add: canonical_compact_def kept_def Let_def)
    moreover have "be_nat (target_from_compact ?w) = compact_value e m"
      using compact_fields [OF w m] by (simp add: be_nat_target_from_compact)
    ultimately show ?thesis using k by (simp add: kept_def)
  qed
  then show "be_nat (target_from_compact ?w) \<le> be_nat t"
    "2 ^ 15 * be_nat t \<le> (2 ^ 15 + 1) * be_nat (target_from_compact ?w)"
    "be_nat t \<noteq> 0 \<Longrightarrow> canonical_compact ?w" by blast+
qed

text \<open>The number of bytes of a canonical value, and that the same fields are chosen for it.\<close>

lemma chosen_canonical:
  assumes "1 \<le> e" "e \<le> 32" "2 ^ 15 \<le> m" "m < 2 ^ 23" "e \<le> 2 \<longrightarrow> m mod 256 ^ (3 - e) = 0"
  obtains n where "256 ^ n \<le> compact_value e m" "compact_value e m < 256 ^ Suc n" "chosen n (compact_value e m) = (e, m)"
proof -
  consider "e = 1" | "e = 2" | "e = 3" | "4 \<le> e" using assms(1) by linarith
  then show thesis
  proof cases
    case 1
    then obtain x where "m = 65536 * x" using assms(5) by (auto elim: dvdE simp: mod_eq_0_iff_dvd)
    then show thesis using that [of 0] 1 assms by (simp add: compact_value_def chosen_def top3_def Let_def)
  next
    case 2
    then obtain x where x: "m = 256 * x" using assms(5) by (auto elim: dvdE simp: mod_eq_0_iff_dvd)
    then show thesis
      using that [of "if x < 256 then 0 else 1"] 2 assms by (cases "x < 256") (simp_all add: compact_value_def chosen_def top3_def Let_def)
  next
    case 3
    then show thesis
      using that [of "if m < 65536 then 1 else 2"] assms by (cases "m < 65536") (simp_all add: compact_value_def chosen_def top3_def Let_def)
  next
    case 4
    then obtain k where k: "e = k + 4" by (metis le_add_diff_inverse2)
    have cv: "compact_value e m = m * (256 * 256 ^ k)" using k assms(2) by (simp add: compact_value_def)
    have p: "0 < (256 :: nat) ^ k" by simp
    show thesis
    proof (cases "m < 65536")
      case True
      show thesis
      proof (rule that [of "k + 2"])
        show "256 ^ (k + 2) \<le> compact_value e m" "compact_value e m < 256 ^ Suc (k + 2)" using assms(3) True by (simp_all add: cv)
        have "top3 (Suc (k + 2)) (compact_value e m) = m * 256" by (simp add: top3_def cv mult.assoc [symmetric])
        then show "chosen (k + 2) (compact_value e m) = (e, m)" using assms(3) k by (simp add: chosen_def Let_def)
      qed
    next
      case False
      show thesis
      proof (rule that [of "k + 3"])
        have "(256 :: nat) ^ (k + 3) = 65536 * (256 * 256 ^ k)" "(256 :: nat) ^ Suc (k + 3) = 2 ^ 24 * (256 * 256 ^ k)"
          by (simp_all add: power_add)
        then show "256 ^ (k + 3) \<le> compact_value e m" "compact_value e m < 256 ^ Suc (k + 3)"
          using assms(4) False by (simp_all add: cv)
        have "top3 (Suc (k + 3)) (compact_value e m) = m" by (simp add: top3_def cv)
        then show "chosen (k + 3) (compact_value e m) = (e, m)" using assms(4) k by (simp add: chosen_def Let_def)
      qed
    qed
  qed
qed

lemma canonical_round_trip:
  assumes "canonical_compact w"
  shows "compact_from_target (target_from_compact w) = w"
proof -
  define e where "e = unat w div 2 ^ 24"
  define m where "m = unat w mod 2 ^ 24"
  have c: "1 \<le> e" "e \<le> 32" "2 ^ 15 \<le> m" "m < 2 ^ 23" "e \<le> 2 \<longrightarrow> m mod 256 ^ (3 - e) = 0"
    using assms by (simp_all add: canonical_compact_def Let_def e_def m_def)
  have w: "unat w = e * 2 ^ 24 + m" by (simp only: e_def m_def div_mult_mod_eq)
  have v: "be_nat (target_from_compact w) = compact_value e m"
    using compact_fields [OF w c(4)] by (simp add: be_nat_target_from_compact)
  obtain n where n: "256 ^ n \<le> compact_value e m" "compact_value e m < 256 ^ Suc n" "chosen n (compact_value e m) = (e, m)"
    by (rule chosen_canonical [OF c])
  have "unat (compact_from_target (target_from_compact w)) = e * 2 ^ 24 + m"
    by (rule unat_compact_chosen [of _ n]) (use n in \<open>simp_all only: v length_target_from_compact\<close>)
  then show ?thesis using w by (simp only: word_unat_eq_iff)
qed

section \<open>Properties\<close>

text \<open>
  C39: Round trip of compact targets: encoding what a canonical form decodes to gives the form back,
  so two canonical forms never stand for the same target.
\<close>

theorem compact_round_trip:
  assumes "canonical_compact w"
  shows "compact_from_target (target_from_compact w) = w"
  by (rule canonical_round_trip [OF assms])

theorem compact_round_trip_witness: "compact_from_target (target_from_compact 0x1d00ffff) = 0x1d00ffff"
  by (rule compact_round_trip) (simp add: canonical_compact_def Let_def)

text \<open>
  Encoding a target loses little and never eases it the wrong way: the form chosen is canonical,
  it decodes to at most the target, and less than one part in \<open>2 ^ 15\<close> is lost.
\<close>

theorem compact_truncates:
  assumes "length t = 32" "be_nat t < 2 ^ 255" "be_nat t \<noteq> 0"
  shows "canonical_compact (compact_from_target t)
    \<and> be_nat (target_from_compact (compact_from_target t)) \<le> be_nat t
    \<and> 2 ^ 15 * be_nat t \<le> (2 ^ 15 + 1) * be_nat (target_from_compact (compact_from_target t))"
  using compact_from_target_facts [OF assms(1,2)] assms(3) by blast

theorem compact_truncates_witness:
  "canonical_compact (compact_from_target (replicate 31 0 @ [5]))
    \<and> be_nat (target_from_compact (compact_from_target (replicate 31 0 @ [5]))) \<le> be_nat (replicate 31 0 @ [5])
    \<and> 2 ^ 15 * be_nat (replicate 31 0 @ [5]) \<le> (2 ^ 15 + 1) * be_nat (target_from_compact (compact_from_target (replicate 31 0 @ [5])))"
  by (rule compact_truncates) (simp_all add: be_nat_append be_nat_Cons)

end
