(* ===== verification/Check_Tx.thy ===== *)
theory Check_Tx
  imports Tx_Lib
begin

text \<open>
  The validation errors of \<open>node/src/validation/mod.rs\<close> and the context-free transaction check of
  \<open>node/src/validation/tx.rs\<close>.  Amounts are the eight bytes of an output read as an unsigned number.
\<close>

section \<open>Errors\<close>

datatype ValidationError =
  BadProofOfWork | TimeTooOld | TimeTooNew | BadVersion u32 | BadMerkleRoot | BadTxDuplicate | NoCoinbase
| MultipleCoinbase | OversizedBlock | OverweightBlock | BadBlockSigops | BadDifficulty | EmptyBlock
| BadTxNoInputs | BadTxNoOutputs | BadTxOversize | BadTxOutputNegative | BadTxOutputTooLarge
| BadTxOutputTotalTooLarge | BadTxDuplicateInput | BadTxCoinbaseSize | BadTxNullInput
| BadWitnessCommitment | BadWitnessNonceSize | UnexpectedWitness | BadSignetSolution | TimewarpAttack

type_synonym 'a validation = "(ValidationError, 'a) result"

text \<open>The eight lower-case hexadecimal digits of the format \<open>{0:08x}\<close>.\<close>

definition hex_digit :: "nat \<Rightarrow> char" where
  "hex_digit n = ''0123456789abcdef'' ! n"

definition hex8 :: "u32 \<Rightarrow> string" where
  "hex8 w = map (\<lambda>i. hex_digit (unat w div 16 ^ i mod 16)) [7, 6, 5, 4, 3, 2, 1, 0]"

primrec ValidationError_fmt :: "ValidationError \<Rightarrow> string" where
  "ValidationError_fmt BadProofOfWork = ''high-hash''"
| "ValidationError_fmt TimeTooOld = ''time-too-old''"
| "ValidationError_fmt TimeTooNew = ''time-too-new''"
| "ValidationError_fmt (BadVersion v) = ''bad-version(0x'' @ hex8 v @ '')''"
| "ValidationError_fmt BadMerkleRoot = ''bad-txnmrklroot''"
| "ValidationError_fmt BadTxDuplicate = ''bad-txns-duplicate''"
| "ValidationError_fmt NoCoinbase = ''bad-cb-missing''"
| "ValidationError_fmt MultipleCoinbase = ''bad-cb-multiple''"
| "ValidationError_fmt OversizedBlock = ''bad-blk-length''"
| "ValidationError_fmt OverweightBlock = ''bad-blk-weight''"
| "ValidationError_fmt BadBlockSigops = ''bad-blk-sigops''"
| "ValidationError_fmt BadDifficulty = ''bad-diffbits''"
| "ValidationError_fmt EmptyBlock = ''bad-blk-length''"
| "ValidationError_fmt BadTxNoInputs = ''bad-txns-vin-empty''"
| "ValidationError_fmt BadTxNoOutputs = ''bad-txns-vout-empty''"
| "ValidationError_fmt BadTxOversize = ''bad-txns-oversize''"
| "ValidationError_fmt BadTxOutputNegative = ''bad-txns-vout-negative''"
| "ValidationError_fmt BadTxOutputTooLarge = ''bad-txns-vout-toolarge''"
| "ValidationError_fmt BadTxOutputTotalTooLarge = ''bad-txns-txouttotal-toolarge''"
| "ValidationError_fmt BadTxDuplicateInput = ''bad-txns-inputs-duplicate''"
| "ValidationError_fmt BadTxCoinbaseSize = ''bad-cb-length''"
| "ValidationError_fmt BadTxNullInput = ''bad-txns-prevout-null''"
| "ValidationError_fmt BadWitnessCommitment = ''bad-witness-merkle-match''"
| "ValidationError_fmt BadWitnessNonceSize = ''bad-witness-nonce-size''"
| "ValidationError_fmt UnexpectedWitness = ''unexpected-witness''"
| "ValidationError_fmt BadSignetSolution = ''bad-signet-blksig''"
| "ValidationError_fmt TimewarpAttack = ''time-timewarp-attack''"

definition is_mutation_class :: "ValidationError \<Rightarrow> bool" where
  "is_mutation_class e \<longleftrightarrow>
     e \<in> {BadMerkleRoot, BadTxDuplicate, BadWitnessCommitment, BadWitnessNonceSize, UnexpectedWitness}"

section \<open>Transactions\<close>

definition MAX_MONEY :: nat where "MAX_MONEY = 21000000 * 100000000"
definition TX_MAX_BLOCK_WEIGHT :: nat where "TX_MAX_BLOCK_WEIGHT = 4000000"
definition TX_WITNESS_SCALE_FACTOR :: nat where "TX_WITNESS_SCALE_FACTOR = 4"

definition u64_max :: nat where "u64_max = 2 ^ 64 - 1"

definition saturating_mul :: "nat \<Rightarrow> nat \<Rightarrow> nat" where
  "saturating_mul a b = min (a * b) u64_max"

text \<open>The loop over the outputs, with the running total, and the loop over the inputs, with those seen.\<close>

fun check_outputs :: "TxOut list \<Rightarrow> nat \<Rightarrow> nat validation" where
  "check_outputs [] total_out = Ok total_out"
| "check_outputs (out # outs) total_out =
     (if out_value out \<ge> 2 ^ 63 then Err BadTxOutputNegative
      else if out_value out > MAX_MONEY then Err BadTxOutputTooLarge
      else if total_out + out_value out > u64_max then Err BadTxOutputTotalTooLarge
      else if total_out + out_value out > MAX_MONEY then Err BadTxOutputTotalTooLarge
      else check_outputs outs (total_out + out_value out))"

fun check_distinct :: "TxIn list \<Rightarrow> OutPoint set \<Rightarrow> unit validation" where
  "check_distinct [] seen = Ok ()"
| "check_distinct (input # inputs) seen =
     (if previous_output input \<in> seen then Err BadTxDuplicateInput
      else check_distinct inputs (insert (previous_output input) seen))"

definition check_transaction :: "tx_lib \<Rightarrow> Transaction \<Rightarrow> unit validation" where
  "check_transaction L tx =
     (if tx_input tx = [] then Err BadTxNoInputs
      else if tx_output tx = [] then Err BadTxNoOutputs
      else if saturating_mul (base_size L tx) TX_WITNESS_SCALE_FACTOR > TX_MAX_BLOCK_WEIGHT then Err BadTxOversize
      else
        rbind (check_outputs (tx_output tx) 0) (\<lambda>_.
        rbind (check_distinct (tx_input tx) {}) (\<lambda>_.
          if is_coinbase L tx then
            rbind (index (tx_input tx) 0) (\<lambda>input.
              let sig_len = length (script_sig input) in
              if \<not> (2 \<le> sig_len \<and> sig_len \<le> 100) then Err BadTxCoinbaseSize else Ok ())
          else if \<exists>input \<in> set (tx_input tx). is_null L (previous_output input) then Err BadTxNullInput
          else Ok ())))"

section \<open>What the loops decide\<close>

lemma check_outputs_Ok:
  "tot \<le> MAX_MONEY \<Longrightarrow>
   check_outputs outs tot = Ok t \<longleftrightarrow> t = tot + sum_list (map out_value outs) \<and> t \<le> MAX_MONEY"
proof (induction outs arbitrary: tot)
  case (Cons out outs)
  show ?case
  proof (cases "tot + out_value out \<le> MAX_MONEY")
    case True
    then have "out_value out < 2 ^ 63" "tot + out_value out \<le> u64_max" by (simp_all add: MAX_MONEY_def u64_max_def)
    then show ?thesis using True Cons.IH [OF True] by auto
  qed auto
qed auto

lemma check_outputs_no_panic: "no_panic (check_outputs outs tot)"
  by (induction outs arbitrary: tot) auto

lemma check_distinct_Ok:
  "check_distinct inputs seen = Ok () \<longleftrightarrow> distinct (map previous_output inputs) \<and> previous_output ` set inputs \<inter> seen = {}"
  by (induction inputs arbitrary: seen) auto

lemma check_distinct_no_panic: "no_panic (check_distinct inputs seen)"
  by (induction inputs arbitrary: seen) auto

section \<open>Properties\<close>

text \<open>
  C18: What the transaction check accepts: exactly the transactions with inputs and outputs, a stripped
  size within the weight limit, outputs that together do not exceed the money supply, no outpoint
  spent twice, and either a coinbase script of 2 to 100 bytes or no null outpoint; and it always
  answers without a panic.
\<close>

theorem check_transaction_accepts:
  "no_panic (check_transaction L tx) \<and>
   (check_transaction L tx = Ok () \<longleftrightarrow>
     tx_input tx \<noteq> [] \<and> tx_output tx \<noteq> [] \<and> 4 * base_size L tx \<le> 4000000
     \<and> sum_list (map out_value (tx_output tx)) \<le> MAX_MONEY
     \<and> distinct (map previous_output (tx_input tx))
     \<and> (if is_coinbase L tx then length (script_sig (hd (tx_input tx))) \<in> {2..100}
        else \<not> (\<exists>input \<in> set (tx_input tx). is_null L (previous_output input))))"
proof (cases "tx_input tx")
  case (Cons input inputs)
  have size: "\<not> saturating_mul (base_size L tx) TX_WITNESS_SCALE_FACTOR > TX_MAX_BLOCK_WEIGHT \<longleftrightarrow> 4 * base_size L tx \<le> 4000000"
    by (simp add: saturating_mul_def TX_WITNESS_SCALE_FACTOR_def TX_MAX_BLOCK_WEIGHT_def u64_max_def not_less)
  have out: "(\<exists>t. check_outputs (tx_output tx) 0 = Ok t) \<longleftrightarrow> sum_list (map out_value (tx_output tx)) \<le> MAX_MONEY"
    by (simp add: check_outputs_Ok)
  have "no_panic (check_transaction L tx)"
    unfolding check_transaction_def Let_def
    by (auto intro!: no_panic_rbind check_outputs_no_panic check_distinct_no_panic simp: Cons)
  moreover have "check_transaction L tx = Ok () \<longleftrightarrow>
     tx_output tx \<noteq> [] \<and> 4 * base_size L tx \<le> 4000000 \<and> (\<exists>t. check_outputs (tx_output tx) 0 = Ok t)
     \<and> check_distinct (tx_input tx) {} = Ok () \<and> (if is_coinbase L tx then length (script_sig input) \<in> {2..100}
        else \<not> (\<exists>input \<in> set (tx_input tx). is_null L (previous_output input)))"
    unfolding check_transaction_def rbind_eq_Ok size [symmetric] by (auto simp: Cons rbind_eq_Ok Let_def)
  ultimately show ?thesis unfolding out check_distinct_Ok by (simp add: Cons)
qed (simp add: check_transaction_def)

end
