(* ===== verification/Pow.thy ===== *)
theory Pow
  imports Compact Check_Tx
begin

text \<open>
  Proof of work and timestamps: \<open>node/src/validation/pow.rs\<close>, with the block index entry of
  \<open>node/src/storage/blockindex.rs\<close>.  Targets of the \<open>bitcoin\<close> crate are the 256-bit numbers they wrap;
  decoding and meeting them are the fields of \<open>pow_lib\<close>.  The block index is the lookup \<open>get_by_hash\<close>.
  The walk of the test networks follows parent links without checking heights, so on an arbitrary
  lookup it may not end; there the result is \<open>None\<close>.
\<close>

section \<open>Entries and constants\<close>

datatype BlockStatus = HeaderOnly | DataStored | Valid | Invalid | Pruned

record BlockIndexEntry =
  bi_header :: Header
  height :: nat
  status :: BlockStatus
  num_tx :: u32
  file_number :: u32
  data_pos :: u32
  chainwork :: bytes

record pow_lib =
  target_of_bits :: "u32 \<Rightarrow> nat"
  validate_pow :: "Header \<Rightarrow> nat \<Rightarrow> bool"
  block_hash :: "Header \<Rightarrow> bytes"
  is_met_by :: "nat \<Rightarrow> bytes \<Rightarrow> bool"

type_synonym block_lookup = "bytes \<Rightarrow> BlockIndexEntry option"

definition MAINNET_POWLIMIT_BITS :: u32 where "MAINNET_POWLIMIT_BITS = 0x1d00ffff"
definition REGTEST_POWLIMIT_BITS :: u32 where "REGTEST_POWLIMIT_BITS = 0x207fffff"
definition TESTNET_POWLIMIT_BITS :: u32 where "TESTNET_POWLIMIT_BITS = 0x1d00ffff"
definition SIGNET_POWLIMIT_BITS :: u32 where "SIGNET_POWLIMIT_BITS = 0x1e0377ae"
definition RETARGET_INTERVAL :: nat where "RETARGET_INTERVAL = 2016"
definition TARGET_TIMESPAN :: u32 where "TARGET_TIMESPAN = 14 * 24 * 60 * 60"
definition TESTNET_ALLOW_MIN_DIFF_AFTER :: u32 where "TESTNET_ALLOW_MIN_DIFF_AFTER = 20 * 60"
definition MAX_TIMEWARP :: u32 where "MAX_TIMEWARP = 600"
definition MAX_FUTURE_BLOCK_TIME :: nat where "MAX_FUTURE_BLOCK_TIME = 2 * 60 * 60"
definition MEDIAN_TIME_SPAN :: nat where "MEDIAN_TIME_SPAN = 11"

definition saturating_sub :: "u32 \<Rightarrow> u32 \<Rightarrow> u32" where
  "saturating_sub a b = (if a < b then 0 else a - b)"

definition clamp :: "u32 \<Rightarrow> u32 \<Rightarrow> u32 \<Rightarrow> u32" where
  "clamp x lo hi = (if x < lo then lo else if x > hi then hi else x)"

section \<open>Meeting a target\<close>

definition check_proof_of_work :: "pow_lib \<Rightarrow> Header \<Rightarrow> unit validation" where
  "check_proof_of_work P hdr =
     (let target = target_of_bits P (bits hdr) in if validate_pow P hdr target then Ok () else Err BadProofOfWork)"

definition pow_limit_bits :: "Network \<Rightarrow> u32" where
  "pow_limit_bits network = (case network of
       Regtest \<Rightarrow> REGTEST_POWLIMIT_BITS
     | Signet \<Rightarrow> SIGNET_POWLIMIT_BITS
     | Testnet \<Rightarrow> TESTNET_POWLIMIT_BITS
     | Testnet4 \<Rightarrow> TESTNET_POWLIMIT_BITS
     | Bitcoin \<Rightarrow> MAINNET_POWLIMIT_BITS)"

definition derive_target :: "pow_lib \<Rightarrow> u32 \<Rightarrow> Network \<Rightarrow> nat option" where
  "derive_target P raw network =
     (let sz = drop_bit 24 raw;
          word = raw AND 0x007fffff;
          negative = (word \<noteq> 0 \<and> raw AND 0x00800000 \<noteq> 0);
          overflow = (word \<noteq> 0 \<and> (sz > 34 \<or> (word > 0xff \<and> sz > 33) \<or> (word > 0xffff \<and> sz > 32)))
      in if negative \<or> overflow then None
         else
           let target = target_of_bits P raw;
               limit = target_of_bits P (pow_limit_bits network)
           in if target = 0 \<or> target > limit then None else Some target)"

definition check_proof_of_work_bounded :: "pow_lib \<Rightarrow> Header \<Rightarrow> Network \<Rightarrow> unit validation" where
  "check_proof_of_work_bounded P hdr network =
     rbind (ok_or (derive_target P (bits hdr) network) BadProofOfWork) (\<lambda>target.
       if is_met_by P target (block_hash P hdr) then Ok () else Err BadProofOfWork)"

section \<open>Retargeting\<close>

definition retarget :: "u32 \<Rightarrow> u32 \<Rightarrow> u32 \<Rightarrow> u32 validation" where
  "retarget old_bits actual_timespan powlimit_bits =
     (let old_target = target_from_compact old_bits;
          scaled = mul_u256_u32 old_target actual_timespan
      in rbind (div_u256_u32 scaled TARGET_TIMESPAN) (\<lambda>new_target.
        let powlimit = target_from_compact powlimit_bits;
            clamped = (if compare_targets new_target powlimit > 0 then powlimit else new_target)
        in Ok (compact_from_target clamped)))"

text \<open>The walk of \<open>period_first\<close> down to a height, checking each link.\<close>

function period_walk :: "block_lookup \<Rightarrow> nat \<Rightarrow> BlockIndexEntry \<Rightarrow> BlockIndexEntry validation" where
  "period_walk get first_height current =
     (if height current > first_height then
        case get (prev_blockhash (bi_header current)) of
          None \<Rightarrow> Err BadDifficulty
        | Some parent \<Rightarrow>
          if height parent + 1 > u32_max then Panic
          else if height parent + 1 \<noteq> height current then Err BadDifficulty
          else period_walk get first_height parent
      else Ok current)"
  by pat_completeness auto
termination
  by (relation "measure (\<lambda>(get, first_height, current). height current)") auto

declare period_walk.simps [simp del]

definition period_first :: "block_lookup \<Rightarrow> BlockIndexEntry \<Rightarrow> BlockIndexEntry validation" where
  "period_first get prev =
     rbind (checked_u32_add (height prev) 1) (\<lambda>next_height.
       if next_height < RETARGET_INTERVAL then Err BadDifficulty
       else period_walk get (next_height - RETARGET_INTERVAL) prev)"

definition period_timespan :: "BlockIndexEntry \<Rightarrow> BlockIndexEntry \<Rightarrow> u32" where
  "period_timespan prev first_entry =
     (let actual_timespan = saturating_sub (hdr_time (bi_header prev)) (hdr_time (bi_header first_entry))
      in clamp actual_timespan (TARGET_TIMESPAN div 4) (TARGET_TIMESPAN * 4))"

definition calculate_next_bits :: "nat \<Rightarrow> BlockIndexEntry \<Rightarrow> block_lookup \<Rightarrow> u32 \<Rightarrow> u32 validation" where
  "calculate_next_bits h prev get powlimit_bits =
     (if h mod RETARGET_INTERVAL \<noteq> 0 then Ok (bits (bi_header prev))
      else rbind (period_first get prev) (\<lambda>first_entry.
        retarget (bits (bi_header prev)) (period_timespan prev first_entry) powlimit_bits))"

definition calculate_next_bits_bip94 :: "nat \<Rightarrow> BlockIndexEntry \<Rightarrow> block_lookup \<Rightarrow> u32 validation" where
  "calculate_next_bits_bip94 h prev get =
     (if h mod RETARGET_INTERVAL \<noteq> 0 then Ok (bits (bi_header prev))
      else rbind (period_first get prev) (\<lambda>first_entry.
        retarget (bits (bi_header first_entry)) (period_timespan prev first_entry) MAINNET_POWLIMIT_BITS))"

partial_function (option) walk_back :: "block_lookup \<Rightarrow> BlockIndexEntry \<Rightarrow> BlockIndexEntry validation option" where
  "walk_back get current =
     (if height current mod RETARGET_INTERVAL = 0 then Some (Ok current)
      else if bits (bi_header current) \<noteq> TESTNET_POWLIMIT_BITS then Some (Ok current)
      else if height current = 0 then Some (Ok current)
      else case get (prev_blockhash (bi_header current)) of
        Some e \<Rightarrow> walk_back get e
      | None \<Rightarrow> Some (Err BadDifficulty))"

definition calculate_next_bits_testnet ::
  "nat \<Rightarrow> u32 \<Rightarrow> BlockIndexEntry \<Rightarrow> block_lookup \<Rightarrow> bool \<Rightarrow> u32 validation option" where
  "calculate_next_bits_testnet h header_time prev get bip94 =
     (if h mod RETARGET_INTERVAL = 0 then
        Some (if bip94 then calculate_next_bits_bip94 h prev get
              else calculate_next_bits h prev get TESTNET_POWLIMIT_BITS)
      else if unat header_time > unat (hdr_time (bi_header prev)) + unat TESTNET_ALLOW_MIN_DIFF_AFTER
      then Some (Ok TESTNET_POWLIMIT_BITS)
      else map_option (\<lambda>r. rbind r (\<lambda>current. Ok (bits (bi_header current)))) (walk_back get prev))"

definition next_bits :: "Network \<Rightarrow> BlockIndexEntry \<Rightarrow> u32 \<Rightarrow> block_lookup \<Rightarrow> u32 validation option" where
  "next_bits network prev header_time get =
     (let h = height prev + 1 in
      if h > u32_max then Some Panic
      else case network of
        Regtest \<Rightarrow> Some (Ok REGTEST_POWLIMIT_BITS)
      | Testnet \<Rightarrow> calculate_next_bits_testnet h header_time prev get False
      | Testnet4 \<Rightarrow> calculate_next_bits_testnet h header_time prev get True
      | Signet \<Rightarrow> Some (calculate_next_bits h prev get SIGNET_POWLIMIT_BITS)
      | Bitcoin \<Rightarrow> Some (calculate_next_bits h prev get MAINNET_POWLIMIT_BITS))"

definition check_difficulty :: "Header \<Rightarrow> BlockIndexEntry \<Rightarrow> Network \<Rightarrow> block_lookup \<Rightarrow> unit validation option" where
  "check_difficulty hdr prev network get =
     (let h = height prev + 1 in
      if h > u32_max then Some Panic
      else if network = Testnet4 \<and> h mod RETARGET_INTERVAL = 0
        \<and> hdr_time hdr < saturating_sub (hdr_time (bi_header prev)) MAX_TIMEWARP
      then Some (Err TimewarpAttack)
      else map_option (\<lambda>r. rbind r (\<lambda>expected. if bits hdr \<noteq> expected then Err BadDifficulty else Ok ()))
             (next_bits network prev (hdr_time hdr) get))"

section \<open>Timestamps\<close>

text \<open>The timestamps the loop collects, while \<open>n\<close> more may be taken.\<close>

primrec mtp_times :: "block_lookup \<Rightarrow> nat \<Rightarrow> BlockIndexEntry \<Rightarrow> u32 list" where
  "mtp_times get 0 entry = []"
| "mtp_times get (Suc n) entry =
     hdr_time (bi_header entry) #
       (if n = 0 \<or> height entry = 0 then []
        else case get (prev_blockhash (bi_header entry)) of None \<Rightarrow> [] | Some e \<Rightarrow> mtp_times get n e)"

definition median_time_past_of :: "BlockIndexEntry \<Rightarrow> block_lookup \<Rightarrow> u32" where
  "median_time_past_of prev get =
     (let timestamps = sort (mtp_times get MEDIAN_TIME_SPAN prev) in timestamps ! (length timestamps div 2))"

definition check_timestamp :: "Header \<Rightarrow> BlockIndexEntry \<Rightarrow> block_lookup \<Rightarrow> unit validation" where
  "check_timestamp hdr prev get =
     (if hdr_time hdr \<le> median_time_past_of prev get then Err TimeTooOld else Ok ())"

definition check_future_timestamp :: "Header \<Rightarrow> nat \<Rightarrow> unit validation" where
  "check_future_timestamp hdr now =
     (if unat (hdr_time hdr) > min (now + MAX_FUTURE_BLOCK_TIME) u64_max then Err TimeTooNew else Ok ())"

end
