(* ===== verification/Pow_Facts.thy ===== *)
theory Pow_Facts
  imports Pow
begin

text \<open>
  What the retarget rule guarantees: one retarget is exact up to the precision of the compact form,
  moves the target by at most a factor of four, and along any chain of accepted headers no target is
  ever easier than the limit of the network.  On such a chain the rule always gives an answer, the
  walk of the test networks included.
\<close>

section \<open>One retarget\<close>

lemma unat_TARGET_TIMESPAN: "unat TARGET_TIMESPAN = 1209600" "TARGET_TIMESPAN \<noteq> 0"
  by (simp_all add: TARGET_TIMESPAN_def)

definition target :: "u32 \<Rightarrow> nat" where
  "target w = be_nat (target_from_compact w)"

lemma target_compact: "target w = compact_value (unat (drop_bit 24 w)) (unat w mod 2 ^ 23)"
  by (simp add: target_def be_nat_target_from_compact)

lemma retarget_exact:
  assumes "target old * unat ts < 2 ^ 256" "target limit < 2 ^ 255"
  obtains b where "retarget old ts limit = Ok b"
    and "target b \<le> min (target limit) (target old * unat ts div 1209600)"
    and "2 ^ 15 * min (target limit) (target old * unat ts div 1209600) \<le> (2 ^ 15 + 1) * target b"
proof -
  let ?s = "mul_u256_u32 (target_from_compact old) ts" and ?limit = "target_from_compact limit"
  have "(256 :: nat) ^ 32 = 2 ^ 256" by simp
  then have s: "be_nat ?s = target old * unat ts"
    using assms(1) by (simp only: be_nat_mul length_target_from_compact target_def mod_less)
  obtain q where q: "div_u256_u32 ?s TARGET_TIMESPAN = (Ok q :: bytes validation)" "length q = 32" "be_nat q = target old * unat ts div 1209600"
    using be_nat_div [OF unat_TARGET_TIMESPAN(2), of ?s, where ?'a = ValidationError] unfolding s unat_TARGET_TIMESPAN(1) by auto
  define c where "c = (if compare_targets q ?limit > 0 then ?limit else q)"
  have c: "length c = 32" "be_nat c = min (target limit) (target old * unat ts div 1209600)"
    using q(2,3) by (auto simp: c_def compare_targets_less target_def)
  have "retarget old ts limit = Ok (compact_from_target c)"
    using q(1) by (simp add: retarget_def Let_def c_def)
  then show thesis
    using compact_from_target_facts(1,2) [OF c(1)] that [of "compact_from_target c"] assms(2)
    unfolding c(2) target_def [of "compact_from_target c"] by simp
qed

lemma period_timespan_bounds: "unat (period_timespan prev first) \<le> 4 * 1209600"
  by (auto simp: period_timespan_def clamp_def Let_def TARGET_TIMESPAN_def word_less_nat_alt word_le_nat_alt)

lemma limit_values: "target MAINNET_POWLIMIT_BITS = 65535 * 256 ^ 26" "target SIGNET_POWLIMIT_BITS = 227246 * 256 ^ 27"
  "target TESTNET_POWLIMIT_BITS = 65535 * 256 ^ 26" "target REGTEST_POWLIMIT_BITS = 8388607 * 256 ^ 29"
  by (simp_all add: target_compact compact_value_def unat_drop_u32 MAINNET_POWLIMIT_BITS_def SIGNET_POWLIMIT_BITS_def
      TESTNET_POWLIMIT_BITS_def REGTEST_POWLIMIT_BITS_def)

text \<open>The limits of the networks that retarget leave room for the product.\<close>

definition roomy :: "u32 \<Rightarrow> bool" where
  "roomy limit \<longleftrightarrow> target limit * (4 * 1209600) < 2 ^ 256"

lemma roomy_limits: "roomy MAINNET_POWLIMIT_BITS" "roomy SIGNET_POWLIMIT_BITS" "roomy TESTNET_POWLIMIT_BITS"
  by (simp_all add: roomy_def limit_values)

lemma retarget_period:
  assumes "roomy limit" "target old \<le> target limit"
  obtains b where "retarget old (period_timespan prev first) limit = Ok b" "target b \<le> target limit" "target b \<le> 4 * target old"
proof -
  let ?ts = "unat (period_timespan prev first)"
  have "target old * ?ts \<le> target limit * (4 * 1209600)"
    using assms(2) period_timespan_bounds by (intro mult_mono) simp_all
  then have a: "target old * ?ts < 2 ^ 256" using assms(1) by (simp add: roomy_def)
  have l: "target limit < 2 ^ 255" using assms(1) by (simp add: roomy_def)
  have "target old * ?ts \<le> target old * (4 * 1209600)" using period_timespan_bounds by (intro mult_left_mono) simp_all
  then have "target old * ?ts div 1209600 \<le> target old * (4 * 1209600) div 1209600" by (rule div_le_mono)
  also have "\<dots> = 4 * target old" by simp
  finally have q: "target old * ?ts div 1209600 \<le> 4 * target old" .
  from retarget_exact [OF a l] obtain b where b: "retarget old (period_timespan prev first) limit = Ok b"
    "target b \<le> min (target limit) (target old * ?ts div 1209600)" .
  then show thesis using that q by simp
qed

section \<open>Chains of accepted headers\<close>

inductive accepted :: "Network \<Rightarrow> block_lookup \<Rightarrow> BlockIndexEntry \<Rightarrow> bool" for network get where
  genesis: "height e = 0 \<Longrightarrow> target (bits (bi_header e)) \<le> target (pow_limit_bits network) \<Longrightarrow> accepted network get e"
| extend: "accepted network get prev \<Longrightarrow> get (prev_blockhash (bi_header e)) = Some prev \<Longrightarrow>
    height e = height prev + 1 \<Longrightarrow> check_difficulty (bi_header e) prev network get = Some (Ok ()) \<Longrightarrow>
    accepted network get e"

inductive_cases accepted_extendE: "accepted network get e"

lemma accepted_parent:
  assumes "accepted network get e" "0 < height e"
  obtains prev where "get (prev_blockhash (bi_header e)) = Some prev" "accepted network get prev" "height e = height prev + 1"
  using assms by (cases rule: accepted.cases) auto

lemma period_walk_accepted:
  assumes "accepted network get e" "first \<le> height e" "height e \<le> u32_max"
  shows "\<exists>f. period_walk get first e = Ok f \<and> accepted network get f \<and> height f = first"
  using assms
proof (induction "height e" arbitrary: e)
  case 0
  then show ?case by (auto simp: period_walk.simps [of get _ e])
next
  case (Suc n)
  from accepted_parent [OF Suc.prems(1)] Suc.hyps(2) obtain prev
    where p: "get (prev_blockhash (bi_header e)) = Some prev" "accepted network get prev" "height e = height prev + 1" by auto
  show ?case
  proof (cases "height e > first")
    case True
    then have "\<exists>f. period_walk get first prev = Ok f \<and> accepted network get f \<and> height f = first"
      using Suc.hyps p Suc.prems(3) by simp
    then show ?thesis using True p Suc.prems(3) by (simp add: period_walk.simps [of get first e])
  next
    case False
    then show ?thesis using Suc.prems by (auto simp: period_walk.simps [of get _ e])
  qed
qed

lemma period_first_accepted:
  assumes "accepted network get prev" "height prev + 1 \<le> u32_max" "RETARGET_INTERVAL \<le> height prev + 1"
  obtains f where "period_first get prev = Ok f" "accepted network get f" "height f = height prev + 1 - RETARGET_INTERVAL"
proof -
  have "height prev + 1 - RETARGET_INTERVAL \<le> height prev" by (simp add: RETARGET_INTERVAL_def)
  then show thesis
    using period_walk_accepted [OF assms(1), of "height prev + 1 - RETARGET_INTERVAL"] assms(2,3) that
    by (auto simp: period_first_def checked_u32_add_def)
qed

lemma walk_back_accepted:
  assumes "accepted network get e"
  shows "\<exists>f. walk_back get e = Some (Ok f) \<and> accepted network get f \<and> height f \<le> height e"
  using assms
proof (induction "height e" arbitrary: e)
  case 0
  then show ?case by (simp add: walk_back.simps [of get e])
next
  case (Suc n)
  from accepted_parent [OF Suc.prems] Suc.hyps(2) obtain prev
    where p: "get (prev_blockhash (bi_header e)) = Some prev" "accepted network get prev" "height e = height prev + 1" by auto
  then have "\<exists>f. walk_back get prev = Some (Ok f) \<and> accepted network get f \<and> height f \<le> height prev" using Suc.hyps by simp
  then show ?case using p Suc.prems by (auto simp: walk_back.simps [of get e])
qed

lemma boundary_height: "0 < h \<Longrightarrow> h mod RETARGET_INTERVAL = 0 \<Longrightarrow> RETARGET_INTERVAL \<le> h"
  by (metis mod_less not_le not_less_zero)

text \<open>The rule of a retargeting network, seeded from the parent or from the first block of the period.\<close>

lemma calculate_next_bits_accepted:
  assumes acc: "accepted network get prev" and h: "height prev + 1 \<le> u32_max"
    and inv: "\<And>e. accepted network get e \<Longrightarrow> height e \<le> height prev \<Longrightarrow> target (bits (bi_header e)) \<le> target limit" and r: "roomy limit"
  obtains b where "calculate_next_bits (height prev + 1) prev get limit = Ok b" "target b \<le> target limit"
    "target b \<le> 4 * target (bits (bi_header prev))"
proof (cases "(height prev + 1) mod RETARGET_INTERVAL = 0")
  case True
  then have "RETARGET_INTERVAL \<le> height prev + 1" by (intro boundary_height) simp_all
  from period_first_accepted [OF acc h this] obtain f where f: "period_first get prev = Ok f" .
  from retarget_period [OF r inv [OF acc order_refl], of prev f] obtain b
    where "retarget (bits (bi_header prev)) (period_timespan prev f) limit = Ok b" "target b \<le> target limit"
      "target b \<le> 4 * target (bits (bi_header prev))" .
  then show thesis using that [of b] True f by (simp add: calculate_next_bits_def)
next
  case False
  then show thesis using that [of "bits (bi_header prev)"] inv [OF acc order_refl] by (simp add: calculate_next_bits_def)
qed

lemma calculate_next_bits_bip94_accepted:
  assumes acc: "accepted network get prev" and h: "height prev + 1 \<le> u32_max"
    and inv: "\<And>e. accepted network get e \<Longrightarrow> height e \<le> height prev \<Longrightarrow> target (bits (bi_header e)) \<le> target MAINNET_POWLIMIT_BITS"
  obtains b where "calculate_next_bits_bip94 (height prev + 1) prev get = Ok b" "target b \<le> target MAINNET_POWLIMIT_BITS"
proof (cases "(height prev + 1) mod RETARGET_INTERVAL = 0")
  case True
  then have "RETARGET_INTERVAL \<le> height prev + 1" by (intro boundary_height) simp_all
  from period_first_accepted [OF acc h this] obtain f
    where f: "period_first get prev = Ok f" "accepted network get f" "height f = height prev + 1 - RETARGET_INTERVAL" .
  have "height f \<le> height prev" using f(3) by (simp add: RETARGET_INTERVAL_def)
  from retarget_period [OF roomy_limits(1) inv [OF f(2) this], of prev f] obtain b
    where "retarget (bits (bi_header f)) (period_timespan prev f) MAINNET_POWLIMIT_BITS = Ok b"
      "target b \<le> target MAINNET_POWLIMIT_BITS" .
  then show thesis using that [of b] True f by (simp add: calculate_next_bits_bip94_def)
next
  case False
  then show thesis using that [of "bits (bi_header prev)"] inv [OF acc order_refl] by (simp add: calculate_next_bits_bip94_def)
qed

lemma next_bits_answers:
  assumes acc: "accepted network get prev" and h: "height prev + 1 \<le> u32_max"
    and inv: "\<And>e. accepted network get e \<Longrightarrow> height e \<le> height prev \<Longrightarrow> target (bits (bi_header e)) \<le> target (pow_limit_bits network)"
  obtains b where "next_bits network prev t get = Some (Ok b)" "target b \<le> target (pow_limit_bits network)"
proof -
  have same: "MAINNET_POWLIMIT_BITS = TESTNET_POWLIMIT_BITS" by (simp add: MAINNET_POWLIMIT_BITS_def TESTNET_POWLIMIT_BITS_def)
  have testnet: "\<exists>b. calculate_next_bits_testnet (height prev + 1) t prev get bip94 = Some (Ok b) \<and> target b \<le> target TESTNET_POWLIMIT_BITS"
    if "pow_limit_bits network = TESTNET_POWLIMIT_BITS" for bip94
  proof -
    have i: "target (bits (bi_header e)) \<le> target TESTNET_POWLIMIT_BITS" if "accepted network get e" "height e \<le> height prev" for e
      using inv [OF that] \<open>pow_limit_bits network = TESTNET_POWLIMIT_BITS\<close> by simp
    obtain b1 where b1: "calculate_next_bits (height prev + 1) prev get TESTNET_POWLIMIT_BITS = Ok b1" "target b1 \<le> target TESTNET_POWLIMIT_BITS"
      by (rule calculate_next_bits_accepted [OF acc h i roomy_limits(3)])
    obtain b2 where b2: "calculate_next_bits_bip94 (height prev + 1) prev get = Ok b2" "target b2 \<le> target TESTNET_POWLIMIT_BITS"
      by (rule calculate_next_bits_bip94_accepted [OF acc h]) (use i same in auto)
    from walk_back_accepted [OF acc] obtain f where "walk_back get prev = Some (Ok f)" "accepted network get f" "height f \<le> height prev" by blast
    then show ?thesis using b1 b2 i by (auto simp: calculate_next_bits_testnet_def)
  qed
  have main: "\<exists>b. calculate_next_bits (height prev + 1) prev get limit = Ok b \<and> target b \<le> target limit"
    if "pow_limit_bits network = limit" "roomy limit" for limit
    by (rule calculate_next_bits_accepted [OF acc h _ that(2)]) (use inv that(1) in auto)
  have "\<exists>b. next_bits network prev t get = Some (Ok b) \<and> target b \<le> target (pow_limit_bits network)"
    using h testnet main roomy_limits by (cases network) (auto simp: next_bits_def Let_def pow_limit_bits_def)
  then show thesis using that by blast
qed

lemma accepted_within_limit:
  "accepted network get e \<Longrightarrow> target (bits (bi_header e)) \<le> target (pow_limit_bits network)"
proof (induction "height e" arbitrary: e rule: less_induct)
  case less
  from less.prems show ?case
  proof (cases rule: accepted.cases)
    case (extend prev)
    then have h: "height prev + 1 \<le> u32_max" by (auto simp: check_difficulty_def Let_def not_less [symmetric] split: if_splits)
    have "target (bits (bi_header f)) \<le> target (pow_limit_bits network)" if "accepted network get f" "height f \<le> height prev" for f
      using less.hyps [of f] that extend by simp
    from next_bits_answers [OF extend(1) h this] obtain b
      where "next_bits network prev (hdr_time (bi_header e)) get = Some (Ok b)" "target b \<le> target (pow_limit_bits network)" .
    then show ?thesis using extend(4) by (auto simp: check_difficulty_def Let_def split: if_splits)
  qed simp
qed

section \<open>Medians\<close>

lemma sorted_nth_less_iff:
  fixes xs :: "'a::linorder list"
  assumes "sorted xs" "k < length xs"
  shows "xs ! k < t \<longleftrightarrow> k < length (filter (\<lambda>x. x < t) xs)"
  using assms
proof (induction xs arbitrary: k)
  case (Cons x xs)
  show ?case
  proof (cases "x < t")
    case True
    then show ?thesis using Cons by (cases k) auto
  next
    case False
    then have "filter (\<lambda>x. x < t) xs = []" using Cons.prems(1) by (auto simp: filter_empty_conv)
    moreover have "\<not> (x # xs) ! k < t" using False Cons.prems by (cases k) (auto dest!: nth_mem)
    ultimately show ?thesis using False by simp
  qed
qed simp

lemma length_filter_sort: "length (filter P (sort xs)) = length (filter P xs)"
  by (simp add: filter_sort)

lemma mtp_times_nonempty: "mtp_times get (Suc n) e \<noteq> []"
  by simp

lemma length_mtp_times: "length (mtp_times get n e) \<le> n"
  by (induction n arbitrary: e) (auto split: option.split intro: le_SucI)

section \<open>Properties\<close>

text \<open>
  C16: A retarget is exact up to the precision of the compact form: when the product fits in 256 bits,
  the new target is the old one scaled by the time the period took over two weeks, cut off at the
  limit, with less than one part in \<open>2 ^ 15\<close> lost to the encoding and never above it.
\<close>

theorem retarget_computes:
  assumes "target old * unat ts < 2 ^ 256" "target limit < 2 ^ 255"
  shows "\<exists>b. retarget old ts limit = Ok b
    \<and> target b \<le> min (target limit) (target old * unat ts div 1209600)
    \<and> 2 ^ 15 * min (target limit) (target old * unat ts div 1209600) \<le> (2 ^ 15 + 1) * target b"
  by (rule retarget_exact [OF assms]) blast

theorem retarget_computes_witness:
  "\<exists>b. retarget 0x1d00ffff 604800 0x1d00ffff = Ok b
    \<and> target b \<le> min (target 0x1d00ffff) (target 0x1d00ffff * unat (604800 :: u32) div 1209600)
    \<and> 2 ^ 15 * min (target 0x1d00ffff) (target 0x1d00ffff * unat (604800 :: u32) div 1209600) \<le> (2 ^ 15 + 1) * target b"
  by (rule retarget_computes) (simp_all add: target_compact compact_value_def unat_drop_u32)

text \<open>
  C14: No accepted header is easier than the network allows: along every chain built by the difficulty
  check from a genesis block within the limit, on every network and any branch, each target is at
  most the proof-of-work limit.
\<close>

theorem accepted_chain_within_limit:
  assumes "accepted network get e"
  shows "target (bits (bi_header e)) \<le> target (pow_limit_bits network)"
  by (rule accepted_within_limit [OF assms])

definition sample_header :: "bytes \<Rightarrow> u32 \<Rightarrow> Header" where
  "sample_header prev t = \<lparr>hdr_version = 1, prev_blockhash = prev, merkle_root = [], hdr_time = t, bits = 0x1d00ffff, hdr_nonce = 0\<rparr>"

definition sample_entry :: "bytes \<Rightarrow> u32 \<Rightarrow> nat \<Rightarrow> BlockIndexEntry" where
  "sample_entry prev t h = \<lparr>bi_header = sample_header prev t, height = h, status = Valid, num_tx = 1, file_number = 0,
     data_pos = 0, chainwork = replicate 32 0\<rparr>"

definition sample_lookup :: block_lookup where
  "sample_lookup hash = (if hash = [0] then Some (sample_entry [] 100 0) else None)"

lemma sample_accepted: "accepted Bitcoin sample_lookup (sample_entry [0] 700 1)"
proof (rule accepted.extend)
  show "accepted Bitcoin sample_lookup (sample_entry [] 100 0)"
    by (rule accepted.genesis) (simp_all add: sample_entry_def sample_header_def pow_limit_bits_def MAINNET_POWLIMIT_BITS_def)
  show "sample_lookup (prev_blockhash (bi_header (sample_entry [0] 700 1))) = Some (sample_entry [] 100 0)"
    by (simp add: sample_lookup_def sample_entry_def sample_header_def)
  show "height (sample_entry [0] 700 1) = height (sample_entry [] 100 0) + 1" by (simp add: sample_entry_def)
  show "check_difficulty (bi_header (sample_entry [0] 700 1)) (sample_entry [] 100 0) Bitcoin sample_lookup = Some (Ok ())"
    by (simp add: check_difficulty_def next_bits_def calculate_next_bits_def sample_entry_def sample_header_def
        RETARGET_INTERVAL_def u32_max_def Let_def)
qed

theorem accepted_chain_within_limit_witness:
  "target (bits (bi_header (sample_entry [0] 700 1))) \<le> target (pow_limit_bits Bitcoin)"
  by (rule accepted_chain_within_limit [OF sample_accepted])

text \<open>
  C15: The difficulty rule always has an answer on a connected chain: on every network, whatever the
  timestamp of the new header, the walks over parent links end and the required bits are found, up
  to the last height the counter can hold.
\<close>

theorem next_bits_total:
  assumes "accepted network get prev" "height prev + 1 \<le> u32_max"
  shows "\<exists>b. next_bits network prev t get = Some (Ok b)"
  by (rule next_bits_answers [OF assms]) (use accepted_within_limit in blast)+

theorem next_bits_total_witness: "\<exists>b. next_bits Bitcoin (sample_entry [0] 700 1) 900 sample_lookup = Some (Ok b)"
  by (rule next_bits_total [OF sample_accepted]) (simp add: sample_entry_def u32_max_def)

text \<open>
  One retarget on the main network moves the target by at most a factor of four, and between
  retargets the bits of the parent are kept.
\<close>

theorem retarget_at_most_fourfold:
  assumes "accepted Bitcoin get prev" "height prev + 1 \<le> u32_max"
  shows "\<exists>b. next_bits Bitcoin prev t get = Some (Ok b) \<and> target b \<le> 4 * target (bits (bi_header prev))
    \<and> ((height prev + 1) mod RETARGET_INTERVAL \<noteq> 0 \<longrightarrow> b = bits (bi_header prev))"
proof -
  have inv: "target (bits (bi_header e)) \<le> target MAINNET_POWLIMIT_BITS" if "accepted Bitcoin get e" for e
    using accepted_within_limit [OF that] by (simp add: pow_limit_bits_def)
  obtain b where "calculate_next_bits (height prev + 1) prev get MAINNET_POWLIMIT_BITS = Ok b"
    "target b \<le> 4 * target (bits (bi_header prev))"
    by (rule calculate_next_bits_accepted [OF assms inv roomy_limits(1)])
  moreover have "b = bits (bi_header prev)" if "(height prev + 1) mod RETARGET_INTERVAL \<noteq> 0"
    "calculate_next_bits (height prev + 1) prev get MAINNET_POWLIMIT_BITS = Ok b" for b
    using that by (simp add: calculate_next_bits_def)
  ultimately show ?thesis using assms(2) by (auto simp: next_bits_def Let_def)
qed

theorem retarget_at_most_fourfold_witness:
  "\<exists>b. next_bits Bitcoin (sample_entry [0] 700 1) 900 sample_lookup = Some (Ok b)
    \<and> target b \<le> 4 * target (bits (bi_header (sample_entry [0] 700 1)))"
  using retarget_at_most_fourfold [OF sample_accepted, of 900] by (auto simp: sample_entry_def u32_max_def)

text \<open>
  C40: The timestamp rule by counting: a header is accepted exactly when its time is later than more
  than half of the timestamps of its parent and up to ten further ancestors.
\<close>

theorem check_timestamp_majority:
  "check_timestamp hdr prev get = Ok () \<longleftrightarrow>
    (let times = mtp_times get 11 prev in
     length times div 2 < length (filter (\<lambda>t. t < hdr_time hdr) times))"
proof -
  let ?ts = "mtp_times get 11 prev"
  have "?ts \<noteq> []" using mtp_times_nonempty [of get 10 prev] by simp
  then have "length ?ts div 2 < length ?ts" by (cases ?ts) simp_all
  moreover have "check_timestamp hdr prev get = Ok () \<longleftrightarrow> sort ?ts ! (length ?ts div 2) < hdr_time hdr"
    unfolding linorder_not_le [symmetric] by (simp add: check_timestamp_def median_time_past_of_def MEDIAN_TIME_SPAN_def Let_def)
  ultimately show ?thesis
    using sorted_nth_less_iff [of "sort ?ts" "length ?ts div 2" "hdr_time hdr"] by (simp add: Let_def length_filter_sort)
qed

end
