(* ===== verification/Activation.thy ===== *)
theory Activation
  imports Engine_Facts Tx_Lib
begin

text \<open>
  Which script rules a block is judged by, and the verifier the node runs: \<open>node/src/validation/script.rs\<close>.
  The process-wide override slot is an argument; the progress counter of the thread, when one is
  installed, is explicit state.  The verifier that calls the C++ library is not modelled.
\<close>

section \<open>Activation heights\<close>

record ActivationHeights =
  ah_p2sh :: nat
  ah_bip34 :: nat
  ah_dersig :: nat
  ah_cltv :: nat
  ah_csv :: nat
  ah_segwit :: nat
  ah_taproot :: nat

record TestActivationOverrides =
  ov_bip34 :: "nat option"
  ov_dersig :: "nat option"
  ov_cltv :: "nat option"
  ov_csv :: "nat option"
  ov_segwit :: "nat option"

text \<open>\<open>if let Some(h) = o.field { self.field = h; }\<close>\<close>

definition or_keep :: "nat option \<Rightarrow> nat \<Rightarrow> nat" where
  "or_keep o' old = (case o' of Some h \<Rightarrow> h | None \<Rightarrow> old)"

definition with_overrides :: "ActivationHeights \<Rightarrow> TestActivationOverrides \<Rightarrow> ActivationHeights" where
  "with_overrides self ov =
     self\<lparr>ah_bip34 := or_keep (ov_bip34 ov) (ah_bip34 self),
          ah_dersig := or_keep (ov_dersig ov) (ah_dersig self),
          ah_cltv := or_keep (ov_cltv ov) (ah_cltv self),
          ah_csv := or_keep (ov_csv ov) (ah_csv self),
          ah_segwit := or_keep (ov_segwit ov) (ah_segwit self),
          ah_taproot := (case ov_segwit ov of Some h \<Rightarrow> max (ah_taproot self) h | None \<Rightarrow> ah_taproot self)\<rparr>"

definition base_heights :: "Network \<Rightarrow> ActivationHeights" where
  "base_heights network = (case network of
       Bitcoin \<Rightarrow> \<lparr>ah_p2sh = 173805, ah_bip34 = 227931, ah_dersig = 363725, ah_cltv = 388381, ah_csv = 419328,
                   ah_segwit = 481824, ah_taproot = 709632\<rparr>
     | Testnet \<Rightarrow> \<lparr>ah_p2sh = 395, ah_bip34 = 21111, ah_dersig = 330776, ah_cltv = 581885, ah_csv = 770112,
                   ah_segwit = 834624, ah_taproot = 834624\<rparr>
     | _ \<Rightarrow> \<lparr>ah_p2sh = 0, ah_bip34 = 1, ah_dersig = 0, ah_cltv = 0, ah_csv = 0, ah_segwit = 0, ah_taproot = 0\<rparr>)"

definition activation_heights :: "TestActivationOverrides option \<Rightarrow> Network \<Rightarrow> ActivationHeights" where
  "activation_heights slot network =
     (let heights = base_heights network in
      case slot of
        Some overrides \<Rightarrow> if network = Regtest then with_overrides heights overrides else heights
      | None \<Rightarrow> heights)"

text \<open>The slot can be filled once.\<close>

definition set_test_activation_overrides ::
  "TestActivationOverrides \<Rightarrow> TestActivationOverrides option \<Rightarrow> (string, unit) result \<times> TestActivationOverrides option" where
  "set_test_activation_overrides ov slot = (case slot of
       None \<Rightarrow> (Ok (), Some ov)
     | Some old \<Rightarrow> (Err ''test activation overrides already set'', Some old))"

section \<open>Flags\<close>

definition script_verify_flags :: "TestActivationOverrides option \<Rightarrow> Network \<Rightarrow> nat \<Rightarrow> u32" where
  "script_verify_flags slot network ht =
     (let h = activation_heights slot network;
          flags = 0;
          flags = (if ht \<ge> ah_p2sh h then flags OR VERIFY_P2SH else flags);
          flags = (if ht \<ge> ah_dersig h then flags OR VERIFY_DERSIG else flags);
          flags = (if ht \<ge> ah_cltv h then flags OR VERIFY_CHECKLOCKTIMEVERIFY else flags);
          flags = (if ht \<ge> ah_csv h then flags OR VERIFY_CHECKSEQUENCEVERIFY else flags);
          flags = (if ht \<ge> ah_segwit h then flags OR (VERIFY_WITNESS OR VERIFY_NULLDUMMY) else flags)
      in if ht \<ge> ah_taproot h then flags OR VERIFY_TAPROOT else flags)"

definition STANDARD_SCRIPT_VERIFY_FLAGS :: u32 where
  "STANDARD_SCRIPT_VERIFY_FLAGS =
     VERIFY_P2SH OR VERIFY_DERSIG OR VERIFY_NULLDUMMY OR VERIFY_CHECKLOCKTIMEVERIFY
     OR VERIFY_CHECKSEQUENCEVERIFY OR VERIFY_WITNESS OR VERIFY_TAPROOT OR VERIFY_STRICTENC
     OR VERIFY_MINIMALDATA OR VERIFY_DISCOURAGE_UPGRADABLE_NOPS OR VERIFY_CLEANSTACK OR VERIFY_MINIMALIF
     OR VERIFY_NULLFAIL OR VERIFY_LOW_S OR VERIFY_DISCOURAGE_UPGRADABLE_WITNESS_PROGRAM
     OR VERIFY_WITNESS_PUBKEYTYPE OR VERIFY_CONST_SCRIPTCODE
     OR VERIFY_DISCOURAGE_UPGRADABLE_TAPROOT_VERSION OR VERIFY_DISCOURAGE_OP_SUCCESS
     OR VERIFY_DISCOURAGE_UPGRADABLE_PUBKEYTYPE"

section \<open>The verifier\<close>

datatype NodeScriptError = VerifyFailed nat string

definition verify_failed :: "nat \<times> Error \<Rightarrow> NodeScriptError" where
  "verify_failed ie = (case ie of (idx, e) \<Rightarrow> VerifyFailed idx (Error_fmt e))"

definition verify_policy_scripts ::
  "crypto \<Rightarrow> tx_codec \<Rightarrow> tx_ref \<Rightarrow> TxOut list \<Rightarrow> (NodeScriptError, unit) result" where
  "verify_policy_scripts C K tx prev_outputs =
     map_err verify_failed (verify_transaction C K tx prev_outputs STANDARD_SCRIPT_VERIFY_FLAGS)"

definition count_inputs_verified :: "nat \<Rightarrow> u64 option \<Rightarrow> u64 option" where
  "count_inputs_verified n counter = map_option (\<lambda>c. c + of_nat n) counter"

definition RustVerifier_verify_transaction ::
  "crypto \<Rightarrow> tx_codec \<Rightarrow> TestActivationOverrides option \<Rightarrow> Network \<Rightarrow> tx_ref \<Rightarrow> TxOut list \<Rightarrow> nat \<Rightarrow> u64 option
     \<Rightarrow> (NodeScriptError, unit) result \<times> u64 option" where
  "RustVerifier_verify_transaction C K slot network tx prev_outputs ht counter =
     (let flags = script_verify_flags slot network ht in
      case map_err verify_failed (verify_transaction C K tx prev_outputs flags) of
        Ok _ \<Rightarrow> (Ok (), count_inputs_verified (length (tx_input (snd tx))) counter)
      | Err e \<Rightarrow> (Err e, counter)
      | Panic \<Rightarrow> (Panic, counter))"

text \<open>The script error the native engine names for a failed input; \<open>None\<close> leaves the coarse one.\<close>

definition name_script_failure ::
  "crypto \<Rightarrow> tx_codec \<Rightarrow> tx_ref \<Rightarrow> TxOut list \<Rightarrow> u32 \<Rightarrow> nat \<Rightarrow> (NodeScriptError, string option) result" where
  "name_script_failure C K tx prev_outputs flags input =
     (if input < length prev_outputs then
        let prev = prev_outputs ! input in
        case PrecomputedTransactionData_new tx prev_outputs of
          Ok precomputed \<Rightarrow>
            (case verify C K (script_pubkey prev) (out_value prev) tx input flags precomputed of
               Err (ErrScript e) \<Rightarrow> Ok (Some (as_str e))
             | Err _ \<Rightarrow> Ok None
             | Ok _ \<Rightarrow> Ok None
             | Panic \<Rightarrow> Panic)
        | Err _ \<Rightarrow> Ok None
        | Panic \<Rightarrow> Panic
      else Ok None)"

section \<open>Heights and flags\<close>

text \<open>Taproot never starts before segwit, nor segwit before P2SH, whatever is overridden.\<close>

lemma activation_order:
  "ah_segwit (activation_heights slot network) \<le> ah_taproot (activation_heights slot network)"
  "ah_p2sh (activation_heights slot network) \<le> ah_segwit (activation_heights slot network)"
  by (cases network; cases slot; auto simp: activation_heights_def base_heights_def with_overrides_def or_keep_def
      Let_def split: option.split)+

lemma bit_push_one: "k < 32 \<Longrightarrow> bit (push_bit k 1 :: u32) n \<longleftrightarrow> n = k"
  by (auto simp: bit_push_bit_iff bit_1_iff bit_exp_iff)

lemma flag_bits:
  "bit VERIFY_P2SH n \<longleftrightarrow> n = 0" "bit VERIFY_DERSIG n \<longleftrightarrow> n = 2" "bit VERIFY_CHECKLOCKTIMEVERIFY n \<longleftrightarrow> n = 9"
  "bit VERIFY_CHECKSEQUENCEVERIFY n \<longleftrightarrow> n = 10" "bit VERIFY_WITNESS n \<longleftrightarrow> n = 11" "bit VERIFY_NULLDUMMY n \<longleftrightarrow> n = 4"
  "bit VERIFY_TAPROOT n \<longleftrightarrow> n = 17"
  unfolding VERIFY_P2SH_def VERIFY_DERSIG_def VERIFY_CHECKLOCKTIMEVERIFY_def VERIFY_CHECKSEQUENCEVERIFY_def
    VERIFY_WITNESS_def VERIFY_NULLDUMMY_def VERIFY_TAPROOT_def
  by (rule bit_push_one; simp)+

lemma script_verify_flags_bit:
  "bit (script_verify_flags slot network ht) n \<longleftrightarrow>
    (let h = activation_heights slot network in
     n = 0 \<and> ah_p2sh h \<le> ht \<or> n = 2 \<and> ah_dersig h \<le> ht \<or> n = 9 \<and> ah_cltv h \<le> ht \<or> n = 10 \<and> ah_csv h \<le> ht
     \<or> (n = 11 \<or> n = 4) \<and> ah_segwit h \<le> ht \<or> n = 17 \<and> ah_taproot h \<le> ht)"
proof -
  have "bit (script_verify_flags slot network ht) n \<longleftrightarrow>
     (let h = activation_heights slot network in
      ah_p2sh h \<le> ht \<and> bit VERIFY_P2SH n \<or> ah_dersig h \<le> ht \<and> bit VERIFY_DERSIG n
      \<or> ah_cltv h \<le> ht \<and> bit VERIFY_CHECKLOCKTIMEVERIFY n \<or> ah_csv h \<le> ht \<and> bit VERIFY_CHECKSEQUENCEVERIFY n
      \<or> ah_segwit h \<le> ht \<and> (bit VERIFY_WITNESS n \<or> bit VERIFY_NULLDUMMY n) \<or> ah_taproot h \<le> ht \<and> bit VERIFY_TAPROOT n)"
    unfolding script_verify_flags_def Let_def
    by (cases "ah_p2sh (activation_heights slot network) \<le> ht"; cases "ah_dersig (activation_heights slot network) \<le> ht";
        cases "ah_cltv (activation_heights slot network) \<le> ht"; cases "ah_csv (activation_heights slot network) \<le> ht";
        simp add: bit_or_iff; blast)
  then show ?thesis unfolding flag_bits Let_def by blast
qed

lemma script_verify_flags_mono: "ht \<le> ht' \<Longrightarrow> flags_le (script_verify_flags slot network ht) (script_verify_flags slot network ht')"
  unfolding flags_le_bit script_verify_flags_bit Let_def by (blast intro: order_trans)

lemma script_verify_flags_valid: "valid_flags (script_verify_flags slot network ht)"
  unfolding valid_flags_iff script_verify_flags_bit Let_def by auto

lemma script_verify_flags_coherent: "coherent_flags (script_verify_flags slot network ht)"
proof -
  have b: "has_flag f VERIFY_CLEANSTACK \<longleftrightarrow> bit f 8" "has_flag f VERIFY_WITNESS \<longleftrightarrow> bit f 11" "has_flag f VERIFY_P2SH \<longleftrightarrow> bit f 0" for f
    unfolding VERIFY_CLEANSTACK_def VERIFY_WITNESS_def VERIFY_P2SH_def by (rule has_flag_bit; simp)+
  show ?thesis
    unfolding coherent_flags_def b script_verify_flags_bit Let_def using activation_order(2) [of slot network] by auto
qed

lemma standard_flags_cover: "flags_le (script_verify_flags slot network ht) STANDARD_SCRIPT_VERIFY_FLAGS"
proof -
  have "bit STANDARD_SCRIPT_VERIFY_FLAGS n" if "n \<in> {0, 2, 4, 9, 10, 11, 17}" for n
    using that flag_bits [of n] unfolding STANDARD_SCRIPT_VERIFY_FLAGS_def bit_or_iff by blast
  then show ?thesis unfolding flags_le_bit script_verify_flags_bit Let_def by auto
qed

section \<open>Relaxing a whole transaction\<close>

lemma verify_transaction_relax:
  assumes "flags_le f g" "coherent_flags f" "verify_transaction C K tx prevs g = Ok ()"
  shows "verify_transaction C K tx prevs f = Ok ()"
proof -
  have g: "precheck (snd tx) prevs g = None"
    using assms(3) by (auto simp: verify_transaction_eq split: option.splits)
  have f: "precheck (snd tx) prevs f = None" by (rule precheck_relax [OF assms(1) g])
  have "input_verdict C K (snd tx) prevs g i = Ok ()" if "i < length prevs" for i
    using assms(3) that unfolding verify_transaction_eq g option.case first_failure_Ok by (simp add: map_err_eq)
  then have "input_verdict C K (snd tx) prevs f i = Ok ()" if "i < length prevs" for i
    using that unfolding input_verdict_def by (blast intro: verify_script_relax [OF assms(1,2)])
  then show ?thesis
    unfolding verify_transaction_eq f option.case first_failure_Ok by (simp add: map_err_eq)
qed

lemma RustVerifier_Ok:
  "fst (RustVerifier_verify_transaction C K slot network tx prevs ht c) = Ok () \<longleftrightarrow>
    verify_transaction C K tx prevs (script_verify_flags slot network ht) = Ok ()"
  by (cases "verify_transaction C K tx prevs (script_verify_flags slot network ht)")
    (simp_all add: RustVerifier_verify_transaction_def Let_def)

section \<open>Properties\<close>

text \<open>
  C5: Mempool policy is at least as strict as consensus: a transaction that passes the policy script
  check is accepted by the block verifier at every height of every network, whatever activation
  heights are overridden.
\<close>

theorem policy_implies_consensus:
  assumes "verify_policy_scripts C K tx prevs = Ok ()"
  shows "fst (RustVerifier_verify_transaction C K slot network tx prevs ht counter) = Ok ()"
proof -
  have "verify_transaction C K tx prevs STANDARD_SCRIPT_VERIFY_FLAGS = Ok ()"
    using assms by (simp add: verify_policy_scripts_def map_err_eq)
  then show ?thesis
    unfolding RustVerifier_Ok by (rule verify_transaction_relax [OF standard_flags_cover script_verify_flags_coherent])
qed

lemma sample_standard:
  "verify_transaction sample_crypto sample_codec (0, sample_tx) [\<lparr>out_value = 7, script_pubkey = [0x51]\<rparr>] STANDARD_SCRIPT_VERIFY_FLAGS = Ok ()"
proof -
  let ?prevs = "[\<lparr>out_value = 7, script_pubkey = [0x51]\<rparr>]" and ?f = STANDARD_SCRIPT_VERIFY_FLAGS
  have "precheck sample_tx ?prevs ?f = None"
    by (simp add: precheck_def sample_tx_def valid_flags_def ALL_FLAGS_def MAX_FLAGS_BIT_def STANDARD_SCRIPT_VERIFY_FLAGS_def flag_defs)
  moreover have "input_verdict sample_crypto sample_codec sample_tx ?prevs ?f 0 = Ok ()"
    by (simp add: input_verdict_def sample_tx_def verify_script_def exec_simps op_num_def flag_defs check_true_def
        check_clean_def verify_bare_witness_def is_witness_program_def is_p2sh_def serialize_i64_def abs_bytes_pos
        STANDARD_SCRIPT_VERIFY_FLAGS_def)
  ultimately show ?thesis by (simp add: verify_transaction_eq)
qed

theorem policy_implies_consensus_witness:
  "fst (RustVerifier_verify_transaction sample_crypto sample_codec None Bitcoin (0, sample_tx)
     [\<lparr>out_value = 7, script_pubkey = [0x51]\<rparr>] 800000 None) = Ok ()"
  by (rule policy_implies_consensus) (simp add: verify_policy_scripts_def sample_standard)

text \<open>
  C25: Script rules only tighten with height: a transaction the block verifier accepts at some height is
  accepted at every lower height of the same network.
\<close>

theorem rules_tighten_with_height:
  assumes "ht \<le> ht'" "fst (RustVerifier_verify_transaction C K slot network tx prevs ht' counter') = Ok ()"
  shows "fst (RustVerifier_verify_transaction C K slot network tx prevs ht counter) = Ok ()"
  using verify_transaction_relax [OF script_verify_flags_mono [OF assms(1)] script_verify_flags_coherent] assms(2)
  unfolding RustVerifier_Ok by blast

theorem rules_tighten_with_height_witness:
  "fst (RustVerifier_verify_transaction sample_crypto sample_codec None Bitcoin (0, sample_tx)
     [\<lparr>out_value = 7, script_pubkey = [0x51]\<rparr>] 1000 None) = Ok ()"
proof (rule rules_tighten_with_height [of _ 800000])
  show "fst (RustVerifier_verify_transaction sample_crypto sample_codec None Bitcoin (0, sample_tx)
     [\<lparr>out_value = 7, script_pubkey = [0x51]\<rparr>] 800000 None) = Ok ()"
    unfolding RustVerifier_Ok
    by (rule verify_transaction_relax [OF standard_flags_cover script_verify_flags_coherent sample_standard])
qed simp

end
