(* ===== verification/Merkle.thy ===== *)
theory Merkle
  imports Tx_Lib
begin

text \<open>
  Merkle trees over 32-byte hashes: the loops of \<open>node/src/validation/block.rs\<close> that compute a root and
  detect a malleated list.  The facts are the two sides of CVE-2012-2459: a list that repeats its tail
  has the root of the shorter one and is flagged, and lists that are not flagged are determined by
  their root, up to a collision of the hash.
\<close>

section \<open>Levels\<close>

definition pad_odd :: "'a list \<Rightarrow> 'a list" where
  "pad_odd current = (if even (length current) then current else current @ [last current])"

fun hash_pairs :: "tx_lib \<Rightarrow> bytes list \<Rightarrow> bytes list" where
  "hash_pairs L (a # b # rest) = sha256d L (a @ b) # hash_pairs L rest"
| "hash_pairs L _ = []"

lemma length_hash_pairs [simp]: "length (hash_pairs L xs) = length xs div 2"
  by (induction L xs rule: hash_pairs.induct) simp_all

lemma length_pad_odd [simp]: "length (pad_odd xs) = (if even (length xs) then length xs else Suc (length xs))"
  by (simp add: pad_odd_def)

function merkle_loop :: "tx_lib \<Rightarrow> bytes list \<Rightarrow> bytes list" where
  "merkle_loop L current = (if length current > 1 then merkle_loop L (hash_pairs L (pad_odd current)) else current)"
  by pat_completeness auto
termination
  by (relation "measure (\<lambda>(L, current). length current)") (auto elim!: oddE evenE)

declare merkle_loop.simps [simp del]

definition compute_merkle_root_from_hashes :: "tx_lib \<Rightarrow> bytes list \<Rightarrow> bytes" where
  "compute_merkle_root_from_hashes L hashes =
     (if hashes = [] then replicate 32 0 else merkle_loop L hashes ! 0)"

fun adjacent_equal :: "'a list \<Rightarrow> bool" where
  "adjacent_equal (a # b # rest) \<longleftrightarrow> a = b \<or> adjacent_equal rest"
| "adjacent_equal _ \<longleftrightarrow> False"

function merkle_tree_mutated :: "tx_lib \<Rightarrow> bytes list \<Rightarrow> bool" where
  "merkle_tree_mutated L current =
     (if length current > 1
      then adjacent_equal current \<or> merkle_tree_mutated L (hash_pairs L (pad_odd current))
      else False)"
  by pat_completeness auto
termination
  by (relation "measure (\<lambda>(L, current). length current)") (auto elim!: oddE evenE)

declare merkle_tree_mutated.simps [simp del]

text \<open>The root the \<open>bitcoin\<close> crate computes, all zero for no transactions.\<close>

definition merkle_root_of :: "tx_lib \<Rightarrow> bytes list \<Rightarrow> bytes" where
  "merkle_root_of L txids = (case calculate_root L txids of Some root \<Rightarrow> root | None \<Rightarrow> replicate 32 0)"

text \<open>What the crate documents: the merkle root of the hashes, none for an empty list.\<close>

definition root_is_merkle :: "tx_lib \<Rightarrow> bool" where
  "root_is_merkle L \<longleftrightarrow>
     (\<forall>hs. calculate_root L hs = (if hs = [] then None else Some (compute_merkle_root_from_hashes L hs)))"

lemma merkle_root_of_eq: "root_is_merkle L \<Longrightarrow> merkle_root_of L hs = compute_merkle_root_from_hashes L hs"
  by (auto simp: merkle_root_of_def root_is_merkle_def compute_merkle_root_from_hashes_def)

section \<open>Repeating the tail\<close>

lemma adjacent_equal_dup: "odd (length xs) \<Longrightarrow> adjacent_equal (xs @ [last xs])"
  by (induction xs rule: adjacent_equal.induct) auto

lemma merkle_loop_dup:
  assumes "odd (length xs)" "length xs > 1"
  shows "merkle_loop L (xs @ [last xs]) = merkle_loop L xs"
proof -
  have "xs \<noteq> []" using assms(2) by auto
  then show ?thesis
    using assms merkle_loop.simps [of L xs] merkle_loop.simps [of L "xs @ [last xs]"] by (simp add: pad_odd_def)
qed

section \<open>Uniqueness\<close>

text \<open>What is hashed on the way to the root, and two different inputs with the same hash among it.\<close>

fun pair_inputs :: "bytes list \<Rightarrow> bytes list" where
  "pair_inputs (a # b # rest) = (a @ b) # pair_inputs rest"
| "pair_inputs _ = []"

function merkle_inputs :: "tx_lib \<Rightarrow> bytes list \<Rightarrow> bytes list" where
  "merkle_inputs L current =
     (if length current > 1 then pair_inputs (pad_odd current) @ merkle_inputs L (hash_pairs L (pad_odd current)) else [])"
  by pat_completeness auto
termination
  by (relation "measure (\<lambda>(L, current). length current)") (auto elim!: oddE evenE)

declare merkle_inputs.simps [simp del]

definition clash :: "tx_lib \<Rightarrow> bytes list \<Rightarrow> bytes list \<Rightarrow> bool" where
  "clash L xs ys \<longleftrightarrow> (\<exists>a \<in> set xs. \<exists>b \<in> set ys. a \<noteq> b \<and> sha256d L a = sha256d L b)"

abbreviation collision :: "tx_lib \<Rightarrow> bytes list \<Rightarrow> bytes list \<Rightarrow> bool" where
  "collision L xs ys \<equiv> clash L (merkle_inputs L xs) (merkle_inputs L ys)"

lemma clash_append: "\<not> clash L (xs @ xs') (ys @ ys') \<Longrightarrow> \<not> clash L xs ys \<and> \<not> clash L xs' ys'"
  by (auto simp: clash_def)

abbreviation hashes32 :: "bytes list \<Rightarrow> bool" where
  "hashes32 xs \<equiv> \<forall>x \<in> set xs. length x = 32"

lemma hash_pairs_inj:
  "\<not> clash L (pair_inputs xs) (pair_inputs ys) \<Longrightarrow> hashes32 xs \<Longrightarrow> hashes32 ys \<Longrightarrow> even (length xs) \<Longrightarrow> even (length ys) \<Longrightarrow>
    hash_pairs L xs = hash_pairs L ys \<Longrightarrow> xs = ys"
proof (induction xs arbitrary: ys rule: induct_list012)
  case 1
  then show ?case by (cases "(L, ys)" rule: hash_pairs.cases) auto
next
  case (3 a b rest)
  from "3.prems" obtain c d rest' where ys: "ys = c # d # rest'"
    by (cases "(L, ys)" rule: hash_pairs.cases) auto
  have nc: "\<not> clash L [a @ b] [c @ d]" "\<not> clash L (pair_inputs rest) (pair_inputs rest')"
    using "3.prems"(1) ys clash_append [of L "[a @ b]" "pair_inputs rest" "[c @ d]" "pair_inputs rest'"] by simp_all
  have "sha256d L (a @ b) = sha256d L (c @ d)" using "3.prems" ys by simp
  then have "a @ b = c @ d" using nc(1) unfolding clash_def by auto
  then have "a = c" "b = d" using "3.prems"(2,3) ys by simp_all
  moreover have "rest = rest'" by (rule "3.IH"(1)) (use "3.prems" ys nc in simp_all)
  ultimately show ?case using ys by blast
qed auto

lemma hashes32_pad: "hashes32 xs \<Longrightarrow> xs \<noteq> [] \<Longrightarrow> hashes32 (pad_odd xs)"
  by (auto simp: pad_odd_def)

lemma hashes32_hash_pairs: "\<forall>x. length (sha256d L x) = 32 \<Longrightarrow> hashes32 (hash_pairs L xs)"
  by (induction L xs rule: hash_pairs.induct) auto

text \<open>A padded list with an equal last pair is not the list of even length that is not flagged.\<close>

lemma pad_odd_inj:
  assumes "pad_odd xs = pad_odd ys" "\<not> adjacent_equal xs" "\<not> adjacent_equal ys"
  shows "xs = ys"
  using assms adjacent_equal_dup [of xs] adjacent_equal_dup [of ys] by (auto simp: pad_odd_def split: if_splits)

text \<open>The number of levels above the leaves.\<close>

function levels :: "nat \<Rightarrow> nat" where
  "levels n = (if n > 1 then Suc (levels ((n + 1) div 2)) else 0)"
  by pat_completeness auto
termination
  by (relation "measure id") auto

declare levels.simps [simp del]

lemma half_up: "(if even n then n else Suc n) div 2 = (n + 1) div 2"
  by (auto elim!: oddE evenE)

lemma merkle_loop_unique:
  assumes L: "\<forall>x. length (sha256d L x) = 32"
  shows "\<not> collision L xs ys \<Longrightarrow> hashes32 xs \<Longrightarrow> hashes32 ys \<Longrightarrow> xs \<noteq> [] \<Longrightarrow> ys \<noteq> [] \<Longrightarrow> levels (length xs) = levels (length ys) \<Longrightarrow>
    \<not> merkle_tree_mutated L xs \<Longrightarrow> \<not> merkle_tree_mutated L ys \<Longrightarrow>
    merkle_loop L xs ! 0 = merkle_loop L ys ! 0 \<Longrightarrow> xs = ys"
proof (induction "length xs" arbitrary: xs ys rule: less_induct)
  case less
  show ?case
  proof (cases "length xs > 1")
    case True
    then have ys: "length ys > 1"
      using less.prems(6) levels.simps [of "length xs"] levels.simps [of "length ys"] by (simp split: if_splits)
    let ?xs = "hash_pairs L (pad_odd xs)" and ?ys = "hash_pairs L (pad_odd ys)"
    have mx: "\<not> adjacent_equal xs" "\<not> merkle_tree_mutated L ?xs" and my: "\<not> adjacent_equal ys" "\<not> merkle_tree_mutated L ?ys"
      using less.prems(7,8) True ys merkle_tree_mutated.simps [of L xs] merkle_tree_mutated.simps [of L ys] by simp_all
    have len: "length ?xs = (length xs + 1) div 2" "length ?ys = (length ys + 1) div 2"
      using half_up [of "length xs"] half_up [of "length ys"] by simp_all
    have nc: "\<not> clash L (pair_inputs (pad_odd xs)) (pair_inputs (pad_odd ys))" "\<not> collision L ?xs ?ys"
      using less.prems(1) True ys merkle_inputs.simps [of L xs] merkle_inputs.simps [of L ys]
        clash_append [of L "pair_inputs (pad_odd xs)" "merkle_inputs L ?xs" "pair_inputs (pad_odd ys)" "merkle_inputs L ?ys"]
      by simp_all
    have "?xs = ?ys"
    proof (rule less.hyps)
      show "\<not> collision L ?xs ?ys" by (rule nc(2))
      have "0 < length ?xs" "0 < length ?ys" "length ?xs < length xs" using True ys unfolding len by simp_all
      then show "length ?xs < length xs" "?xs \<noteq> []" "?ys \<noteq> []" by (simp_all only: length_greater_0_conv not_False_eq_True)
      show "hashes32 ?xs" "hashes32 ?ys" using hashes32_hash_pairs [OF L] by blast+
      show "levels (length ?xs) = levels (length ?ys)"
        using less.prems(6) True ys unfolding levels.simps [of "length xs"] levels.simps [of "length ys"] len by simp
      show "\<not> merkle_tree_mutated L ?xs" "\<not> merkle_tree_mutated L ?ys" using mx my by blast+
      show "merkle_loop L ?xs ! 0 = merkle_loop L ?ys ! 0"
        using less.prems(9) True ys merkle_loop.simps [of L xs] merkle_loop.simps [of L ys] by simp
    qed
    moreover have "hashes32 (pad_odd xs)" "hashes32 (pad_odd ys)" using hashes32_pad less.prems by blast+
    ultimately have "pad_odd xs = pad_odd ys" using hash_pairs_inj [OF nc(1)] by simp
    then show ?thesis using pad_odd_inj mx my by blast
  next
    case False
    then have "length xs = 1" using less.prems(4) by (cases xs) auto
    moreover have "length ys = 1"
      using less.prems(5,6) False levels.simps [of "length xs"] levels.simps [of "length ys"] by (cases ys) (auto split: if_splits)
    ultimately show ?thesis
      using less.prems(9) merkle_loop.simps [of L xs] merkle_loop.simps [of L ys] by (auto simp: length_Suc_conv)
  qed
qed

section \<open>Properties\<close>

text \<open>
  C26: A root determines the list behind it: two lists of 32-byte hashes with the same number of levels,
  neither flagged as mutated, that have the same root are equal, unless among what is hashed on the
  way to the two roots are two different inputs with the same double hash.
\<close>

theorem merkle_root_determines_list:
  assumes "\<forall>x. length (sha256d L x) = 32" "hashes32 xs" "hashes32 ys" "xs \<noteq> []" "ys \<noteq> []"
    and "levels (length xs) = levels (length ys)"
    and "\<not> merkle_tree_mutated L xs" "\<not> merkle_tree_mutated L ys"
    and "compute_merkle_root_from_hashes L xs = compute_merkle_root_from_hashes L ys"
  shows "xs = ys \<or> collision L xs ys"
  using merkle_loop_unique [of L xs ys] assms by (auto simp: compute_merkle_root_from_hashes_def)

theorem merkle_root_determines_list_witness:
  "[replicate 32 1, replicate 32 2, replicate 32 3] = [replicate 32 1, replicate 32 2, replicate 32 (3 :: byte)]
    \<or> collision (sample_lib\<lparr>sha256d := \<lambda>x. take 32 (x @ replicate 32 0)\<rparr>)
         [replicate 32 1, replicate 32 2, replicate 32 3] [replicate 32 1, replicate 32 2, replicate 32 3]"
  by (rule merkle_root_determines_list)
    (simp_all add: merkle_tree_mutated.simps pad_odd_def levels.simps min_def)

text \<open>
  The malleated copy of a block is caught: repeating the last hash of a list of odd length leaves
  the root as it is, and the longer list is flagged as mutated.
\<close>

theorem merkle_duplicate_detected:
  assumes "odd (length xs)" "length xs > 1"
  shows "compute_merkle_root_from_hashes L (xs @ [last xs]) = compute_merkle_root_from_hashes L xs
    \<and> merkle_tree_mutated L (xs @ [last xs])"
proof -
  have "xs \<noteq> []" using assms(2) by auto
  then show ?thesis
    using assms merkle_loop_dup [OF assms] adjacent_equal_dup [OF assms(1)]
    by (simp add: compute_merkle_root_from_hashes_def merkle_tree_mutated.simps [of L "xs @ [last xs]"])
qed

theorem merkle_duplicate_detected_witness:
  "compute_merkle_root_from_hashes sample_lib ([[1], [2], [3]] @ [last [[1], [2], [3]]])
      = compute_merkle_root_from_hashes sample_lib [[1], [2], [3]]
    \<and> merkle_tree_mutated sample_lib ([[1], [2], [3]] @ [last [[1], [2], [3]]])"
  by (rule merkle_duplicate_detected) simp_all

end
