(* ===== verification/Check_Block.thy ===== *)
theory Check_Block
  imports Merkle Sigops Check_Tx Activation
begin

text \<open>
  The block check and the mutation gate: \<open>node/src/validation/block.rs\<close>.  Sizes, weights and hashes of
  transactions come from the \<open>bitcoin\<close> crate; subtracting the total size from the weight panics when
  the difference would be negative.
\<close>

definition MAX_BLOCK_WEIGHT :: nat where "MAX_BLOCK_WEIGHT = 4000000"
definition MAX_BLOCK_SIGOPS_COST :: nat where "MAX_BLOCK_SIGOPS_COST = 80000"
definition WITNESS_SCALE_FACTOR :: nat where "WITNESS_SCALE_FACTOR = 4"
definition WITNESS_COMMITMENT_HEADER :: bytes where
  "WITNESS_COMMITMENT_HEADER = [0x6a, 0x24, 0xaa, 0x21, 0xa9, 0xed]"

section \<open>The height in the coinbase\<close>

definition to_le_bytes :: "u32 \<Rightarrow> bytes" where
  "to_le_bytes w = [ucast w, ucast (drop_bit 8 w), ucast (drop_bit 16 w), ucast (drop_bit 24 w)]"

definition bip34_height_prefix :: "u32 \<Rightarrow> bytes" where
  "bip34_height_prefix h =
     (if h = 0 then [0x00]
      else if h \<le> 16 then [0x50 + ucast h]
      else
        let num = rev (dropWhile (\<lambda>b. b = 0) (rev (to_le_bytes h)));
            num = (if num \<noteq> [] \<and> last num AND 0x80 \<noteq> 0 then num @ [0x00] else num)
        in of_nat (length num) # num)"

section \<open>Witness rules\<close>

definition is_commitment :: "TxOut \<Rightarrow> bool" where
  "is_commitment out \<longleftrightarrow> length (script_pubkey out) \<ge> 38 \<and> take 6 (script_pubkey out) = WITNESS_COMMITMENT_HEADER"

definition has_witness_commitment_output :: "Block \<Rightarrow> bool" where
  "has_witness_commitment_output block = (case txdata block of
       [] \<Rightarrow> False
     | coinbase # _ \<Rightarrow> list_ex is_commitment (tx_output coinbase))"

text \<open>The hashes of the transactions after the coinbase, from index \<open>i\<close> on.\<close>

primrec later_wtxids :: "tx_lib \<Rightarrow> bytes list option \<Rightarrow> nat \<Rightarrow> Transaction list \<Rightarrow> bytes list validation" where
  "later_wtxids L wtxids i [] = Ok []"
| "later_wtxids L wtxids i (tx # txs) =
     rbind (case wtxids of Some w \<Rightarrow> index w i | None \<Rightarrow> Ok (compute_wtxid L tx)) (\<lambda>wtxid.
     rbind (later_wtxids L wtxids (Suc i) txs) (\<lambda>rest. Ok (wtxid # rest)))"

definition verify_witness_commitment :: "tx_lib \<Rightarrow> Block \<Rightarrow> bytes list option \<Rightarrow> bytes \<Rightarrow> unit validation" where
  "verify_witness_commitment L block wtxids witness_nonce =
     rbind (index (txdata block) 0) (\<lambda>coinbase.
       case List.find is_commitment (rev (tx_output coinbase)) of
         None \<Rightarrow> Err BadWitnessCommitment
       | Some out \<Rightarrow>
         let expected_commitment = subslice (script_pubkey out) 6 38 in
         rbind (later_wtxids L wtxids 1 (tl (txdata block))) (\<lambda>later.
           let witness_root = compute_merkle_root_from_hashes L (replicate 32 0 # later);
               computed = sha256d L (witness_root @ witness_nonce)
           in if computed \<noteq> expected_commitment then Err BadWitnessCommitment else Ok ()))"

definition has_witness :: "Block \<Rightarrow> bool" where
  "has_witness block \<longleftrightarrow> (\<exists>tx \<in> set (txdata block). \<exists>input \<in> set (tx_input tx). witness input \<noteq> [])"

definition coinbase_nonce :: "Block \<Rightarrow> bytes validation" where
  "coinbase_nonce block =
     rbind (index (txdata block) 0) (\<lambda>coinbase. case tx_input coinbase of
         [] \<Rightarrow> Err BadWitnessNonceSize
       | input # _ \<Rightarrow> (case witness input of
           [item] \<Rightarrow> if length item = 32 then Ok item else Err BadWitnessNonceSize
         | _ \<Rightarrow> Err BadWitnessNonceSize))"

definition check_witness_rules :: "tx_lib \<Rightarrow> Block \<Rightarrow> bytes list option \<Rightarrow> bool \<Rightarrow> unit validation" where
  "check_witness_rules L block wtxids segwit_active =
     rbind (if segwit_active \<and> has_witness_commitment_output block
            then rbind (coinbase_nonce block) (\<lambda>nonce.
              rbind (verify_witness_commitment L block wtxids nonce) (\<lambda>_. Ok True))
            else Ok False) (\<lambda>commits_to_witnesses.
       if \<not> commits_to_witnesses \<and> has_witness block then Err UnexpectedWitness else Ok ())"

section \<open>Blocks\<close>

definition segwit_active_at :: "TestActivationOverrides option \<Rightarrow> Network \<Rightarrow> nat \<Rightarrow> bool" where
  "segwit_active_at slot network ht \<longleftrightarrow> ht \<ge> ah_segwit (activation_heights slot network)"

definition legacy_sigops :: "Block \<Rightarrow> nat" where
  "legacy_sigops block = foldl (\<lambda>n tx. min (n + legacy_sigop_count tx) u64_max) 0 (txdata block)"

definition check_block_with_hashes ::
  "tx_lib \<Rightarrow> TestActivationOverrides option \<Rightarrow> Block \<Rightarrow> bytes list \<Rightarrow> bytes list option \<Rightarrow> Network \<Rightarrow> nat \<Rightarrow> unit validation" where
  "check_block_with_hashes L slot block txids wtxids network ht =
     (if length txids \<noteq> length (txdata block)
        \<or> (case wtxids of Some w \<Rightarrow> length w \<noteq> length (txdata block) | None \<Rightarrow> False) then Err BadMerkleRoot
      else if merkle_root_of L txids \<noteq> merkle_root (header block) then Err BadMerkleRoot
      else if merkle_tree_mutated L txids then Err BadTxDuplicate
      else if txdata block = [] then Err EmptyBlock
      else let weight = block_weight L block in
        if weight < block_total_size L block then Panic
        else let stripped = (weight - block_total_size L block) div 3 in
          if length (txdata block) * WITNESS_SCALE_FACTOR > MAX_BLOCK_WEIGHT
            \<or> stripped * WITNESS_SCALE_FACTOR > MAX_BLOCK_WEIGHT then Err OversizedBlock
          else if \<not> is_coinbase L (txdata block ! 0) then Err NoCoinbase
          else if \<exists>tx \<in> set (tl (txdata block)). is_coinbase L tx then Err MultipleCoinbase
          else if saturating_mul (legacy_sigops block) WITNESS_SCALE_FACTOR > MAX_BLOCK_SIGOPS_COST then Err BadBlockSigops
          else rbind (check_witness_rules L block wtxids (segwit_active_at slot network ht)) (\<lambda>_.
            if weight > MAX_BLOCK_WEIGHT then Err OverweightBlock else Ok ()))"

definition check_block :: "tx_lib \<Rightarrow> TestActivationOverrides option \<Rightarrow> Block \<Rightarrow> Network \<Rightarrow> nat \<Rightarrow> unit validation" where
  "check_block L slot block network ht =
     (let txids = map (compute_txid L) (txdata block) in check_block_with_hashes L slot block txids None network ht)"

definition is_block_mutated :: "tx_lib \<Rightarrow> Block \<Rightarrow> bool \<Rightarrow> bool validation" where
  "is_block_mutated L block check_witness_root =
     (let txids = map (compute_txid L) (txdata block) in
      if merkle_root_of L txids \<noteq> merkle_root (header block) then Ok True
      else if merkle_tree_mutated L txids then Ok True
      else if txdata block = [] \<or> \<not> is_coinbase L (txdata block ! 0)
      then Ok (\<exists>tx \<in> set (txdata block). base_size L tx = 64)
      else case check_witness_rules L block None check_witness_root of
        Ok _ \<Rightarrow> Ok False
      | Err e \<Rightarrow> Ok True
      | Panic \<Rightarrow> Panic)"

end
