(* ===== verification/Check_Block_Facts.thy ===== *)
theory Check_Block_Facts
  imports Check_Block Templates
begin

text \<open>
  What an accepted block guarantees, how the consensus check and the mutation gate of the peer-to-peer
  layer agree, and that the height prefix of a coinbase is the script push of the height.
\<close>

section \<open>Witness rules\<close>

lemma later_wtxids_None: "later_wtxids L None i txs = Ok (map (compute_wtxid L) txs)"
  by (induction txs arbitrary: i) simp_all

lemma later_wtxids_Some: "w = pre @ map (compute_wtxid L) txs \<Longrightarrow> length pre = i \<Longrightarrow> later_wtxids L (Some w) i txs = Ok (map (compute_wtxid L) txs)"
proof (induction txs arbitrary: i pre)
  case (Cons tx txs)
  then have "later_wtxids L (Some w) (Suc i) txs = Ok (map (compute_wtxid L) txs)"
    by (intro Cons.IH [of "pre @ [compute_wtxid L tx]"]) simp_all
  moreover have "i < length w" "w ! i = compute_wtxid L tx" using Cons.prems by (auto simp: nth_append)
  ultimately show ?case by (simp add: index_def)
qed simp

lemma verify_witness_commitment_supplied:
  "verify_witness_commitment L block (Some (map (compute_wtxid L) (txdata block))) nonce
    = verify_witness_commitment L block None nonce"
proof (cases "txdata block")
  case (Cons tx txs)
  have "later_wtxids L (Some (map (compute_wtxid L) (txdata block))) 1 txs = Ok (map (compute_wtxid L) txs)"
    by (rule later_wtxids_Some [of _ "[compute_wtxid L tx]"]) (simp_all add: Cons)
  then show ?thesis
    unfolding verify_witness_commitment_def Cons list.sel later_wtxids_None
    by (simp add: index_def split: option.split)
qed (simp add: verify_witness_commitment_def index_def)

lemma check_witness_rules_supplied:
  "check_witness_rules L block (Some (map (compute_wtxid L) (txdata block))) active
    = check_witness_rules L block None active"
  by (simp add: check_witness_rules_def verify_witness_commitment_supplied)

lemma check_witness_rules_errors: "check_witness_rules L block None active = Err e \<Longrightarrow> is_mutation_class e"
  by (cases "txdata block")
    (auto simp: check_witness_rules_def coinbase_nonce_def verify_witness_commitment_def later_wtxids_None
      is_mutation_class_def index_def Let_def has_witness_commitment_output_def rbind_def
      split: if_splits list.splits option.splits result.splits)

lemma check_witness_rules_no_panic: "no_panic (check_witness_rules L block None active)"
  by (cases "txdata block")
    (auto simp: check_witness_rules_def coinbase_nonce_def verify_witness_commitment_def later_wtxids_None
      index_def Let_def has_witness_commitment_output_def intro!: no_panic_rbind split: list.split option.split)

section \<open>Accepted blocks\<close>


lemma check_block_OkD:
  assumes "check_block L slot block network ht = Ok ()"
  shows "merkle_root_of L (map (compute_txid L) (txdata block)) = merkle_root (header block)"
    "\<not> merkle_tree_mutated L (map (compute_txid L) (txdata block))" "txdata block \<noteq> []"
    "is_coinbase L (txdata block ! 0)" "\<forall>tx \<in> set (tl (txdata block)). \<not> is_coinbase L tx"
    "saturating_mul (legacy_sigops block) WITNESS_SCALE_FACTOR \<le> MAX_BLOCK_SIGOPS_COST"
    "check_witness_rules L block None (segwit_active_at slot network ht) = Ok ()"
    "block_weight L block \<le> MAX_BLOCK_WEIGHT"
  using assms
  by (auto simp: check_block_def check_block_with_hashes_def Let_def rbind_eq_Ok not_less split: if_splits)

lemma check_block_mutation:
  assumes "check_block L slot block network ht = Err e" "is_mutation_class e"
  shows "merkle_root_of L (map (compute_txid L) (txdata block)) \<noteq> merkle_root (header block)
    \<or> merkle_tree_mutated L (map (compute_txid L) (txdata block))
    \<or> txdata block \<noteq> [] \<and> is_coinbase L (txdata block ! 0)
      \<and> check_witness_rules L block None (segwit_active_at slot network ht) = Err e"
proof -
  have "\<not> is_mutation_class e'" if "e' \<in> {EmptyBlock, OversizedBlock, NoCoinbase, MultipleCoinbase, BadBlockSigops, OverweightBlock}" for e'
    using that by (auto simp: is_mutation_class_def)
  then show ?thesis
    using assms unfolding check_block_def check_block_with_hashes_def Let_def
    by (cases "check_witness_rules L block None (segwit_active_at slot network ht)") (auto split: if_splits)
qed

section \<open>The height prefix\<close>

lemma le_nat_zeros_end: "le_nat (xs @ replicate k 0) = le_nat xs"
proof -
  have "le_nat (replicate k 0) = 0" by (induction k) simp_all
  then show ?thesis by (simp add: le_nat_append)
qed

lemma radix_256:
  fixes n :: nat
  assumes "256 * a3 + r2 = a2" "256 * a2 + r1 = a1" "256 * a1 + r0 = n"
  shows "r0 + 256 * (r1 + 256 * (r2 + 256 * (a3 + 256 * 0))) = n"
  using assms by simp

lemma le_nat_to_le_bytes: "le_nat (to_le_bytes h) = unat h"
proof -
  have d: "unat (drop_bit k h) = unat h div 2 ^ k" for k
    by (simp only: unat_drop_bit_eq drop_bit_eq_div [where ?'a = nat])
  have b: "unat (ucast w :: byte) = unat w mod 256" for w :: u32
    by (simp add: unsigned_ucast_eq take_bit_eq_mod)
  let ?n = "unat h"
  have "?n < 2 ^ 32" using unsigned_less [of h, where ?'a = nat] by simp
  then have c: "?n div 256 div 256 div 256 mod 256 = ?n div 256 div 256 div 256" by (simp add: div_mult2_eq [symmetric])
  have q: "?n div 2 ^ 8 = ?n div 256" "?n div 2 ^ 16 = ?n div 256 div 256" "?n div 2 ^ 24 = ?n div 256 div 256 div 256"
    by (simp_all add: div_mult2_eq [symmetric])
  have "256 * (?n div 256 div 256 div 256) + ?n div 256 div 256 mod 256 = ?n div 256 div 256"
    "256 * (?n div 256 div 256) + ?n div 256 mod 256 = ?n div 256" "256 * (?n div 256) + ?n mod 256 = ?n"
    by (rule mult_div_mod_eq)+
  then show ?thesis
    unfolding to_le_bytes_def le_nat.simps b d q c by (rule radix_256)
qed

text \<open>The bytes of a height without its leading zeros: the number is kept and the last byte is not zero.\<close>

definition strip_zeros :: "bytes \<Rightarrow> bytes" where
  "strip_zeros xs = rev (dropWhile (\<lambda>b. b = 0) (rev xs))"

lemma strip_zeros_facts:
  "le_nat (strip_zeros xs) = le_nat xs" "strip_zeros xs \<noteq> [] \<Longrightarrow> last (strip_zeros xs) \<noteq> 0" "length (strip_zeros xs) \<le> length xs"
proof -
  let ?t = "takeWhile (\<lambda>b. b = 0) (rev xs)"
  have "?t = replicate (length ?t) 0" by (rule replicate_length_same [symmetric]) (auto dest: set_takeWhileD)
  then have "rev ?t = replicate (length ?t) 0" by (metis rev_replicate)
  moreover have x: "xs = strip_zeros xs @ rev ?t"
    unfolding strip_zeros_def by (metis rev_append rev_rev_ident takeWhile_dropWhile_id)
  ultimately show "le_nat (strip_zeros xs) = le_nat xs" by (metis le_nat_zeros_end)
  show "strip_zeros xs \<noteq> [] \<Longrightarrow> last (strip_zeros xs) \<noteq> 0"
    using hd_dropWhile [of "\<lambda>b. b = 0" "rev xs"] by (simp add: strip_zeros_def last_rev)
  show "length (strip_zeros xs) \<le> length xs" using x by (metis le_add1 length_append)
qed

lemma height_digits:
  assumes "16 < h"
  defines "d \<equiv> (let num = strip_zeros (to_le_bytes h) in
      if num \<noteq> [] \<and> last num AND 0x80 \<noteq> 0 then num @ [0x00] else num)"
  shows "d = serialize_i64 (uint h)" "d \<noteq> []" "length d \<le> 5"
proof -
  let ?num = "strip_zeros (to_le_bytes h)"
  have v: "le_nat ?num = unat h" by (simp add: strip_zeros_facts(1) le_nat_to_le_bytes)
  have "0 < unat h" using assms(1) by (simp add: word_less_nat_alt)
  then have ne: "?num \<noteq> []" using v by (metis le_nat.simps(1) less_numeral_extra(3))
  then obtain xs b where n: "?num = xs @ [b]" by (metis rev_exhaust)
  have b: "unat b \<noteq> 0" using strip_zeros_facts(2) [OF ne] n by (simp add: unat_eq_0)
  have l: "length ?num \<le> 4" using strip_zeros_facts(3) [of "to_le_bytes h"] by (simp add: to_le_bytes_def)
  have u: "int (unat h) = uint h" by simp
  show "d \<noteq> []" "length d \<le> 5" using ne l by (auto simp: d_def Let_def)
  have "sm_value d = uint h \<and> minimal_num d"
  proof (cases "128 \<le> unat b")
    case True
    then have "d = (xs @ [b]) @ [0]" using byte_and_80 [of b] n by (simp add: d_def)
    then show ?thesis using True v n u
      by (simp add: sm_value_def sm_mag_def minimal_num_def nth_append butlast_append)
  next
    case False
    then have "d = xs @ [b]" using byte_and_80 [of b] n by (simp add: d_def)
    moreover have "unat b mod 128 = unat b" using False by simp
    ultimately show ?thesis using False v n u b
      by (simp add: sm_value_def sm_mag_snoc minimal_num_def le_nat_append)
  qed
  then show "d = serialize_i64 (uint h)" using serialize_sm_value [of d] \<open>length d \<le> 5\<close> by simp
qed

lemma bip34_large: "16 < h \<Longrightarrow> bip34_height_prefix h = of_nat (length (serialize_i64 (uint h))) # serialize_i64 (uint h)"
  using height_digits [of h] by (auto simp: bip34_height_prefix_def strip_zeros_def Let_def)

text \<open>Running a direct push of a minimal element.\<close>

lemma eval_direct_push:
  assumes "data \<noteq> []" "length data \<le> 75" "check_minimal_push data (of_nat (length data))"
  shows "\<exists>ed'. eval_script C [] (of_nat (length data) # data) f chk Base ed = Ok ([data], ed')"
proof -
  let ?s = "of_nat (length data) # data"
  have b: "build_single_push data = ?s" using assms(2) by (simp add: build_single_push_def)
  have oc: "(of_nat (length data) :: byte) \<le> 75" using of_nat_byte_cases [OF assms(2)] by simp
  have r: "read_instruction ?s 0 = Some (of_nat (length data), data, Suc (length data))"
    using read_build_single_push [of data "[]"] assms(2) b by simp
  let ?cx = "\<lparr>cx_crypto = C, cx_script = ?s, cx_flags = f, cx_checker = chk, cx_sig_version = Base\<rparr>"
  let ?st = "(eval_init [] ed)\<lparr>st_pc := Suc (length data), st_n_op_count := 0, st_stack := [data], st_opcode_pos := 1\<rparr>"
  have le: "of_nat (length data) \<le> OP_PUSHDATA4" "\<not> OP_16 < of_nat (length data)"
    using oc by (auto simp: op_defs word_le_nat_alt word_less_nat_alt)
  have ops: "\<not> is_disabled (of_nat (length data))" "of_nat (length data) \<noteq> OP_CODESEPARATOR"
    using oc by (auto simp: is_disabled_def op_defs)
  have small: "\<not> MAX_SCRIPT_ELEMENT_SIZE < length data" "\<not> MAX_SCRIPT_SIZE < length ?s"
    using assms(2) by (simp_all add: limit_defs)
  have step: "eval_step ?cx (eval_init [] ed) = Ok ?st"
    using r le ops small(1) assms(3)
    by (simp add: eval_step_def eval_init_def exec_instruction_def Let_def cs_new_def all_true_def MAX_STACK_SIZE_def
        checked_u32_add_def u32_max_def ok_or_def)
  have "eval_loop ?cx (eval_init [] ed) = rbind (eval_step ?cx (eval_init [] ed)) (eval_loop ?cx)"
    by (subst eval_loop.simps) (simp add: eval_init_def)
  also have "\<dots> = eval_loop ?cx ?st" unfolding step by simp
  also have "\<dots> = Ok ?st" by (subst eval_loop.simps) simp
  finally have "eval_loop ?cx (eval_init [] ed) = Ok ?st" .
  then show ?thesis
    using small(2) by (simp add: eval_script_def eval_init_def cs_new_def cs_is_empty_def)
qed

lemma bip34_minimal:
  fixes h :: u32
  assumes "16 < h"
  shows "check_minimal_push (serialize_i64 (uint h)) (of_nat (length (serialize_i64 (uint h))))"
proof -
  let ?d = "serialize_i64 (uint h)"
  have d: "?d \<noteq> []" "length ?d \<le> 5" using height_digits [of h] assms by simp_all
  have "in_i64 x" if "0 \<le> x" "x < 2 ^ 32" for x using that by (simp add: in_i64_def)
  then have "in_i64 (uint h)" using uint_lt2p [of h] by simp
  then have v: "sm_value ?d = uint h" by (rule sm_value_serialize)
  have "\<not> (length ?d = 1 \<and> (?d ! 0 \<le> 16 \<or> ?d ! 0 = 0x81))"
  proof
    assume a: "length ?d = 1 \<and> (?d ! 0 \<le> 16 \<or> ?d ! 0 = 0x81)"
    then obtain x where x: "?d = [x]" by (auto simp: length_Suc_conv)
    then have "sm_value [x] \<le> 16" using a by (auto simp: sm_value_def sm_mag_def word_le_def)
    then show False using v x assms by (simp add: word_less_def)
  qed
  then show ?thesis using d by (auto simp: check_minimal_push_def)
qed

lemma small_height_cases: "(h :: u32) \<noteq> 0 \<Longrightarrow> h \<le> 16 \<Longrightarrow> h \<in> {1, 2, 3, 4, 5, 6, 7, 8, 9, 10, 11, 12, 13, 14, 15, 16}"
proof -
  assume a: "h \<noteq> 0" "h \<le> 16"
  then have "unat h \<noteq> 0" "unat h \<le> 16" by (simp_all add: unat_eq_0 word_le_nat_alt)
  moreover have "n \<in> {1, 2, 3, 4, 5, 6, 7, 8, 9, 10, 11, 12, 13, 14, 15, 16}" if "n \<noteq> 0" "n \<le> 16" for n :: nat
    using that unfolding insert_iff empty_iff by presburger
  ultimately have "unat h \<in> {1, 2, 3, 4, 5, 6, 7, 8, 9, 10, 11, 12, 13, 14, 15, 16}" by blast
  moreover have "h = of_nat (unat h)" by simp
  ultimately show ?thesis by (metis (no_types, lifting) insert_iff empty_iff of_nat_1 of_nat_numeral)
qed

lemma eval_small_height:
  assumes "h \<noteq> 0" "h \<le> 16"
  shows "\<exists>ed'. eval_script C [] [0x50 + ucast (h :: u32)] f chk Base ed = Ok ([serialize_i64 (uint h)], ed')"
  using small_height_cases [OF assms]
  by (elim insertE emptyE) (simp_all add: exec_simps op_num_def)

section \<open>Properties\<close>


definition sample_block :: Block where
  "sample_block = \<lparr>
     header = \<lparr>hdr_version = 1, prev_blockhash = [], merkle_root = replicate 32 0, hdr_time = 0, bits = 0, hdr_nonce = 0\<rparr>,
     txdata = [\<lparr>version = 1, lock_time = 0,
       tx_input = [\<lparr>previous_output = \<lparr>txid = [], vout = 0\<rparr>, script_sig = [1, 1], sequence = 0, witness = []\<rparr>],
       tx_output = []\<rparr>]\<rparr>"

text \<open>An instance whose crate root is the merkle root.\<close>

definition merkle_lib :: tx_lib where
  "merkle_lib = sample_lib\<lparr>calculate_root :=
     \<lambda>hs. if hs = [] then None else Some (compute_merkle_root_from_hashes sample_lib hs)\<rparr>"

lemma merkle_loop_cong:
  assumes "sha256d L = sha256d L'"
  shows "merkle_loop L xs = merkle_loop L' xs"
proof (induction "length xs" arbitrary: xs rule: less_induct)
  case less
  have "hash_pairs L ys = hash_pairs L' ys" for ys
    by (induction ys rule: induct_list012) (simp_all add: assms)
  moreover have "length (hash_pairs L' (pad_odd xs)) < length xs" if "length xs > 1"
    using that by (auto elim!: oddE evenE)
  ultimately show ?case using less merkle_loop.simps [of L xs] merkle_loop.simps [of L' xs] by simp
qed

lemma merkle_lib_root: "root_is_merkle merkle_lib"
proof -
  have "merkle_loop merkle_lib xs = merkle_loop sample_lib xs" for xs
    by (rule merkle_loop_cong) (simp add: merkle_lib_def)
  then show ?thesis
    by (simp add: root_is_merkle_def compute_merkle_root_from_hashes_def)
      (simp add: merkle_lib_def compute_merkle_root_from_hashes_def)
qed

lemma sample_block_accepted: "check_block merkle_lib None sample_block Bitcoin 100 = Ok ()"
  by (simp add: merkle_lib_def compute_merkle_root_from_hashes_def merkle_loop.simps check_block_def check_block_with_hashes_def sample_block_def sample_lib_def merkle_root_of_def
      merkle_tree_mutated.simps legacy_sigops_def legacy_sigop_count_def script_sigop_count_def sigop_count_from.simps
      get_op_def get_data_def op_defs saturating_mul_def check_witness_rules_def has_witness_def segwit_active_at_def
      activation_heights_def base_heights_def MAX_BLOCK_WEIGHT_def MAX_BLOCK_SIGOPS_COST_def WITNESS_SCALE_FACTOR_def
      u64_max_def Let_def)


text \<open>
  C6: The consensus check and the mutation gate agree: a block the check accepts is not reported as
  mutated at the same height, and a block it rejects for a reason that another block with the same
  hash might not share is reported as mutated.
\<close>

theorem mutation_gate_agrees:
  "(check_block L slot block network ht = Ok ()
      \<longrightarrow> is_block_mutated L block (segwit_active_at slot network ht) = Ok False)
   \<and> (\<forall>e. check_block L slot block network ht = Err e \<and> is_mutation_class e
      \<longrightarrow> is_block_mutated L block (segwit_active_at slot network ht) = Ok True)"
proof (intro conjI impI allI)
  assume "check_block L slot block network ht = Ok ()"
  note ok = check_block_OkD [OF this]
  show "is_block_mutated L block (segwit_active_at slot network ht) = Ok False"
    using ok(1-4,7) by (simp add: is_block_mutated_def Let_def)
next
  fix e assume "check_block L slot block network ht = Err e \<and> is_mutation_class e"
  then show "is_block_mutated L block (segwit_active_at slot network ht) = Ok True"
    using check_block_mutation [of L slot block network ht e] by (auto simp: is_block_mutated_def Let_def)
qed

theorem mutation_gate_agrees_witness:
  "is_block_mutated merkle_lib sample_block (segwit_active_at None Bitcoin 100) = Ok False
   \<and> is_block_mutated merkle_lib (sample_block\<lparr>header := (header sample_block)\<lparr>merkle_root := []\<rparr>\<rparr>) False = Ok True"
proof -
  let ?bad = "sample_block\<lparr>header := (header sample_block)\<lparr>merkle_root := []\<rparr>\<rparr>"
  have off: "segwit_active_at None Bitcoin 100 = False"
    by (simp add: segwit_active_at_def activation_heights_def base_heights_def)
  have "check_block merkle_lib None ?bad Bitcoin 100 = Err BadMerkleRoot"
    by (simp add: check_block_def check_block_with_hashes_def sample_block_def merkle_lib_def sample_lib_def
        merkle_root_of_def compute_merkle_root_from_hashes_def merkle_loop.simps)
  then show ?thesis
    using mutation_gate_agrees [of merkle_lib None sample_block Bitcoin 100] sample_block_accepted
      mutation_gate_agrees [of merkle_lib None ?bad Bitcoin 100]
    unfolding off by (simp add: is_mutation_class_def)
qed

text \<open>
  C24: The height prefix of a coinbase is the script that pushes the height: run on an empty stack, under
  any flags, it leaves exactly the script number of the height.
\<close>

theorem bip34_prefix_pushes_height:
  "\<exists>ed'. eval_script C [] (bip34_height_prefix h) f chk Base ed = Ok ([serialize_i64 (uint h)], ed')"
proof -
  consider "h = 0" | "h \<noteq> 0" "h \<le> 16" | "16 < h" by fastforce
  then show ?thesis
  proof cases
    case 1
    then show ?thesis by (simp add: bip34_height_prefix_def exec_simps serialize_i64_def check_minimal_push_def)
  next
    case 2
    then show ?thesis using eval_small_height [OF 2] by (simp add: bip34_height_prefix_def)
  next
    case 3
    have "serialize_i64 (uint h) \<noteq> []" "length (serialize_i64 (uint h)) \<le> 75"
      using height_digits [of h] 3 by simp_all
    then show ?thesis using eval_direct_push [OF _ _ bip34_minimal [OF 3]] by (simp add: bip34_large [OF 3])
  qed
qed

text \<open>
  Checking a block with the hashes its caller already has is the check that computes them, when the
  caller's hashes are those of the block.
\<close>

theorem check_block_with_own_hashes:
  "check_block_with_hashes L slot block (map (compute_txid L) (txdata block))
     (Some (map (compute_wtxid L) (txdata block))) network ht = check_block L slot block network ht"
  unfolding check_block_def check_block_with_hashes_def check_witness_rules_supplied Let_def by simp

text \<open>
  C7: A header fixes the transactions of an accepted block: two accepted blocks with the same merkle root
  and merkle trees of the same depth have the same transaction ids in the same order, unless among what is
  hashed for the two roots are two different inputs with the same hash.
\<close>

theorem header_determines_txids:
  assumes "root_is_merkle L" "\<forall>x. length (sha256d L x) = 32" "\<forall>tx. length (compute_txid L tx) = 32"
    "check_block L slot a network ht = Ok ()" "check_block L slot' b network' ht' = Ok ()"
    "merkle_root (header a) = merkle_root (header b)" "levels (length (txdata a)) = levels (length (txdata b))"
  shows "map (compute_txid L) (txdata a) = map (compute_txid L) (txdata b)
    \<or> collision L (map (compute_txid L) (txdata a)) (map (compute_txid L) (txdata b))"
proof (rule disjCI)
  assume c: "\<not> collision L (map (compute_txid L) (txdata a)) (map (compute_txid L) (txdata b))"
  let ?a = "map (compute_txid L) (txdata a)" and ?b = "map (compute_txid L) (txdata b)"
  note oa = check_block_OkD [OF assms(4)] and ob = check_block_OkD [OF assms(5)]
  have "merkle_loop L ?a ! 0 = merkle_loop L ?b ! 0"
    using oa(1,3) ob(1,3) assms(6) by (simp add: merkle_root_of_eq [OF assms(1)] compute_merkle_root_from_hashes_def)
  then show "?a = ?b"
    using oa(2,3) ob(2,3) assms(3,7) by - (rule merkle_loop_unique [OF assms(2) c], auto)
qed

theorem header_determines_txids_witness:
  "map (compute_txid merkle_lib) (txdata sample_block) = map (compute_txid merkle_lib) (txdata sample_block)
    \<or> collision merkle_lib (map (compute_txid merkle_lib) (txdata sample_block)) (map (compute_txid merkle_lib) (txdata sample_block))"
  by (rule header_determines_txids [OF merkle_lib_root _ _ sample_block_accepted sample_block_accepted])
    (simp_all add: merkle_lib_def sample_lib_def)

end
