(* ===== verification/Versionbits.thy ===== *)
theory Versionbits
  imports Pow
begin

text \<open>
  BIP 9 deployment states and the monitor for unknown version bits: \<open>node/src/validation/versionbits.rs\<close>.
  The block index is a function from hashes to headers, and every walk over parent links that an
  arbitrary index could keep from ending is a partial function, whose value is then \<open>None\<close>.
\<close>

section \<open>Running computations\<close>

text \<open>A computation that may not end, or may panic.\<close>

type_synonym 'a run = "(unit, 'a) result option"

definition run_bind :: "'a run \<Rightarrow> ('a \<Rightarrow> 'b run) \<Rightarrow> 'b run" where
  "run_bind m f = (case m of
       None \<Rightarrow> None
     | Some r \<Rightarrow> (case r of Ok x \<Rightarrow> f x | Err e \<Rightarrow> Some (Err e) | Panic \<Rightarrow> Some Panic))"

abbreviation done_with :: "'a \<Rightarrow> 'a run" where "done_with x \<equiv> Some (Ok x)"

lemma run_bind_simps [simp]:
  "run_bind None f = None" "run_bind (Some (Ok x)) f = f x" "run_bind (Some Panic) f = Some Panic"
  "run_bind (Some (Err e)) f = Some (Err e)"
  by (simp_all add: run_bind_def)

section \<open>Deployments\<close>

definition ALWAYS_ACTIVE :: int where "ALWAYS_ACTIVE = - 1"
definition NEVER_ACTIVE :: int where "NEVER_ACTIVE = - 2"
definition NO_TIMEOUT :: int where "NO_TIMEOUT = 2 ^ 63 - 1"
definition VERSIONBITS_TOP_MASK :: u32 where "VERSIONBITS_TOP_MASK = 0xE0000000"
definition VERSIONBITS_TOP_BITS :: u32 where "VERSIONBITS_TOP_BITS = 0x20000000"
definition VERSIONBITS_NUM_BITS :: nat where "VERSIONBITS_NUM_BITS = 29"

record Bip9Deployment =
  dep_bit :: nat
  dep_start_time :: int
  dep_timeout :: int
  dep_min_activation_height :: nat
  dep_threshold :: nat
  dep_period :: nat

definition testdummy_deployment :: "Network \<Rightarrow> Bip9Deployment" where
  "testdummy_deployment network = (case network of
       Regtest \<Rightarrow> \<lparr>dep_bit = 28, dep_start_time = 0, dep_timeout = NO_TIMEOUT, dep_min_activation_height = 0,
                   dep_threshold = 108, dep_period = 144\<rparr>
     | Bitcoin \<Rightarrow> \<lparr>dep_bit = 28, dep_start_time = NEVER_ACTIVE, dep_timeout = NO_TIMEOUT, dep_min_activation_height = 0,
                   dep_threshold = 1815, dep_period = 2016\<rparr>
     | Signet \<Rightarrow> \<lparr>dep_bit = 28, dep_start_time = NEVER_ACTIVE, dep_timeout = NO_TIMEOUT, dep_min_activation_height = 0,
                  dep_threshold = 1815, dep_period = 2016\<rparr>
     | _ \<Rightarrow> \<lparr>dep_bit = 28, dep_start_time = NEVER_ACTIVE, dep_timeout = NO_TIMEOUT, dep_min_activation_height = 0,
             dep_threshold = 1512, dep_period = 2016\<rparr>)"

definition taproot_deployment :: "Network \<Rightarrow> Bip9Deployment" where
  "taproot_deployment network = (case network of
       Bitcoin \<Rightarrow> \<lparr>dep_bit = 2, dep_start_time = 1619222400, dep_timeout = 1628640000,
                   dep_min_activation_height = 709632, dep_threshold = 1815, dep_period = 2016\<rparr>
     | Testnet \<Rightarrow> \<lparr>dep_bit = 2, dep_start_time = 1619222400, dep_timeout = 1628640000,
                   dep_min_activation_height = 0, dep_threshold = 1512, dep_period = 2016\<rparr>
     | Regtest \<Rightarrow> \<lparr>dep_bit = 2, dep_start_time = ALWAYS_ACTIVE, dep_timeout = NO_TIMEOUT,
                   dep_min_activation_height = 0, dep_threshold = 108, dep_period = 144\<rparr>
     | Signet \<Rightarrow> \<lparr>dep_bit = 2, dep_start_time = ALWAYS_ACTIVE, dep_timeout = NO_TIMEOUT,
                  dep_min_activation_height = 0, dep_threshold = 1815, dep_period = 2016\<rparr>
     | Testnet4 \<Rightarrow> \<lparr>dep_bit = 2, dep_start_time = ALWAYS_ACTIVE, dep_timeout = NO_TIMEOUT,
                    dep_min_activation_height = 0, dep_threshold = 1512, dep_period = 2016\<rparr>)"

datatype ThresholdState = Defined | Started | LockedIn | Active | Failed

primrec ThresholdState_as_str :: "ThresholdState \<Rightarrow> string" where
  "ThresholdState_as_str Defined = ''defined''"
| "ThresholdState_as_str Started = ''started''"
| "ThresholdState_as_str LockedIn = ''locked_in''"
| "ThresholdState_as_str Active = ''active''"
| "ThresholdState_as_str Failed = ''failed''"

record Bip9Stats =
  st_period :: nat
  st_threshold :: nat
  st_elapsed :: nat
  st_count :: nat
  st_possible :: bool

record Bip9Info =
  current_state :: ThresholdState
  next_state :: ThresholdState
  since :: nat
  stats :: "Bip9Stats option"
  signalling :: "string option"
  active_since :: "nat option"

text \<open>The override slot of the test deployment is an argument, and can be filled once.\<close>

definition set_testdummy_override ::
  "Bip9Deployment \<Rightarrow> Bip9Deployment option \<Rightarrow> (string, unit) result \<times> Bip9Deployment option" where
  "set_testdummy_override dep slot = (case slot of
       None \<Rightarrow> (Ok (), Some dep)
     | Some old \<Rightarrow> (Err ''vbparams override already set'', Some old))"

definition testdummy_deployment_configured :: "Bip9Deployment option \<Rightarrow> Network \<Rightarrow> Bip9Deployment" where
  "testdummy_deployment_configured slot network =
     (case slot of
        Some o' \<Rightarrow> if network = Regtest then o' else testdummy_deployment network
      | None \<Rightarrow> testdummy_deployment network)"

section \<open>The block view\<close>

record HeaderInfo =
  hi_prev :: bytes
  hi_height :: nat
  hi_version :: u32
  hi_time :: u32

type_synonym block_view = "bytes \<Rightarrow> HeaderInfo option"

text \<open>The view of the chain state: its block index.\<close>

definition index_view :: "block_lookup \<Rightarrow> block_view" where
  "index_view get hash = map_option (\<lambda>entry. \<lparr>hi_prev = prev_blockhash (bi_header entry), hi_height = height entry,
     hi_version = hdr_version (bi_header entry), hi_time = hdr_time (bi_header entry)\<rparr>) (get hash)"

partial_function (option) ancestor_walk ::
  "block_view \<Rightarrow> nat \<Rightarrow> bytes \<Rightarrow> HeaderInfo \<Rightarrow> (bytes \<times> HeaderInfo) option option" where
  "ancestor_walk view ht cur_hash cur =
     (if hi_height cur > ht then
        case view (hi_prev cur) of
          None \<Rightarrow> Some None
        | Some c \<Rightarrow> ancestor_walk view ht (hi_prev cur) c
      else Some (Some (cur_hash, cur)))"

definition ancestor :: "block_view \<Rightarrow> bytes \<Rightarrow> nat \<Rightarrow> (bytes \<times> HeaderInfo) option option" where
  "ancestor view hash ht = (case view hash of
       None \<Rightarrow> Some None
     | Some cur \<Rightarrow> if ht > hi_height cur then Some None else ancestor_walk view ht hash cur)"

text \<open>The timestamps of up to \<open>n\<close> blocks.\<close>

primrec time_walk :: "block_view \<Rightarrow> nat \<Rightarrow> bytes \<Rightarrow> u32 list" where
  "time_walk view 0 cur_hash = []"
| "time_walk view (Suc n) cur_hash = (case view cur_hash of
       None \<Rightarrow> []
     | Some info \<Rightarrow> hi_time info # (if hi_height info = 0 then [] else time_walk view n (hi_prev info)))"

definition median_time_past :: "block_view \<Rightarrow> bytes \<Rightarrow> u32 option" where
  "median_time_past view hash =
     (let times = time_walk view 11 hash in
      if times = [] then None else let times = sort times in Some (times ! (length times div 2)))"

definition signals :: "u32 \<Rightarrow> nat \<Rightarrow> (unit, bool) result" where
  "signals ver bit' =
     (if ver AND VERSIONBITS_TOP_MASK \<noteq> VERSIONBITS_TOP_BITS then Ok False
      else if bit' \<ge> 32 then Panic
      else Ok (ver AND push_bit bit' 1 \<noteq> 0))"

section \<open>States\<close>

primrec count_signals :: "block_view \<Rightarrow> nat \<Rightarrow> nat \<Rightarrow> bytes \<Rightarrow> (unit, nat) result" where
  "count_signals view bit' 0 cur_hash = Ok 0"
| "count_signals view bit' (Suc n) cur_hash = (case view cur_hash of
       None \<Rightarrow> Ok 0
     | Some cur \<Rightarrow> rbind (signals (hi_version cur) bit') (\<lambda>s.
         if hi_height cur = 0 then Ok (of_bool s)
         else rbind (count_signals view bit' n (hi_prev cur)) (\<lambda>c. Ok (of_bool s + c))))"

text \<open>The state after the period that ends in the block.\<close>

definition advance ::
  "block_view \<Rightarrow> Bip9Deployment \<Rightarrow> nat \<Rightarrow> bytes \<Rightarrow> HeaderInfo \<Rightarrow> ThresholdState \<Rightarrow> (unit, ThresholdState) result" where
  "advance view dep period hash info state =
     (let mtp = (case median_time_past view hash of Some t \<Rightarrow> uint t | None \<Rightarrow> 0) in
      case state of
        Defined \<Rightarrow> Ok (if mtp \<ge> dep_start_time dep then Started else Defined)
      | Started \<Rightarrow> rbind (count_signals view (dep_bit dep) period hash) (\<lambda>count.
          Ok (if count \<ge> dep_threshold dep then LockedIn
              else if mtp \<ge> dep_timeout dep then Failed
              else Started))
      | LockedIn \<Rightarrow> rbind (checked_u32_add (hi_height info) 1) (\<lambda>next.
          Ok (if next \<ge> dep_min_activation_height dep then Active else LockedIn))
      | terminal \<Rightarrow> Ok terminal)"

text \<open>
  The walk back by periods, with the boundaries to compute on a stack, and the walk forward that pops
  them.
\<close>

partial_function (option) state_back ::
  "block_view \<Rightarrow> Bip9Deployment \<Rightarrow> nat \<Rightarrow> bytes option \<Rightarrow> bytes list \<Rightarrow> bytes list option" where
  "state_back view dep period cursor to_compute = (case cursor of
       None \<Rightarrow> Some to_compute
     | Some hash \<Rightarrow> (case view hash of
         None \<Rightarrow> Some to_compute
       | Some info \<Rightarrow> (case median_time_past view hash of
           None \<Rightarrow> Some to_compute
         | Some mtp \<Rightarrow>
           if uint mtp < dep_start_time dep then Some to_compute
           else if hi_height info < period then state_back view dep period None (hash # to_compute)
           else Option.bind (ancestor view hash (hi_height info - period)) (\<lambda>a.
             state_back view dep period (map_option fst a) (hash # to_compute)))))"

primrec state_forward ::
  "block_view \<Rightarrow> Bip9Deployment \<Rightarrow> nat \<Rightarrow> bytes list \<Rightarrow> ThresholdState \<Rightarrow> (unit, ThresholdState) result" where
  "state_forward view dep period [] state = Ok state"
| "state_forward view dep period (hash # rest) state = (case view hash of
       None \<Rightarrow> Ok state
     | Some info \<Rightarrow> rbind (advance view dep period hash info state) (state_forward view dep period rest))"

definition state_at_boundary :: "block_view \<Rightarrow> Bip9Deployment \<Rightarrow> nat \<Rightarrow> bytes option \<Rightarrow> ThresholdState run" where
  "state_at_boundary view dep period cursor =
     Option.bind (state_back view dep period cursor []) (\<lambda>to_compute. Some (state_forward view dep period to_compute Defined))"

definition state_for :: "block_view \<Rightarrow> bytes option \<Rightarrow> Bip9Deployment \<Rightarrow> ThresholdState run" where
  "state_for view prev dep =
     (if dep_start_time dep = ALWAYS_ACTIVE then done_with Active
      else if dep_start_time dep = NEVER_ACTIVE then done_with Failed
      else let period = max (dep_period dep) 1 in
        case prev of
          None \<Rightarrow> state_at_boundary view dep period None
        | Some h \<Rightarrow> (case view h of
            None \<Rightarrow> done_with Defined
          | Some info \<Rightarrow>
            if hi_height info + 1 > u32_max then Some Panic
            else let back = (hi_height info + 1) mod period in
              if hi_height info < back then state_at_boundary view dep period None
              else Option.bind (ancestor view h (hi_height info - back)) (\<lambda>a.
                state_at_boundary view dep period (map_option fst a))))"

partial_function (option) since_loop ::
  "block_view \<Rightarrow> Bip9Deployment \<Rightarrow> nat \<Rightarrow> ThresholdState \<Rightarrow> bytes \<Rightarrow> HeaderInfo \<Rightarrow> nat run" where
  "since_loop view dep period initial aligned aligned_info =
     (if hi_height aligned_info < period then Some (checked_u32_add (hi_height aligned_info) 1)
      else Option.bind (ancestor view aligned (hi_height aligned_info - period)) (\<lambda>a. case a of
          None \<Rightarrow> Some (checked_u32_add (hi_height aligned_info) 1)
        | Some oi \<Rightarrow> Option.bind (state_for view (Some (fst oi)) dep) (\<lambda>r. case r of
            Ok s \<Rightarrow> if s \<noteq> initial then Some (checked_u32_add (hi_height aligned_info) 1)
                    else since_loop view dep period initial (fst oi) (snd oi)
          | Err e \<Rightarrow> Some (Err e)
          | Panic \<Rightarrow> Some Panic)))"

definition state_since_height :: "block_view \<Rightarrow> bytes option \<Rightarrow> Bip9Deployment \<Rightarrow> nat run" where
  "state_since_height view prev dep =
     (if dep_start_time dep = ALWAYS_ACTIVE \<or> dep_start_time dep = NEVER_ACTIVE then done_with 0
      else run_bind (state_for view prev dep) (\<lambda>initial.
        if initial = Defined then done_with 0
        else let period = max (dep_period dep) 1 in
          case prev of
            None \<Rightarrow> done_with 0
          | Some prev_hash \<Rightarrow> (case view prev_hash of
              None \<Rightarrow> done_with 0
            | Some info \<Rightarrow>
              if hi_height info + 1 > u32_max then Some Panic
              else let back = (hi_height info + 1) mod period in
                if hi_height info < back then done_with 0
                else Option.bind (ancestor view prev_hash (hi_height info - back)) (\<lambda>a. case a of
                    None \<Rightarrow> done_with 0
                  | Some (aligned, aligned_info) \<Rightarrow> since_loop view dep period initial aligned aligned_info))))"

text \<open>The tally of the period: \<open>n\<close> is \<open>blocks_in_period\<close>.\<close>

primrec stat_walk ::
  "block_view \<Rightarrow> nat \<Rightarrow> nat \<Rightarrow> bytes \<Rightarrow> nat \<Rightarrow> nat \<Rightarrow> bool list \<Rightarrow> (unit, nat \<times> nat \<times> bool list) result" where
  "stat_walk view bit' 0 cur_hash elapsed count sigs = Ok (elapsed, count, sigs)"
| "stat_walk view bit' (Suc n) cur_hash elapsed count sigs = (case view cur_hash of
       None \<Rightarrow> Ok (elapsed, count, sigs)
     | Some cur \<Rightarrow> rbind (signals (hi_version cur) bit') (\<lambda>s.
         let elapsed = elapsed + 1;
             count = (if s then count + 1 else count);
             sigs = (if s then sigs[n := True] else sigs)
         in if n = 0 \<or> hi_height cur = 0 then Ok (elapsed, count, sigs)
            else stat_walk view bit' n (hi_prev cur) elapsed count sigs))"

definition state_statistics :: "block_view \<Rightarrow> bytes \<Rightarrow> Bip9Deployment \<Rightarrow> (unit, Bip9Stats \<times> string) result" where
  "state_statistics view hash dep =
     (let period = max (dep_period dep) 1;
          s = \<lparr>st_period = period, st_threshold = dep_threshold dep, st_elapsed = 0, st_count = 0, st_possible = True\<rparr>
      in case view hash of
        None \<Rightarrow> Ok (s, [])
      | Some info \<Rightarrow>
        let blocks_in_period = 1 + hi_height info mod period in
        rbind (stat_walk view (dep_bit dep) blocks_in_period hash 0 0 (replicate blocks_in_period False))
          (\<lambda>(elapsed, count, sigs).
            if period < dep_threshold dep \<or> elapsed < count then Panic
            else Ok (s\<lparr>st_elapsed := elapsed, st_count := count,
                       st_possible := (period - dep_threshold dep \<ge> elapsed - count)\<rparr>,
                     map (\<lambda>b. if b then CHR ''#'' else CHR ''-'') sigs)))"

definition info :: "block_view \<Rightarrow> bytes \<Rightarrow> Bip9Deployment \<Rightarrow> Bip9Info run" where
  "info view hash dep =
     (let block = view hash;
          prev = Option.bind block (\<lambda>b. if hi_height b = 0 then None else Some (hi_prev b)) in
      run_bind (state_for view prev dep) (\<lambda>current.
      run_bind (state_for view (Some hash) dep) (\<lambda>next.
      run_bind (state_since_height view prev dep) (\<lambda>since_height.
      run_bind (if current = Started \<or> current = LockedIn
                then Some (rbind (state_statistics view hash dep) (\<lambda>(s, text).
                  Ok (Some (if current = LockedIn then s\<lparr>st_threshold := 0, st_possible := False\<rparr> else s), Some text)))
                else done_with (None, None)) (\<lambda>(tally, text).
      run_bind (if current = Active then done_with (Some since_height)
                else if next = Active then (case block of
                    None \<Rightarrow> done_with None
                  | Some b \<Rightarrow> Some (rbind (checked_u32_add (hi_height b) 1) (\<lambda>h. Ok (Some h))))
                else done_with None) (\<lambda>active.
        done_with \<lparr>current_state = current, next_state = next, since = since_height, stats = tally,
                   signalling = text, active_since = active\<rparr>))))))"

section \<open>Unknown version bits\<close>

record UnknownBitsParams =
  ub_period :: nat
  ub_threshold :: nat
  ub_min_height :: nat

definition UnknownBitsParams_for_network :: "Network \<Rightarrow> UnknownBitsParams" where
  "UnknownBitsParams_for_network network = (case network of
       Bitcoin \<Rightarrow> \<lparr>ub_period = 2016, ub_threshold = 1815, ub_min_height = 711648\<rparr>
     | Testnet \<Rightarrow> \<lparr>ub_period = 2016, ub_threshold = 1512, ub_min_height = 2013984\<rparr>
     | Regtest \<Rightarrow> \<lparr>ub_period = 144, ub_threshold = 108, ub_min_height = 0\<rparr>
     | _ \<Rightarrow> \<lparr>ub_period = 2016, ub_threshold = 1512, ub_min_height = 0\<rparr>)"

type_synonym bits_cache = "bytes \<rightharpoonup> ThresholdState list"

text \<open>The mask of the known deployment in the window of a block, looked up or computed.\<close>

definition expected_mask ::
  "block_view \<Rightarrow> Bip9Deployment \<Rightarrow> HeaderInfo \<Rightarrow> (nat \<rightharpoonup> u32) \<Rightarrow> (u32 \<times> (nat \<rightharpoonup> u32)) run" where
  "expected_mask view known cur expected =
     (let window = hi_height cur div max (dep_period known) 1 in
      case expected window of
        Some msk \<Rightarrow> done_with (msk, expected)
      | None \<Rightarrow>
        run_bind (state_for view (if hi_height cur > 0 then Some (hi_prev cur) else None) known) (\<lambda>s.
          if s = Started \<or> s = LockedIn then
            if dep_bit known \<ge> 32 then Some Panic
            else done_with (push_bit (dep_bit known) 1, expected(window \<mapsto> push_bit (dep_bit known) 1))
          else done_with (0, expected(window \<mapsto> 0))))"

definition tally_bits :: "u32 \<Rightarrow> u32 \<Rightarrow> nat list \<Rightarrow> nat list" where
  "tally_bits ver msk counts =
     map (\<lambda>(bit', count). if ver AND push_bit bit' 1 \<noteq> 0 \<and> msk AND push_bit bit' 1 = 0 then count + 1 else count)
       (enumerate 0 counts)"

primrec count_walk ::
  "block_view \<Rightarrow> Bip9Deployment \<Rightarrow> nat \<Rightarrow> nat \<Rightarrow> HeaderInfo \<Rightarrow> nat list \<Rightarrow> (nat \<rightharpoonup> u32) \<Rightarrow> nat list run" where
  "count_walk view known min_height 0 cur counts expected = done_with counts"
| "count_walk view known min_height (Suc n) cur counts expected =
     run_bind (if hi_height cur \<ge> min_height \<and> hi_version cur AND VERSIONBITS_TOP_MASK = VERSIONBITS_TOP_BITS
               then run_bind (expected_mask view known cur expected) (\<lambda>(msk, expected).
                 done_with (tally_bits (hi_version cur) msk counts, expected))
               else done_with (counts, expected)) (\<lambda>(counts, expected).
       if hi_height cur = 0 then done_with counts
       else case view (hi_prev cur) of
         None \<Rightarrow> done_with counts
       | Some next \<Rightarrow> count_walk view known min_height n next counts expected)"

definition count_period :: "block_view \<Rightarrow> HeaderInfo \<Rightarrow> nat \<Rightarrow> nat \<Rightarrow> Bip9Deployment \<Rightarrow> nat list run" where
  "count_period view end_info period min_height known =
     count_walk view known min_height period end_info (replicate VERSIONBITS_NUM_BITS 0) Map.empty"

partial_function (option) unknown_back ::
  "block_view \<Rightarrow> bits_cache \<Rightarrow> nat \<Rightarrow> bytes \<times> HeaderInfo \<Rightarrow> (bytes \<times> HeaderInfo) list
     \<Rightarrow> (ThresholdState list \<times> (bytes \<times> HeaderInfo) list) option" where
  "unknown_back view cache period cursor to_compute = (case cache (fst cursor) of
       Some s \<Rightarrow> Some (s, to_compute)
     | None \<Rightarrow>
       if hi_height (snd cursor) < period then Some (replicate VERSIONBITS_NUM_BITS Defined, cursor # to_compute)
       else Option.bind (ancestor view (fst cursor) (hi_height (snd cursor) - period)) (\<lambda>a. case a of
           Some older \<Rightarrow> unknown_back view cache period older (cursor # to_compute)
         | None \<Rightarrow> Some (replicate VERSIONBITS_NUM_BITS Defined, cursor # to_compute)))"

definition advance_bits :: "nat \<Rightarrow> nat list \<Rightarrow> ThresholdState list \<Rightarrow> ThresholdState list" where
  "advance_bits threshold counts states =
     map2 (\<lambda>count state. case state of
         Defined \<Rightarrow> Started
       | Started \<Rightarrow> if count \<ge> threshold then LockedIn else Started
       | LockedIn \<Rightarrow> Active
       | other \<Rightarrow> other) counts states"

text \<open>A panic ends the thread, so the cache it leaves is not returned.\<close>

primrec unknown_forward ::
  "block_view \<Rightarrow> UnknownBitsParams \<Rightarrow> Bip9Deployment \<Rightarrow> nat \<Rightarrow> (bytes \<times> HeaderInfo) list \<Rightarrow> ThresholdState list
     \<Rightarrow> bits_cache \<Rightarrow> (ThresholdState list \<times> bits_cache) run" where
  "unknown_forward view params known period [] states cache = done_with (states, cache)"
| "unknown_forward view params known period (e # rest) states cache =
     run_bind (count_period view (snd e) period (ub_min_height params) known) (\<lambda>counts.
       let states = advance_bits (ub_threshold params) counts states
       in unknown_forward view params known period rest states (cache(fst e \<mapsto> states)))"

definition states_after ::
  "block_view \<Rightarrow> bytes \<Rightarrow> UnknownBitsParams \<Rightarrow> Bip9Deployment \<Rightarrow> bits_cache \<Rightarrow> (ThresholdState list \<times> bits_cache) run" where
  "states_after view tip params known cache =
     (let period = max (ub_period params) 1;
          undef = replicate VERSIONBITS_NUM_BITS Defined in
      case view tip of
        None \<Rightarrow> done_with (undef, cache)
      | Some i \<Rightarrow>
        if hi_height i + 1 > u32_max then Some Panic
        else let back = (hi_height i + 1) mod period in
          if hi_height i < back then done_with (undef, cache)
          else Option.bind (ancestor view tip (hi_height i - back)) (\<lambda>a. case a of
              None \<Rightarrow> done_with (undef, cache)
            | Some cursor \<Rightarrow> Option.bind (unknown_back view cache period cursor []) (\<lambda>(states, to_compute).
                unknown_forward view params known period to_compute states cache)))"

definition UnknownBitsMonitor_check ::
  "block_view \<Rightarrow> bytes \<Rightarrow> UnknownBitsParams \<Rightarrow> Bip9Deployment \<Rightarrow> bits_cache \<Rightarrow> ((nat \<times> bool) list \<times> bits_cache) run" where
  "UnknownBitsMonitor_check view tip params known cache =
     run_bind (states_after view tip params known cache) (\<lambda>(states, cache).
       done_with (List.map_filter (\<lambda>(bit', state). case state of
           Active \<Rightarrow> Some (bit', True)
         | LockedIn \<Rightarrow> Some (bit', False)
         | _ \<Rightarrow> None) (enumerate 0 states), cache))"

end
