(* ===== verification/Versionbits_Facts.thy ===== *)
theory Versionbits_Facts
  imports Versionbits Pow_Facts
begin

text \<open>
  The deployment states against BIP 9: on an index whose parent links are whole and whose timestamps
  passed the timestamp rule, the bounded walk computes the state the recursion over periods gives;
  states only move along the arrows of the diagram.
\<close>

section \<open>Branches\<close>

definition linked :: "block_view \<Rightarrow> bool" where
  "linked view \<longleftrightarrow> (\<forall>h i. view h = Some i \<longrightarrow> hi_height i < u32_max
     \<and> (hi_height i \<noteq> 0 \<longrightarrow> (\<exists>p. view (hi_prev i) = Some p \<and> Suc (hi_height p) = hi_height i)))"

text \<open>The block \<open>k\<close> generations up, and the block at a height of the branch that ends in \<open>h\<close>.\<close>

primrec up :: "block_view \<Rightarrow> nat \<Rightarrow> bytes \<Rightarrow> bytes" where
  "up view 0 h = h"
| "up view (Suc k) h = up view k (hi_prev (the (view h)))"

definition branch :: "block_view \<Rightarrow> bytes \<Rightarrow> nat \<Rightarrow> bytes" where
  "branch view h n = up view (hi_height (the (view h)) - n) h"

abbreviation block_at :: "block_view \<Rightarrow> bytes \<Rightarrow> nat \<Rightarrow> HeaderInfo" where
  "block_at view h n \<equiv> the (view (branch view h n))"

lemma up_up: "up view j (up view k h) = up view (k + j) h"
  by (induction k arbitrary: h) simp_all

lemma linkedD:
  assumes "linked view" "view h = Some i"
  shows "hi_height i < u32_max" "hi_height i \<noteq> 0 \<Longrightarrow> \<exists>p. view (hi_prev i) = Some p \<and> Suc (hi_height p) = hi_height i"
  using assms unfolding linked_def by blast+

lemma up_view:
  assumes "linked view"
  shows "view h = Some i \<Longrightarrow> k \<le> hi_height i \<Longrightarrow> \<exists>j. view (up view k h) = Some j \<and> hi_height j = hi_height i - k"
proof (induction k arbitrary: h i)
  case (Suc k)
  then obtain p where p: "view (hi_prev i) = Some p" "Suc (hi_height p) = hi_height i"
    using linkedD(2) [OF assms Suc.prems(1)] by auto
  then have "\<exists>j. view (up view k (hi_prev i)) = Some j \<and> hi_height j = hi_height p - k"
    using Suc.prems(2) by (intro Suc.IH) simp_all
  then show ?case using Suc.prems p(2) by auto
qed simp

lemma branch_view:
  assumes "linked view" "view h = Some i" "n \<le> hi_height i"
  obtains j where "view (branch view h n) = Some j" "hi_height j = n"
  using up_view [OF assms(1,2), of "hi_height i - n"] assms(2,3) by (auto simp: branch_def)

lemma branch_self: "view h = Some i \<Longrightarrow> branch view h (hi_height i) = h"
  by (simp add: branch_def)

lemma branch_branch:
  assumes "linked view" "view h = Some i" "n \<le> hi_height i" "m \<le> n"
  shows "branch view (branch view h n) m = branch view h m"
  by (rule branch_view [OF assms(1,2,3)]) (use assms in \<open>simp add: branch_def up_up\<close>)

lemma branch_prev:
  assumes "linked view" "view h = Some i" "Suc n \<le> hi_height i"
  shows "hi_prev (block_at view h (Suc n)) = branch view h n"
proof -
  have "branch view h n = up view 1 (branch view h (Suc n))"
    using assms by (simp add: branch_def up_up Suc_diff_Suc)
  then show ?thesis by simp
qed

lemma ancestor_walk_up:
  assumes "linked view"
  shows "view h = Some i \<Longrightarrow> n \<le> hi_height i \<Longrightarrow>
    ancestor_walk view n h i = Some (Some (up view (hi_height i - n) h, the (view (up view (hi_height i - n) h))))"
proof (induction "hi_height i - n" arbitrary: h i)
  case 0
  then show ?case by (simp add: ancestor_walk.simps [of view n h i])
next
  case (Suc k)
  have "hi_height i \<noteq> 0" using Suc.hyps(2) by simp
  then obtain p where p: "view (hi_prev i) = Some p" "Suc (hi_height p) = hi_height i"
    using linkedD(2) [OF assms Suc.prems(1)] by blast
  then have "ancestor_walk view n (hi_prev i) p
      = Some (Some (up view (hi_height p - n) (hi_prev i), the (view (up view (hi_height p - n) (hi_prev i)))))"
    using Suc.hyps(2) by (intro Suc.hyps(1)) simp_all
  moreover have "hi_height i - n = Suc (hi_height p - n)" "n < hi_height i" using p(2) Suc.hyps(2) by simp_all
  ultimately show ?case using Suc.prems(1) p(1) by (simp add: ancestor_walk.simps [of view n h i])
qed

lemma ancestor_branch:
  assumes "linked view" "view h = Some i" "n \<le> hi_height i"
  shows "ancestor view h n = Some (Some (branch view h n, block_at view h n))"
  using ancestor_walk_up [OF assms] assms by (simp add: ancestor_def branch_def)

lemma median_time_past_Some: "view h = Some i \<Longrightarrow> \<exists>t. median_time_past view h = Some t"
  by (simp add: median_time_past_def numeral_eq_Suc)

section \<open>The recursion of BIP 9\<close>

definition signalling_block :: "nat \<Rightarrow> HeaderInfo \<Rightarrow> bool" where
  "signalling_block k i \<longleftrightarrow> hi_version i AND VERSIONBITS_TOP_MASK = VERSIONBITS_TOP_BITS \<and> bit (hi_version i) k"

definition signal_count :: "block_view \<Rightarrow> nat \<Rightarrow> bytes \<Rightarrow> nat \<Rightarrow> nat \<Rightarrow> nat" where
  "signal_count view k h a b = card {n \<in> {a..<b}. signalling_block k (block_at view h n)}"

definition bip9_next :: "Bip9Deployment \<Rightarrow> u32 \<Rightarrow> nat \<Rightarrow> nat \<Rightarrow> ThresholdState \<Rightarrow> ThresholdState" where
  "bip9_next dep mtp count next_height s = (case s of
       Defined \<Rightarrow> if dep_start_time dep \<le> uint mtp then Started else Defined
     | Started \<Rightarrow> if dep_threshold dep \<le> count then LockedIn else if dep_timeout dep \<le> uint mtp then Failed else Started
     | LockedIn \<Rightarrow> if dep_min_activation_height dep \<le> next_height then Active else LockedIn
     | Active \<Rightarrow> Active
     | Failed \<Rightarrow> Failed)"

text \<open>The state of the blocks of period \<open>k\<close> on the branch that ends in \<open>h\<close>, for periods of \<open>P\<close> blocks.\<close>

primrec bip9_state :: "block_view \<Rightarrow> Bip9Deployment \<Rightarrow> nat \<Rightarrow> bytes \<Rightarrow> nat \<Rightarrow> ThresholdState" where
  "bip9_state view dep P h 0 = Defined"
| "bip9_state view dep P h (Suc k) =
     bip9_next dep (the (median_time_past view (branch view h (P * Suc k - 1))))
       (signal_count view (dep_bit dep) h (P * k) (P * Suc k)) (P * Suc k) (bip9_state view dep P h k)"

lemma signals_Ok: "k < 32 \<Longrightarrow> signals v k = Ok (v AND VERSIONBITS_TOP_MASK = VERSIONBITS_TOP_BITS \<and> bit v k)"
proof -
  assume k: "k < 32"
  have "v AND push_bit k 1 \<noteq> 0 \<longleftrightarrow> bit v k"
    using k by (auto simp: bit_eq_iff [where ?'a = "32 word"] bit_and_iff bit_push_bit_iff bit_1_iff bit_exp_iff)
  then show ?thesis using k by (simp add: signals_def)
qed

lemma count_signals_walk:
  assumes "linked view" "view h = Some i" "k < 32"
  shows "m \<le> hi_height i \<Longrightarrow> n \<le> Suc m \<Longrightarrow>
    count_signals view k n (branch view h m) = Ok (signal_count view k h (Suc m - n) (Suc m))"
proof (induction n arbitrary: m)
  case (Suc n)
  obtain j where v: "view (branch view h m) = Some j" "hi_height j = m" by (rule branch_view [OF assms(1,2) Suc.prems(1)])
  let ?s = "signalling_block k (block_at view h m)"
  have split: "signal_count view k h a (Suc m) = of_bool ?s + signal_count view k h a m" if "a \<le> m" for a
  proof -
    have "{n \<in> {a..<Suc m}. signalling_block k (block_at view h n)}
        = (if ?s then {m} else {}) \<union> {n \<in> {a..<m}. signalling_block k (block_at view h n)}"
      using that by (auto simp: less_Suc_eq)
    then show ?thesis by (simp add: signal_count_def)
  qed
  have s: "signals (hi_version (block_at view h m)) k = Ok ?s"
    by (simp add: signals_Ok [OF assms(3)] signalling_block_def)
  show ?case
  proof (cases m)
    case 0
    then show ?thesis using v s split [of 0] by (simp add: signal_count_def)
  next
    case (Suc m')
    then have "count_signals view k n (branch view h m') = Ok (signal_count view k h (Suc m' - n) (Suc m'))"
      using Suc.prems by (intro Suc.IH) simp_all
    moreover have "hi_prev (block_at view h m) = branch view h m'"
      using branch_prev [OF assms(1,2)] Suc Suc.prems(1) by simp
    ultimately show ?thesis using v s split [of "m - n"] Suc Suc.prems by simp
  qed
qed (simp add: signal_count_def)

section \<open>Walking back and forward\<close>

lemma advance_next:
  assumes "linked view" "view h = Some i" "dep_bit dep < 32" "0 < P" "P * Suc k \<le> Suc (hi_height i)"
  shows "advance view dep P (branch view h (P * Suc k - 1)) (block_at view h (P * Suc k - 1)) s
    = Ok (bip9_next dep (the (median_time_past view (branch view h (P * Suc k - 1))))
       (signal_count view (dep_bit dep) h (P * k) (P * Suc k)) (P * Suc k) s)"
proof -
  let ?m = "P * Suc k - 1"
  have m: "?m \<le> hi_height i" "Suc ?m = P * Suc k" using assms(4,5) by auto
  obtain j where v: "view (branch view h ?m) = Some j" "hi_height j = ?m" by (rule branch_view [OF assms(1,2) m(1)])
  obtain t where t: "median_time_past view (branch view h ?m) = Some t"
    using median_time_past_Some [of view] v(1) by blast
  have c: "count_signals view (dep_bit dep) P (branch view h ?m) = Ok (signal_count view (dep_bit dep) h (P * k) (P * Suc k))"
    using count_signals_walk [OF assms(1-3) m(1), of P] m(2) assms(4) by simp
  have "hi_height i < u32_max" by (rule linkedD(1) [OF assms(1,2)])
  then have a: "checked_u32_add ?m 1 = Ok (P * Suc k)" using m by (simp add: checked_u32_add_def)
  show ?thesis
    unfolding advance_def bip9_next_def Let_def t c v option.sel a by (cases s) simp_all
qed

lemma state_forward_periods:
  assumes "linked view" "view h = Some i" "dep_bit dep < 32" "0 < P"
  shows "j \<le> k \<Longrightarrow> P * k \<le> Suc (hi_height i) \<Longrightarrow>
    state_forward view dep P (map (\<lambda>n. branch view h (P * Suc n - 1)) [j..<k]) (bip9_state view dep P h j)
      = Ok (bip9_state view dep P h k)"
proof (induction "k - j" arbitrary: j)
  case (Suc n)
  then have j: "j < k" by simp
  have pj: "P * Suc j \<le> Suc (hi_height i)" using j Suc.prems(2) by (meson Suc_leI mult_le_mono2 order_trans)
  have m: "P * Suc j - 1 \<le> hi_height i" using pj by simp
  have "state_forward view dep P (map (\<lambda>n. branch view h (P * Suc n - 1)) [Suc j..<k]) (bip9_state view dep P h (Suc j))
      = Ok (bip9_state view dep P h k)"
    using Suc by (intro Suc.hyps(1)) simp_all
  moreover obtain b where "view (branch view h (P * Suc j - 1)) = Some b" by (rule branch_view [OF assms(1,2) m])
  ultimately show ?case using advance_next [OF assms(1-4) pj] by (simp add: upt_conv_Cons [OF j])
qed simp

text \<open>Where the walk back stops: at the start of the chain, or where the median time is before the start.\<close>

lemma state_back_periods:
  assumes "linked view" "view h = Some i" "0 < P"
  shows "P * k \<le> Suc (hi_height i) \<Longrightarrow> \<exists>j \<le> k.
    state_back view dep P (if k = 0 then None else Some (branch view h (P * k - 1))) tc
      = Some (map (\<lambda>n. branch view h (P * Suc n - 1)) [j..<k] @ tc)
    \<and> (j \<noteq> 0 \<longrightarrow> uint (the (median_time_past view (branch view h (P * j - 1)))) < dep_start_time dep)"
proof (induction k arbitrary: tc)
  case 0
  then show ?case by (simp add: state_back.simps [of view dep P None])
next
  case (Suc k)
  let ?m = "P * Suc k - 1"
  let ?h = "branch view h ?m"
  have m: "?m \<le> hi_height i" "Suc ?m = P * Suc k" using Suc.prems assms(3) by auto
  obtain j' where v: "view (branch view h ?m) = Some j'" "hi_height j' = ?m" by (rule branch_view [OF assms(1,2) m(1)])
  obtain t where t: "median_time_past view ?h = Some t" using median_time_past_Some [of view] v(1) by blast
  show ?case
  proof (cases "uint t < dep_start_time dep")
    case True
    then show ?thesis
      using v t state_back.simps [of view dep P "Some ?h" tc] by (intro exI [of _ "Suc k"]) simp
  next
    case False
    have pk: "P * k \<le> Suc (hi_height i)" using Suc.prems by simp
    obtain j where j: "j \<le> k"
      "state_back view dep P (if k = 0 then None else Some (branch view h (P * k - 1))) (?h # tc)
        = Some (map (\<lambda>n. branch view h (P * Suc n - 1)) [j..<k] @ ?h # tc)"
      "j \<noteq> 0 \<longrightarrow> uint (the (median_time_past view (branch view h (P * j - 1)))) < dep_start_time dep"
      using Suc.IH [OF pk, of "?h # tc"] by blast
    have "state_back view dep P (Some ?h) tc = state_back view dep P (if k = 0 then None else Some (branch view h (P * k - 1))) (?h # tc)"
    proof (cases k)
      case 0
      then show ?thesis using v t False assms(3) state_back.simps [of view dep P "Some ?h" tc] by simp
    next
      case (Suc k')
      have le: "?m - P \<le> hi_height j'" using v(2) by simp
      have "?m - P = P * k - 1" "\<not> ?m < P" using Suc assms(3) by (auto simp: algebra_simps)
      moreover have "branch view ?h (?m - P) = branch view h (?m - P)"
        by (rule branch_branch [OF assms(1,2) m(1)]) simp
      ultimately show ?thesis
        using v t False Suc ancestor_branch [OF assms(1) v(1) le] state_back.simps [of view dep P "Some ?h" tc] by simp
    qed
    then show ?thesis using j by (intro exI [of _ j]) (simp add: upt_Suc)
  qed
qed

section \<open>Medians along a branch\<close>

lemma median_grows:
  fixes xs :: "'a::linorder list"
  assumes "xs \<noteq> []" "length xs \<le> Suc n" "sort xs ! (length xs div 2) < t"
  shows "sort xs ! (length xs div 2) \<le> sort (t # take n xs) ! (length (t # take n xs) div 2)"
proof (rule ccontr)
  let ?m = "sort xs ! (length xs div 2)" and ?ys = "t # take n xs"
  have half: "k div 2 < k" if "0 < k" for k :: nat using that by simp
  assume "\<not> ?thesis"
  then have "length ?ys div 2 < length (filter (\<lambda>x. x < ?m) ?ys)"
    using sorted_nth_less_iff [of "sort ?ys" "length ?ys div 2" ?m] half [of "length ?ys"] unfolding not_le
    by (simp only: sorted_sort length_sort length_filter_sort) simp
  moreover have "length (filter (\<lambda>x. x < ?m) ?ys) \<le> length (filter (\<lambda>x. x < ?m) xs)"
  proof -
    have "filter (\<lambda>x. x < ?m) ?ys = filter (\<lambda>x. x < ?m) (take n xs)" using assms(3) by auto
    moreover have "length (filter (\<lambda>x. x < ?m) (take n xs @ drop n xs)) = length (filter (\<lambda>x. x < ?m) xs)" by simp
    ultimately show ?thesis by (metis filter_append le_add1 length_append)
  qed
  moreover have "length (filter (\<lambda>x. x < ?m) xs) \<le> length xs div 2"
    using sorted_nth_less_iff [of "sort xs" "length xs div 2" ?m] half [of "length xs"] assms(1)
    by (simp add: length_filter_sort)
  moreover have "length xs div 2 \<le> length ?ys div 2" using assms(2) by (intro div_le_mono) simp
  ultimately show False by linarith
qed

lemma time_walk_take: "take n (time_walk view (Suc n) h) = time_walk view n h"
  by (induction n arbitrary: h) (simp_all split: option.split)

lemma length_time_walk: "length (time_walk view n h) \<le> n"
  by (induction n arbitrary: h) (simp_all split: option.split)

definition timely :: "block_view \<Rightarrow> bool" where
  "timely view \<longleftrightarrow> (\<forall>h i t. view h = Some i \<and> hi_height i \<noteq> 0 \<and> median_time_past view (hi_prev i) = Some t \<longrightarrow> t < hi_time i)"

lemma mtp_step:
  assumes "timely view" "view h = Some i" "hi_height i \<noteq> 0" "view (hi_prev i) = Some p"
  shows "the (median_time_past view (hi_prev i)) \<le> the (median_time_past view h)"
proof -
  let ?xs = "time_walk view 11 (hi_prev i)"
  have ne: "?xs \<noteq> []" using assms(4) by (simp add: numeral_eq_Suc)
  have h: "time_walk view 11 h = hi_time i # take 10 ?xs"
    using assms(2,3) time_walk_take [of 10 view "hi_prev i"] time_walk.simps(2) [of view 10 h] by simp
  have "sort ?xs ! (length ?xs div 2) < hi_time i"
    using assms ne unfolding timely_def median_time_past_def Let_def by auto
  then have "sort ?xs ! (length ?xs div 2) \<le> sort (hi_time i # take 10 ?xs) ! (length (hi_time i # take 10 ?xs) div 2)"
    using ne length_time_walk [of view 11] by (intro median_grows) simp_all
  then show ?thesis using ne by (simp only: median_time_past_def Let_def h) simp
qed

lemma mtp_mono:
  assumes "linked view" "timely view" "view h = Some i"
  shows "a \<le> b \<Longrightarrow> b \<le> hi_height i \<Longrightarrow>
    the (median_time_past view (branch view h a)) \<le> the (median_time_past view (branch view h b))"
proof (induction b rule: dec_induct)
  case (step b)
  obtain j where j: "view (branch view h (Suc b)) = Some j" "hi_height j = Suc b"
    by (rule branch_view [OF assms(1,3) step.prems])
  have pr: "hi_prev j = branch view h b" using branch_prev [OF assms(1,3) step.prems] j by simp
  obtain p where "view (branch view h b) = Some p" using branch_view [OF assms(1,3), of b] step.prems by auto
  then have "the (median_time_past view (branch view h b)) \<le> the (median_time_past view (branch view h (Suc b)))"
    using mtp_step [OF assms(2) j(1)] j(2) pr by simp
  then show ?case using step by simp
qed simp

section \<open>The state of a block\<close>

definition ordinary :: "Bip9Deployment \<Rightarrow> bool" where
  "ordinary dep \<longleftrightarrow> dep_start_time dep \<noteq> ALWAYS_ACTIVE \<and> dep_start_time dep \<noteq> NEVER_ACTIVE"

abbreviation per :: "Bip9Deployment \<Rightarrow> nat" where "per dep \<equiv> max (dep_period dep) 1"

lemma state_for_boundary:
  assumes "linked view" "view h = Some i" "ordinary dep"
  defines "K \<equiv> Suc (hi_height i) div per dep"
  shows "state_for view (Some h) dep
    = state_at_boundary view dep (per dep) (if K = 0 then None else Some (branch view h (per dep * K - 1)))"
proof -
  let ?P = "per dep" and ?H = "hi_height i"
  have e: "Suc ?H = ?P * K + Suc ?H mod ?P" unfolding K_def by simp
  have u: "\<not> hi_height i + 1 > u32_max" using linkedD(1) [OF assms(1,2)] by simp
  show ?thesis
  proof (cases "K = 0")
    case True
    then have "?H < Suc ?H mod ?P" using e by simp
    then show ?thesis using assms(2,3) u True by (simp add: state_for_def ordinary_def Let_def)
  next
    case False
    then have b: "\<not> ?H < Suc ?H mod ?P" "?H - Suc ?H mod ?P = ?P * K - 1" using e by (cases "?P * K"; simp)+
    then show ?thesis
      using assms(2,3) u False ancestor_branch [OF assms(1,2), of "?P * K - 1"] e
      by (simp add: state_for_def ordinary_def Let_def)
  qed
qed

lemma bip9_state_early:
  assumes "linked view" "timely view" "view h = Some i" "0 < P"
  shows "P * j \<le> Suc (hi_height i) \<Longrightarrow>
    j \<noteq> 0 \<Longrightarrow> uint (the (median_time_past view (branch view h (P * j - 1)))) < dep_start_time dep \<Longrightarrow>
    k \<le> j \<Longrightarrow> bip9_state view dep P h k = Defined"
proof (induction k)
  case (Suc k)
  have "P * Suc k \<le> P * j" by (rule mult_le_mono2 [OF Suc.prems(4)])
  then have "P * Suc k - 1 \<le> P * j - 1" "P * j - 1 \<le> hi_height i" using Suc.prems(1) by simp_all
  then have "the (median_time_past view (branch view h (P * Suc k - 1))) \<le> the (median_time_past view (branch view h (P * j - 1)))"
    by (rule mtp_mono [OF assms(1-3)])
  then show ?case using Suc by (simp add: bip9_next_def word_le_def)
qed simp

lemma state_for_bip9:
  assumes "linked view" "timely view" "view h = Some i" "ordinary dep" "dep_bit dep < 32"
  shows "state_for view (Some h) dep = done_with (bip9_state view dep (per dep) h (Suc (hi_height i) div per dep))"
proof -
  let ?P = "per dep" and ?K = "Suc (hi_height i) div per dep"
  have P: "0 < ?P" by simp
  have K: "?P * ?K \<le> Suc (hi_height i)" by simp
  obtain j where j: "j \<le> ?K"
    "state_back view dep ?P (if ?K = 0 then None else Some (branch view h (?P * ?K - 1))) []
      = Some (map (\<lambda>n. branch view h (?P * Suc n - 1)) [j..<?K] @ [])"
    "j \<noteq> 0 \<longrightarrow> uint (the (median_time_past view (branch view h (?P * j - 1)))) < dep_start_time dep"
    using state_back_periods [OF assms(1,3) P K, of dep "[]"] by blast
  have "?P * j \<le> Suc (hi_height i)" using j(1) K by (meson mult_le_mono2 order_trans)
  then have "bip9_state view dep ?P h j = Defined"
    using j(3) bip9_state_early [OF assms(1,2,3) P, of j dep j] by (cases "j = 0") simp_all
  then have "state_forward view dep ?P (map (\<lambda>n. branch view h (?P * Suc n - 1)) [j..<?K]) Defined = Ok (bip9_state view dep ?P h ?K)"
    using state_forward_periods [OF assms(1,3,5) P j(1) K] by simp
  then show ?thesis
    unfolding state_for_boundary [OF assms(1,3,4)] state_at_boundary_def j(2) by simp
qed

section \<open>The block index\<close>

text \<open>An index whose entries link to their parents, each of which passed the timestamp rule.\<close>

definition sound_index :: "block_lookup \<Rightarrow> bool" where
  "sound_index get \<longleftrightarrow> (\<forall>h e. get h = Some e \<longrightarrow> height e < u32_max \<and>
     (height e \<noteq> 0 \<longrightarrow> (\<exists>p. get (prev_blockhash (bi_header e)) = Some p \<and> Suc (height p) = height e
       \<and> check_timestamp (bi_header e) p get = Ok ())))"

lemma index_view_Some:
  "index_view get h = Some i \<longleftrightarrow> (\<exists>e. get h = Some e \<and> i = \<lparr>hi_prev = prev_blockhash (bi_header e), hi_height = height e,
     hi_version = hdr_version (bi_header e), hi_time = hdr_time (bi_header e)\<rparr>)"
  by (auto simp: index_view_def)

lemma time_walk_index: "get h = Some e \<Longrightarrow> time_walk (index_view get) (Suc n) h = mtp_times get (Suc n) e"
proof (induction n arbitrary: h e)
  case (Suc n)
  have "time_walk (index_view get) (Suc n) (prev_blockhash (bi_header e))
      = (case get (prev_blockhash (bi_header e)) of None \<Rightarrow> [] | Some e' \<Rightarrow> mtp_times get (Suc n) e')"
  proof (cases "get (prev_blockhash (bi_header e))")
    case None
    then show ?thesis by (simp add: index_view_def)
  next
    case (Some e')
    then show ?thesis using Suc.IH by simp
  qed
  moreover have "index_view get h = Some \<lparr>hi_prev = prev_blockhash (bi_header e), hi_height = height e,
      hi_version = hdr_version (bi_header e), hi_time = hdr_time (bi_header e)\<rparr>"
    using Suc.prems by (simp add: index_view_def)
  ultimately show ?case
    unfolding time_walk.simps(2) [of "index_view get" "Suc n" h] mtp_times.simps(2) [of get "Suc n" e]
    by (simp del: time_walk.simps mtp_times.simps)
qed (simp add: index_view_def)

lemma median_index: "get h = Some e \<Longrightarrow> median_time_past (index_view get) h = Some (median_time_past_of e get)"
  using time_walk_index [of get h e 10] mtp_times_nonempty [of get 10 e]
  by (simp add: median_time_past_def median_time_past_of_def MEDIAN_TIME_SPAN_def Let_def)

lemma sound_index_view:
  assumes "sound_index get"
  shows "linked (index_view get)" "timely (index_view get)"
proof -
  show "linked (index_view get)"
    unfolding linked_def
  proof (intro allI impI)
    fix h i assume "index_view get h = Some i"
    then obtain e where "get h = Some e" "hi_prev i = prev_blockhash (bi_header e)" "hi_height i = height e"
      by (auto simp: index_view_Some)
    then show "hi_height i < u32_max \<and> (hi_height i \<noteq> 0 \<longrightarrow> (\<exists>p. index_view get (hi_prev i) = Some p \<and> Suc (hi_height p) = hi_height i))"
      using assms by (fastforce simp: sound_index_def index_view_def)
  qed
  show "timely (index_view get)"
    unfolding timely_def
  proof (intro allI impI)
    fix h i t
    assume a: "index_view get h = Some i \<and> hi_height i \<noteq> 0 \<and> median_time_past (index_view get) (hi_prev i) = Some t"
    then obtain e where e: "get h = Some e" "hi_prev i = prev_blockhash (bi_header e)" "hi_height i = height e"
        "hi_time i = hdr_time (bi_header e)"
      by (auto simp: index_view_Some)
    then obtain p where p: "get (prev_blockhash (bi_header e)) = Some p" "check_timestamp (bi_header e) p get = Ok ()"
      using assms a unfolding sound_index_def by metis
    have "t = median_time_past_of p get" using a e(2) median_index [of get, OF p(1)] by simp
    then show "t < hi_time i" using p(2) e(4) by (simp add: check_timestamp_def not_le split: if_splits)
  qed
qed

section \<open>The diagram\<close>

inductive bip9_step :: "ThresholdState \<Rightarrow> ThresholdState \<Rightarrow> bool" where
  start: "bip9_step Defined Started"
| lock_in: "bip9_step Started LockedIn"
| time_out: "bip9_step Started Failed"
| activate: "bip9_step LockedIn Active"

inductive_cases bip9_step_ActiveE: "bip9_step Active s"
inductive_cases bip9_step_FailedE: "bip9_step Failed s"

lemma bip9_next_step: "bip9_next dep mtp c n s = s \<or> bip9_step s (bip9_next dep mtp c n s)"
  by (cases s) (auto simp: bip9_next_def intro: bip9_step.intros)

lemma bip9_state_steps: "k \<le> k' \<Longrightarrow> bip9_step\<^sup>*\<^sup>* (bip9_state view dep P h k) (bip9_state view dep P h k')"
proof (induction k' rule: dec_induct)
  case (step n)
  then show ?case
    using bip9_next_step [of dep _ _ _ "bip9_state view dep P h n"]
    by (metis bip9_state.simps(2) rtranclp.rtrancl_into_rtrancl)
qed simp

lemma terminal_state: "bip9_step\<^sup>*\<^sup>* s s' \<Longrightarrow> s = Active \<or> s = Failed \<Longrightarrow> s' = s"
  by (induction rule: rtranclp_induct) (auto elim: bip9_step_ActiveE bip9_step_FailedE)

text \<open>The recursion reads only the blocks below the period it is asked for.\<close>

lemma bip9_state_branch:
  assumes "linked view" "view h = Some i" "n \<le> hi_height i" "0 < P"
  shows "P * k \<le> Suc n \<Longrightarrow> bip9_state view dep P (branch view h n) k = bip9_state view dep P h k"
proof (induction k)
  case (Suc k)
  have b: "branch view (branch view h n) m = branch view h m" if "m < P * Suc k" for m
    using that Suc.prems by (intro branch_branch [OF assms(1-3)]) simp
  have "signal_count view j (branch view h n) (P * k) (P * Suc k) = signal_count view j h (P * k) (P * Suc k)" for j
    unfolding signal_count_def by (rule arg_cong [where f = card]) (auto simp: b)
  moreover have "P * Suc k - 1 < P * Suc k" using assms(4) by simp
  ultimately show ?case using Suc b by simp
qed simp

section \<open>Properties\<close>

text \<open>
  C8: Deployment states are those of BIP 9: on an index whose entries link to parents and passed the
  timestamp rule, the walk that stops at the first period before the start time ends and returns the
  state of the recursion over all periods from genesis, on any branch.
\<close>

theorem state_for_is_bip9:
  assumes "sound_index get" "get h = Some e" "ordinary dep" "dep_bit dep < 32"
  shows "state_for (index_view get) (Some h) dep
    = done_with (bip9_state (index_view get) dep (per dep) h (Suc (height e) div per dep))"
  using state_for_bip9 [OF sound_index_view [OF assms(1)], of h _ dep] assms(2-4) by (simp add: index_view_def)

definition two_blocks :: block_lookup where
  "two_blocks hash = (if hash = [0] then Some (sample_entry [] 100 0) else if hash = [1] then Some (sample_entry [0] 700 1) else None)"

definition short_deployment :: Bip9Deployment where
  "short_deployment = \<lparr>dep_bit = 28, dep_start_time = 50, dep_timeout = NO_TIMEOUT, dep_min_activation_height = 0,
     dep_threshold = 1, dep_period = 1\<rparr>"

lemma two_blocks_sound: "sound_index two_blocks"
proof -
  have "mtp_times get 11 (sample_entry [] 100 0) = [100]" for get
    using mtp_times.simps(2) [of get 10 "sample_entry [] 100 0"] by (simp add: sample_entry_def sample_header_def)
  then have "check_timestamp (sample_header [0] 700) (sample_entry [] 100 0) two_blocks = Ok ()"
    by (simp add: check_timestamp_def median_time_past_of_def MEDIAN_TIME_SPAN_def sample_header_def)
  then show ?thesis
    by (simp add: sound_index_def two_blocks_def sample_entry_def sample_header_def u32_max_def)
qed

lemma short_deployment_ordinary: "ordinary short_deployment" "dep_bit short_deployment < 32"
  by (simp_all add: ordinary_def short_deployment_def ALWAYS_ACTIVE_def NEVER_ACTIVE_def)

theorem state_for_is_bip9_witness:
  "state_for (index_view two_blocks) (Some [1]) short_deployment
    = done_with (bip9_state (index_view two_blocks) short_deployment (per short_deployment) [1] (2 div per short_deployment))"
proof -
  have "two_blocks [1] = Some (sample_entry [0] 700 1)" by (simp add: two_blocks_def)
  from state_for_is_bip9 [OF two_blocks_sound this short_deployment_ordinary] show ?thesis
    by (simp add: sample_entry_def numeral_2_eq_2)
qed

text \<open>
  C9: A deployment never goes back: along a branch of such an index the state of a later block is
  reached from the state of an earlier one by the arrows defined to started, started to locked in or
  failed, and locked in to active; an active or failed deployment stays so.
\<close>

theorem deployment_never_regresses:
  assumes "sound_index get" "get h = Some e" "ordinary dep" "dep_bit dep < 32" "m \<le> n" "n \<le> height e"
  shows "\<exists>s s'. state_for (index_view get) (Some (branch (index_view get) h m)) dep = done_with s
    \<and> state_for (index_view get) (Some (branch (index_view get) h n)) dep = done_with s'
    \<and> bip9_step\<^sup>*\<^sup>* s s' \<and> (s = Active \<or> s = Failed \<longrightarrow> s' = s)"
proof -
  let ?v = "index_view get" and ?P = "per dep"
  note lt = sound_index_view [OF assms(1)]
  obtain i where i: "?v h = Some i" "hi_height i = height e" using assms(2) by (simp add: index_view_def)
  have st: "state_for ?v (Some (branch ?v h k)) dep = done_with (bip9_state ?v dep ?P h (Suc k div ?P))" if k: "k \<le> height e" for k
  proof -
    have k': "k \<le> hi_height i" using k i(2) by simp
    obtain j where j: "?v (branch ?v h k) = Some j" "hi_height j = k" by (rule branch_view [OF lt(1) i(1) k'])
    have "state_for ?v (Some (branch ?v h k)) dep = done_with (bip9_state ?v dep ?P (branch ?v h k) (Suc k div ?P))"
      using state_for_bip9 [OF lt j(1) assms(3,4)] j(2) by simp
    then show ?thesis using bip9_state_branch [OF lt(1) i(1) k', of ?P "Suc k div ?P" dep] by simp
  qed
  have "Suc m div ?P \<le> Suc n div ?P" using assms(5) by (intro div_le_mono) simp
  then show ?thesis
    using st [of m] st [of n] assms(5,6) bip9_state_steps [of "Suc m div ?P" "Suc n div ?P" ?v dep ?P h]
      terminal_state by fastforce
qed

theorem deployment_never_regresses_witness:
  "\<exists>s s'. state_for (index_view two_blocks) (Some (branch (index_view two_blocks) [1] 0)) short_deployment = done_with s
    \<and> state_for (index_view two_blocks) (Some (branch (index_view two_blocks) [1] 1)) short_deployment = done_with s'
    \<and> bip9_step\<^sup>*\<^sup>* s s'"
proof -
  have "two_blocks [1] = Some (sample_entry [0] 700 1)" by (simp add: two_blocks_def)
  from deployment_never_regresses [OF two_blocks_sound this short_deployment_ordinary, of 0 1] show ?thesis
    by (auto simp: sample_entry_def)
qed

end
