(* ===== verification/Unknown_Bits.thy ===== *)
theory Unknown_Bits
  imports Versionbits_Facts
begin

text \<open>
  The monitor for unknown version bits against its specification without a cache: the memo of the
  known deployment's mask and the cache of period states never change what is reported.
\<close>

section \<open>Specification\<close>

text \<open>A block counts for a bit when it sets the bit and this node would not have set it.\<close>

definition own_bit :: "block_view \<Rightarrow> Bip9Deployment \<Rightarrow> HeaderInfo \<Rightarrow> nat \<Rightarrow> bool" where
  "own_bit view known i b \<longleftrightarrow> b = dep_bit known \<and>
     state_for view (if hi_height i > 0 then Some (hi_prev i) else None) known \<in> {done_with Started, done_with LockedIn}"

definition unexpected :: "block_view \<Rightarrow> Bip9Deployment \<Rightarrow> HeaderInfo \<Rightarrow> nat \<Rightarrow> bool" where
  "unexpected view known i b \<longleftrightarrow>
     hi_version i AND VERSIONBITS_TOP_MASK = VERSIONBITS_TOP_BITS \<and> bit (hi_version i) b \<and> \<not> own_bit view known i b"

definition unknown_count :: "block_view \<Rightarrow> Bip9Deployment \<Rightarrow> nat \<Rightarrow> bytes \<Rightarrow> nat \<Rightarrow> nat \<Rightarrow> nat \<Rightarrow> nat" where
  "unknown_count view known min_height h a c b =
     card {n \<in> {a..<c}. min_height \<le> n \<and> unexpected view known (block_at view h n) b}"

definition unknown_next :: "nat \<Rightarrow> nat \<Rightarrow> ThresholdState \<Rightarrow> ThresholdState" where
  "unknown_next threshold count s = (case s of
       Defined \<Rightarrow> Started
     | Started \<Rightarrow> if threshold \<le> count then LockedIn else Started
     | LockedIn \<Rightarrow> Active
     | Active \<Rightarrow> Active
     | Failed \<Rightarrow> Failed)"

definition uper :: "UnknownBitsParams \<Rightarrow> nat" where "uper params = max (ub_period params) 1"

lemma uper_pos [simp]: "0 < uper params" by (simp add: uper_def)

lemma uper_last: "Suc (uper params * Suc k - 1) = uper params * Suc k"
  using uper_pos [of params] by simp

primrec unknown_state :: "block_view \<Rightarrow> UnknownBitsParams \<Rightarrow> Bip9Deployment \<Rightarrow> bytes \<Rightarrow> nat \<Rightarrow> nat \<Rightarrow> ThresholdState" where
  "unknown_state view params known h 0 b = Defined"
| "unknown_state view params known h (Suc k) b =
     unknown_next (ub_threshold params)
       (unknown_count view known (ub_min_height params) h (uper params * k) (uper params * Suc k) b)
       (unknown_state view params known h k b)"

lemma unknown_state_0: "unknown_state view params known h 0 = (\<lambda>b. Defined)"
  by (rule ext) simp

lemma unknown_state_Suc:
  "unknown_state view params known h (Suc k) = (\<lambda>b. unknown_next (ub_threshold params)
     (unknown_count view known (ub_min_height params) h (uper params * k) (uper params * Suc k) b)
     (unknown_state view params known h k b))"
  by (rule ext) simp

abbreviation period_states :: "block_view \<Rightarrow> UnknownBitsParams \<Rightarrow> Bip9Deployment \<Rightarrow> bytes \<Rightarrow> nat \<Rightarrow> ThresholdState list" where
  "period_states view params known h k \<equiv> map (unknown_state view params known h k) [0..<VERSIONBITS_NUM_BITS]"

lemma unknown_state_branch:
  assumes "linked view" "view h = Some i" "n \<le> hi_height i"
  shows "uper params * k \<le> Suc n \<Longrightarrow> unknown_state view params known (branch view h n) k b = unknown_state view params known h k b"
proof (induction k)
  case (Suc k)
  have "branch view (branch view h n) m = branch view h m" if "m < uper params * Suc k" for m
    using that Suc.prems by (intro branch_branch [OF assms(1-3)]) simp
  then have "unknown_count view known l (branch view h n) (uper params * k) (uper params * Suc k) b
      = unknown_count view known l h (uper params * k) (uper params * Suc k) b" for l
    unfolding unknown_count_def by (intro arg_cong [where f = card]) auto
  then show ?case using Suc by simp
qed simp

section \<open>The memo\<close>

lemma state_forward_total:
  assumes "linked view" "view h = Some i" "dep_bit dep < 32" "0 < P"
  shows "j \<le> k \<Longrightarrow> P * k \<le> Suc (hi_height i) \<Longrightarrow>
    \<exists>s'. state_forward view dep P (map (\<lambda>n. branch view h (P * Suc n - 1)) [j..<k]) s = Ok s'"
proof (induction "k - j" arbitrary: j s)
  case (Suc n)
  then have j: "j < k" by simp
  have pj: "P * Suc j \<le> Suc (hi_height i)" using j Suc.prems(2) by (meson Suc_leI mult_le_mono2 order_trans)
  then have m: "P * Suc j - 1 \<le> hi_height i" by simp
  obtain b where "view (branch view h (P * Suc j - 1)) = Some b" by (rule branch_view [OF assms(1,2) m])
  moreover have "\<exists>s''. state_forward view dep P (map (\<lambda>n. branch view h (P * Suc n - 1)) [Suc j..<k]) s' = Ok s''" for s'
    using Suc by (intro Suc.hyps(1)) simp_all
  ultimately show ?case using advance_next [OF assms(1-4) pj] by (simp add: upt_conv_Cons [OF j])
qed simp

lemma state_at_boundary_total:
  assumes "linked view" "view h = Some i" "dep_bit dep < 32" "0 < P" "P * k \<le> Suc (hi_height i)"
  shows "\<exists>s. state_at_boundary view dep P (if k = 0 then None else Some (branch view h (P * k - 1))) = done_with s"
proof -
  obtain j where j: "j \<le> k"
    "state_back view dep P (if k = 0 then None else Some (branch view h (P * k - 1))) []
      = Some (map (\<lambda>n. branch view h (P * Suc n - 1)) [j..<k] @ [])"
    using state_back_periods [OF assms(1,2,4,5), of dep "[]"] by blast
  then show ?thesis
    using state_forward_total [OF assms(1-4) j(1) assms(5)] unfolding state_at_boundary_def j(2) by auto
qed

text \<open>The state under which the block at height \<open>n\<close> was made, which is that of its window.\<close>

definition parent_state :: "block_view \<Rightarrow> Bip9Deployment \<Rightarrow> bytes \<Rightarrow> nat \<Rightarrow> ThresholdState run" where
  "parent_state view known h n = state_for view (if n > 0 then Some (hi_prev (block_at view h n)) else None) known"

lemma parent_state_window:
  assumes "linked view" "view h = Some i" "n \<le> hi_height i" "ordinary known"
  shows "parent_state view known h n
    = state_at_boundary view known (per known) (if n div per known = 0 then None else Some (branch view h (per known * (n div per known) - 1)))"
proof (cases n)
  case 0
  then show ?thesis using assms(4) by (simp add: parent_state_def state_for_def ordinary_def Let_def)
next
  case (Suc m)
  then have m: "m \<le> hi_height i" using assms(3) by simp
  obtain j where j: "view (branch view h m) = Some j" "hi_height j = m" by (rule branch_view [OF assms(1,2) m])
  have "per known * (n div per known) \<le> n" by simp
  then have "per known * (n div per known) - 1 \<le> m" using Suc by linarith
  then have "branch view (branch view h m) (per known * (n div per known) - 1) = branch view h (per known * (n div per known) - 1)"
    by (rule branch_branch [OF assms(1,2) m])
  moreover have "hi_prev (block_at view h n) = branch view h m" using branch_prev [OF assms(1,2)] Suc assms(3) by simp
  ultimately show ?thesis
    using state_for_boundary [OF assms(1) j(1) assms(4)] j(2) Suc by (simp add: parent_state_def)
qed

lemma parent_state_facts:
  assumes "linked view" "view h = Some i" "dep_bit known < 32"
  shows "n \<le> hi_height i \<Longrightarrow> \<exists>s. parent_state view known h n = done_with s"
    "n \<le> hi_height i \<Longrightarrow> n' \<le> hi_height i \<Longrightarrow> n div per known = n' div per known \<Longrightarrow>
      parent_state view known h n = parent_state view known h n'"
proof -
  have special: "parent_state view known h n = parent_state view known h n' \<and> (\<exists>s. parent_state view known h n = done_with s)"
    if "\<not> ordinary known" for n n'
    using that by (auto simp: parent_state_def state_for_def ordinary_def)
  show "\<exists>s. parent_state view known h n = done_with s" if n: "n \<le> hi_height i"
  proof (cases "ordinary known")
    case True
    have "per known * (n div per known) \<le> n" by simp
    then have "per known * (n div per known) \<le> Suc (hi_height i)" using n by linarith
    then show ?thesis
      unfolding parent_state_window [OF assms(1,2) n True] by (intro state_at_boundary_total [OF assms]) simp_all
  qed (use special in blast)
  show "parent_state view known h n = parent_state view known h n'"
    if "n \<le> hi_height i" "n' \<le> hi_height i" "n div per known = n' div per known"
    using that parent_state_window [OF assms(1,2)] special by (cases "ordinary known") auto
qed

definition mask_at :: "block_view \<Rightarrow> Bip9Deployment \<Rightarrow> bytes \<Rightarrow> nat \<Rightarrow> u32" where
  "mask_at view known h n =
     (if parent_state view known h n \<in> {done_with Started, done_with LockedIn} then push_bit (dep_bit known) 1 else 0)"

definition memo_ok :: "block_view \<Rightarrow> Bip9Deployment \<Rightarrow> bytes \<Rightarrow> (nat \<rightharpoonup> u32) \<Rightarrow> bool" where
  "memo_ok view known h expected \<longleftrightarrow>
     (\<forall>n m. n \<le> hi_height (the (view h)) \<and> expected (n div per known) = Some m \<longrightarrow> m = mask_at view known h n)"

lemma expected_mask_at:
  assumes "linked view" "view h = Some i" "dep_bit known < 32" "n \<le> hi_height i" "memo_ok view known h expected"
  shows "\<exists>expected'. expected_mask view known (block_at view h n) expected = done_with (mask_at view known h n, expected')
    \<and> memo_ok view known h expected'"
proof -
  obtain j where j: "view (branch view h n) = Some j" "hi_height j = n" by (rule branch_view [OF assms(1,2,4)])
  show ?thesis
  proof (cases "expected (n div per known)")
    case (Some m)
    then have "m = mask_at view known h n" using assms(2,4,5) by (auto simp: memo_ok_def)
    then show ?thesis using Some j assms(5) by (simp add: expected_mask_def)
  next
    case None
    obtain s where s: "parent_state view known h n = done_with s" using parent_state_facts(1) [OF assms(1-4)] by blast
    have "expected_mask view known (block_at view h n) expected
        = done_with (mask_at view known h n, expected(n div per known \<mapsto> mask_at view known h n))"
      using None j s assms(3) by (auto simp: expected_mask_def parent_state_def mask_at_def Let_def)
    moreover have "memo_ok view known h (expected(n div per known \<mapsto> mask_at view known h n))"
      unfolding memo_ok_def
    proof (intro allI impI)
      fix n' m
      assume a: "n' \<le> hi_height (the (view h)) \<and> (expected(n div per known \<mapsto> mask_at view known h n)) (n' div per known) = Some m"
      show "m = mask_at view known h n'"
      proof (cases "n' div per known = n div per known")
        case True
        then have "parent_state view known h n' = parent_state view known h n"
          using a assms(2,4) by (intro parent_state_facts(2) [OF assms(1-3)]) simp_all
        then show ?thesis using a True by (simp add: mask_at_def)
      next
        case False
        then show ?thesis using a assms(5) by (simp add: memo_ok_def)
      qed
    qed
    ultimately show ?thesis by blast
  qed
qed

section \<open>Counting\<close>

lemma and_bit: "k < 32 \<Longrightarrow> (v :: u32) AND 2 ^ k = 0 \<longleftrightarrow> \<not> bit v k"
  by (auto simp: bit_eq_iff [where ?'a = "32 word"] bit_and_iff bit_push_bit_iff bit_1_iff bit_exp_iff)

lemma tally_bits_map:
  "tally_bits v m (map f [0..<VERSIONBITS_NUM_BITS])
    = map (\<lambda>b. f b + of_bool (bit v b \<and> \<not> bit m b)) [0..<VERSIONBITS_NUM_BITS]"
  by (rule nth_equalityI) (auto simp: tally_bits_def nth_enumerate_eq and_bit VERSIONBITS_NUM_BITS_def)

lemma tally_unexpected:
  assumes "linked view" "view h = Some i" "n \<le> hi_height i" "dep_bit known < 32" "b < VERSIONBITS_NUM_BITS"
    "hi_version (block_at view h n) AND VERSIONBITS_TOP_MASK = VERSIONBITS_TOP_BITS"
  shows "bit (hi_version (block_at view h n)) b \<and> \<not> bit (mask_at view known h n) b \<longleftrightarrow> unexpected view known (block_at view h n) b"
proof -
  obtain j where j: "view (branch view h n) = Some j" "hi_height j = n" by (rule branch_view [OF assms(1-3)])
  have "bit (push_bit (dep_bit known) 1 :: u32) b \<longleftrightarrow> b = dep_bit known"
    using assms(4,5) by (auto simp: bit_push_bit_iff bit_1_iff bit_exp_iff VERSIONBITS_NUM_BITS_def)
  then show ?thesis
    using j assms(6) by (auto simp: unexpected_def own_bit_def mask_at_def parent_state_def)
qed

lemma unknown_count_Suc:
  "a \<le> c \<Longrightarrow> unknown_count view known l h a (Suc c) b
    = of_bool (l \<le> c \<and> unexpected view known (block_at view h c) b) + unknown_count view known l h a c b"
proof -
  assume a: "a \<le> c"
  have "{n \<in> {a..<Suc c}. l \<le> n \<and> unexpected view known (block_at view h n) b}
      = (if l \<le> c \<and> unexpected view known (block_at view h c) b then {c} else {})
        \<union> {n \<in> {a..<c}. l \<le> n \<and> unexpected view known (block_at view h n) b}"
    using a by (auto simp: less_Suc_eq)
  then show ?thesis by (simp add: unknown_count_def)
qed

lemma count_walk_counts:
  assumes "linked view" "view h = Some i" "dep_bit known < 32"
  shows "m \<le> hi_height i \<Longrightarrow> n \<le> Suc m \<Longrightarrow> memo_ok view known h expected \<Longrightarrow>
    count_walk view known l n (block_at view h m) (map f [0..<VERSIONBITS_NUM_BITS]) expected
      = done_with (map (\<lambda>b. f b + unknown_count view known l h (Suc m - n) (Suc m) b) [0..<VERSIONBITS_NUM_BITS])"
proof (induction n arbitrary: m f expected)
  case (Suc n)
  obtain j where j: "view (branch view h m) = Some j" "hi_height j = m" by (rule branch_view [OF assms(1,2) Suc.prems(1)])
  let ?u = "\<lambda>b. of_bool (l \<le> m \<and> unexpected view known (block_at view h m) b) :: nat"
  obtain expected' where e: "memo_ok view known h expected'"
    "(if hi_height j \<ge> l \<and> hi_version j AND VERSIONBITS_TOP_MASK = VERSIONBITS_TOP_BITS
      then run_bind (expected_mask view known j expected) (\<lambda>(msk, expected).
        done_with (tally_bits (hi_version j) msk (map f [0..<VERSIONBITS_NUM_BITS]), expected))
      else done_with (map f [0..<VERSIONBITS_NUM_BITS], expected))
      = done_with (map (\<lambda>b. f b + ?u b) [0..<VERSIONBITS_NUM_BITS], expected')"
  proof (cases "l \<le> m \<and> hi_version j AND VERSIONBITS_TOP_MASK = VERSIONBITS_TOP_BITS")
    case True
    obtain expected' where x: "expected_mask view known j expected = done_with (mask_at view known h m, expected')" "memo_ok view known h expected'"
      using expected_mask_at [OF assms Suc.prems(1,3)] j(1) by auto
    have "tally_bits (hi_version j) (mask_at view known h m) (map f [0..<VERSIONBITS_NUM_BITS]) = map (\<lambda>b. f b + ?u b) [0..<VERSIONBITS_NUM_BITS]"
      unfolding tally_bits_map using tally_unexpected [OF assms(1,2) Suc.prems(1) assms(3)] True j(1) by simp
    then show ?thesis using that [OF x(2)] x(1) True j(2) by simp
  next
    case False
    then have "?u b = 0" for b using j(1) by (auto simp: unexpected_def)
    then show ?thesis using that [OF Suc.prems(3)] False j(2) by simp
  qed
  have s: "unknown_count view known l h (Suc m - Suc n) (Suc m) b = ?u b + unknown_count view known l h (m - n) m b" for b
    using unknown_count_Suc [of "m - n" m] by simp
  show ?case
  proof (cases m)
    case 0
    then have "unknown_count view known l h (m - n) m b = 0" for b by (simp add: unknown_count_def)
    then show ?thesis using e(2) j 0 s by simp
  next
    case (Suc m')
    have pr: "hi_prev j = branch view h m'" using branch_prev [OF assms(1,2), of m'] Suc Suc.prems(1) j(1) by simp
    obtain j' where j': "view (branch view h m') = Some j'"
      using branch_view [OF assms(1,2), of m'] Suc Suc.prems(1) by auto
    have "count_walk view known l n (block_at view h m') (map (\<lambda>b. f b + ?u b) [0..<VERSIONBITS_NUM_BITS]) expected'
        = done_with (map (\<lambda>b. (f b + ?u b) + unknown_count view known l h (Suc m' - n) (Suc m') b) [0..<VERSIONBITS_NUM_BITS])"
      using Suc Suc.prems by (intro Suc.IH [OF _ _ e(1)]) simp_all
    then show ?thesis using e(2) j pr j' Suc s by (simp add: add.assoc)
  qed
qed (simp add: unknown_count_def)

lemma count_period_counts:
  assumes "linked view" "view h = Some i" "dep_bit known < 32" "0 < P" "P * Suc k \<le> Suc (hi_height i)"
  shows "count_period view (block_at view h (P * Suc k - 1)) P l known
    = done_with (map (unknown_count view known l h (P * k) (P * Suc k)) [0..<VERSIONBITS_NUM_BITS])"
proof -
  let ?m = "P * Suc k - 1"
  have m: "?m \<le> hi_height i" "P \<le> Suc ?m" "Suc ?m = P * Suc k" "Suc ?m - P = P * k" using assms(4,5) by auto
  have "memo_ok view known h Map.empty" by (simp add: memo_ok_def)
  from count_walk_counts [OF assms(1-3) m(1,2) this, of l "\<lambda>b. 0"] show ?thesis
    unfolding count_period_def m(3,4) by (simp add: map_replicate_const)
qed

section \<open>The cache\<close>

definition cache_ok :: "block_view \<Rightarrow> UnknownBitsParams \<Rightarrow> Bip9Deployment \<Rightarrow> bits_cache \<Rightarrow> bool" where
  "cache_ok view params known cache \<longleftrightarrow>
     (\<forall>h i s k. view h = Some i \<and> cache h = Some s \<and> Suc (hi_height i) = uper params * k
        \<longrightarrow> s = period_states view params known h k)"

abbreviation boundary :: "block_view \<Rightarrow> nat \<Rightarrow> bytes \<Rightarrow> nat \<Rightarrow> bytes \<times> HeaderInfo" where
  "boundary view P h n \<equiv> (branch view h (P * Suc n - 1), block_at view h (P * Suc n - 1))"

lemma advance_bits_map:
  "advance_bits t (map c [0..<n]) (map s [0..<n]) = map (\<lambda>b. unknown_next t (c b) (s b)) [0..<n]"
  by (rule nth_equalityI) (auto simp: advance_bits_def unknown_next_def split: ThresholdState.split)

lemma cache_ok_insert:
  assumes "linked view" "view h = Some i" "uper params * Suc k \<le> Suc (hi_height i)" "cache_ok view params known cache"
  shows "cache_ok view params known (cache(branch view h (uper params * Suc k - 1) \<mapsto> period_states view params known h (Suc k)))"
  unfolding cache_ok_def
proof (intro allI impI)
  let ?b = "branch view h (uper params * Suc k - 1)"
  fix h' i' s k'
  assume a: "view h' = Some i' \<and> (cache(?b \<mapsto> period_states view params known h (Suc k))) h' = Some s
    \<and> Suc (hi_height i') = uper params * k'"
  have m: "uper params * Suc k - 1 \<le> hi_height i" using assms(3) by simp
  obtain j where j: "view ?b = Some j" "hi_height j = uper params * Suc k - 1" by (rule branch_view [OF assms(1,2) m])
  show "s = period_states view params known h' k'"
  proof (cases "h' = ?b")
    case True
    then have "uper params * k' = uper params * Suc k" using a j uper_last [of params k] by simp
    then have "k' = Suc k" by (simp only: nat_mult_eq_cancel1 [OF uper_pos])
    moreover have "unknown_state view params known ?b (Suc k) = unknown_state view params known h (Suc k)"
      by (rule ext) (rule unknown_state_branch [OF assms(1,2) m], simp)
    ultimately show ?thesis using a True by (simp del: unknown_state.simps)
  next
    case False
    then have "cache h' = Some s" using a by simp
    then show ?thesis using a assms(4) unfolding cache_ok_def by blast
  qed
qed

lemma unknown_forward_states:
  assumes "linked view" "view h = Some i" "dep_bit known < 32"
  shows "j \<le> k \<Longrightarrow> uper params * k \<le> Suc (hi_height i) \<Longrightarrow> cache_ok view params known cache \<Longrightarrow>
    \<exists>cache'. unknown_forward view params known (uper params) (map (boundary view (uper params) h) [j..<k])
        (period_states view params known h j) cache = done_with (period_states view params known h k, cache')
      \<and> cache_ok view params known cache'"
proof (induction "k - j" arbitrary: j cache)
  case (Suc n)
  then have j: "j < k" by simp
  have pj: "uper params * Suc j \<le> Suc (hi_height i)" using j Suc.prems(2) by (meson Suc_leI mult_le_mono2 order_trans)
  let ?cache = "cache(branch view h (uper params * Suc j - 1) \<mapsto> period_states view params known h (Suc j))"
  have "\<exists>cache'. unknown_forward view params known (uper params) (map (boundary view (uper params) h) [Suc j..<k])
        (period_states view params known h (Suc j)) ?cache = done_with (period_states view params known h k, cache')
      \<and> cache_ok view params known cache'"
    using Suc.hyps(2) Suc.prems cache_ok_insert [OF assms(1,2) pj Suc.prems(3)] by (intro Suc.hyps(1)) simp_all
  moreover have "unknown_forward view params known (uper params) (map (boundary view (uper params) h) [j..<k])
        (period_states view params known h j) cache
      = unknown_forward view params known (uper params) (map (boundary view (uper params) h) [Suc j..<k])
        (period_states view params known h (Suc j)) ?cache"
    using count_period_counts [OF assms _ pj, of "ub_min_height params"]
    by (simp add: upt_conv_Cons [OF j] advance_bits_map unknown_state_Suc Let_def)
  ultimately show ?case by simp
qed (auto intro: exI)

lemma cache_hit:
  assumes "linked view" "view h = Some i" "cache_ok view params known cache" "uper params * Suc k \<le> Suc (hi_height i)"
    "cache (branch view h (uper params * Suc k - 1)) = Some s"
  shows "s = period_states view params known h (Suc k)"
proof -
  let ?b = "branch view h (uper params * Suc k - 1)"
  have m: "uper params * Suc k - 1 \<le> hi_height i" using assms(4) by simp
  obtain b where b: "view ?b = Some b" "hi_height b = uper params * Suc k - 1" by (rule branch_view [OF assms(1,2) m])
  have "Suc (hi_height b) = uper params * Suc k" using b(2) uper_last [of params k] by simp
  then have "s = period_states view params known ?b (Suc k)"
    using assms(3,5) b(1) unfolding cache_ok_def by blast
  moreover have "unknown_state view params known ?b (Suc k) = unknown_state view params known h (Suc k)"
    by (rule ext) (rule unknown_state_branch [OF assms(1,2) m], simp)
  ultimately show ?thesis by (simp del: unknown_state.simps)
qed

lemma unknown_back_states:
  assumes "linked view" "view h = Some i" "cache_ok view params known cache"
  shows "uper params * Suc k \<le> Suc (hi_height i) \<Longrightarrow> \<exists>j \<le> Suc k.
    unknown_back view cache (uper params) (boundary view (uper params) h k) tc
      = Some (period_states view params known h j, map (boundary view (uper params) h) [j..<Suc k] @ tc)"
proof (induction k arbitrary: tc)
  let ?P = "uper params"
  case 0
  show ?case
  proof (cases "cache (branch view h (?P * Suc 0 - 1))")
    case None
    have m: "?P * Suc 0 - 1 \<le> hi_height i" using 0 by simp
    obtain b where "view (branch view h (?P * Suc 0 - 1)) = Some b" "hi_height b = ?P * Suc 0 - 1"
      by (rule branch_view [OF assms(1,2) m])
    then show ?thesis
      using None unknown_back.simps [of view cache ?P "boundary view ?P h 0" tc]
      by (intro exI [of _ 0]) (simp add: map_replicate_const)
  next
    case (Some s)
    then show ?thesis
      using cache_hit [OF assms 0 Some] unknown_back.simps [of view cache ?P "boundary view ?P h 0" tc]
      by (intro exI [of _ "Suc 0"]) (simp del: unknown_state.simps)
  qed
next
  let ?P = "uper params"
  case (Suc k)
  let ?m = "?P * Suc (Suc k) - 1"
  have m: "?m \<le> hi_height i" using Suc.prems by simp
  obtain b where b: "view (branch view h ?m) = Some b" "hi_height b = ?m" by (rule branch_view [OF assms(1,2) m])
  show ?case
  proof (cases "cache (branch view h ?m)")
    case None
    have pk: "?P * Suc k \<le> Suc (hi_height i)" using Suc.prems by simp
    obtain j where j: "j \<le> Suc k" "unknown_back view cache ?P (boundary view ?P h k) (boundary view ?P h (Suc k) # tc)
      = Some (period_states view params known h j, map (boundary view ?P h) [j..<Suc k] @ boundary view ?P h (Suc k) # tc)"
      using Suc.IH [OF pk] by blast
    have le: "?m - ?P \<le> hi_height b" "\<not> ?m < ?P" "?m - ?P = ?P * Suc k - 1"
      using b(2) uper_last [of params "Suc k"] uper_last [of params k] by auto
    have "branch view (branch view h ?m) (?m - ?P) = branch view h (?m - ?P)"
      by (rule branch_branch [OF assms(1,2) m]) simp
    then have "unknown_back view cache ?P (boundary view ?P h (Suc k)) tc
        = unknown_back view cache ?P (boundary view ?P h k) (boundary view ?P h (Suc k) # tc)"
      using None b le ancestor_branch [OF assms(1) b(1) le(1)] unknown_back.simps [of view cache ?P "boundary view ?P h (Suc k)" tc]
      by simp
    then show ?thesis using j by (intro exI [of _ j]) (simp add: upt_Suc)
  next
    case (Some s)
    then show ?thesis
      using cache_hit [OF assms Suc.prems Some] unknown_back.simps [of view cache ?P "boundary view ?P h (Suc k)" tc]
      by (intro exI [of _ "Suc (Suc k)"]) (simp del: unknown_state.simps)
  qed
qed

lemma states_after_spec:
  assumes "linked view" "view tip = Some i" "dep_bit known < 32" "cache_ok view params known cache"
  shows "\<exists>cache'. states_after view tip params known cache
      = done_with (period_states view params known tip (Suc (hi_height i) div uper params), cache')
    \<and> cache_ok view params known cache'"
proof -
  let ?P = "uper params" and ?H = "hi_height i"
  let ?K = "Suc ?H div ?P"
  have e: "Suc ?H = ?P * ?K + Suc ?H mod ?P" by simp
  have u: "\<not> ?H + 1 > u32_max" using linkedD(1) [OF assms(1,2)] by simp
  show ?thesis
  proof (cases ?K)
    case 0
    then have "?H < Suc ?H mod ?P" using e by simp
    then show ?thesis
      using assms(2,4) u 0 unfolding states_after_def uper_def [symmetric]
      by (auto simp: Let_def map_replicate_const unknown_state_0)
  next
    case (Suc k)
    have pk: "?P * Suc k \<le> Suc ?H" using e Suc by simp
    have bk: "\<not> ?H < Suc ?H mod ?P" "?H - Suc ?H mod ?P = ?P * Suc k - 1"
    proof -
      have "\<not> n < r \<and> n - r = y" if "Suc n = x + r" "Suc y = x" for n r x y :: nat using that by auto
      moreover have "Suc ?H = ?P * Suc k + Suc ?H mod ?P" using e unfolding Suc .
      ultimately show "\<not> ?H < Suc ?H mod ?P" "?H - Suc ?H mod ?P = ?P * Suc k - 1" using uper_last [of params k] by blast+
    qed
    have m: "?P * Suc k - 1 \<le> ?H" using pk by simp
    obtain j where j: "j \<le> Suc k" "unknown_back view cache ?P (boundary view ?P tip k) []
        = Some (period_states view params known tip j, map (boundary view ?P tip) [j..<Suc k] @ [])"
      using unknown_back_states [OF assms(1,2,4) pk] by blast
    obtain cache' where c: "cache_ok view params known cache'"
      "unknown_forward view params known ?P (map (boundary view ?P tip) [j..<Suc k]) (period_states view params known tip j) cache
        = done_with (period_states view params known tip (Suc k), cache')"
      using unknown_forward_states [OF assms(1-3) j(1) pk assms(4)] by blast
    have "states_after view tip params known cache = Option.bind (unknown_back view cache ?P (boundary view ?P tip k) [])
        (\<lambda>(states, to_compute). unknown_forward view params known ?P to_compute states cache)"
      using assms(2) u bk ancestor_branch [OF assms(1,2) m] unfolding states_after_def uper_def [symmetric] by (simp add: Let_def)
    then show ?thesis using j(2) c Suc by (intro exI [of _ cache']) (simp del: upt_Suc unknown_state.simps)
  qed
qed

section \<open>Properties\<close>

text \<open>
  C10: The monitor of unknown version bits reports exactly the bits its specification names, locked in
  or active after the last whole period of the branch, whatever earlier checks left in the cache; and
  what it adds to the cache is right again.  The specification counts in every period the blocks that
  set the bit while this node would not have, with no cache and no memo.
\<close>

theorem monitor_reports_unknown_bits:
  assumes "linked view" "view tip = Some i" "dep_bit known < 32" "cache_ok view params known cache"
  defines "s \<equiv> unknown_state view params known tip (Suc (hi_height i) div uper params)"
  shows "\<exists>cache'. UnknownBitsMonitor_check view tip params known cache
      = done_with (map (\<lambda>b. (b, s b = Active)) (filter (\<lambda>b. s b = LockedIn \<or> s b = Active) [0..<29]), cache')
    \<and> cache_ok view params known cache'"
proof -
  have "List.map_filter (\<lambda>(bit', state). case state of Active \<Rightarrow> Some (bit', True) | LockedIn \<Rightarrow> Some (bit', False) | _ \<Rightarrow> None)
      (map (\<lambda>b. (b, s b)) bs) = map (\<lambda>b. (b, s b = Active)) (filter (\<lambda>b. s b = LockedIn \<or> s b = Active) bs)" for bs
    by (induction bs) (auto simp: map_filter_simps split: ThresholdState.split)
  moreover have "enumerate 0 (map s [0..<29]) = map (\<lambda>b. (b, s b)) [0..<29]"
    by (rule nth_equalityI) (simp_all add: nth_enumerate_eq)
  ultimately show ?thesis
    using states_after_spec [OF assms(1-4)] unfolding UnknownBitsMonitor_check_def s_def VERSIONBITS_NUM_BITS_def
    by auto
qed

theorem monitor_reports_unknown_bits_witness:
  "\<exists>l cache'. UnknownBitsMonitor_check (index_view two_blocks) [1] (UnknownBitsParams_for_network Regtest)
      (testdummy_deployment Regtest) Map.empty = done_with (l, cache')"
proof -
  have v: "index_view two_blocks [1] = Some \<lparr>hi_prev = [0], hi_height = 1, hi_version = 1, hi_time = 700\<rparr>"
    by (simp add: index_view_def two_blocks_def sample_entry_def sample_header_def)
  have k: "dep_bit (testdummy_deployment Regtest) < 32" by (simp add: testdummy_deployment_def)
  have "cache_ok (index_view two_blocks) (UnknownBitsParams_for_network Regtest) (testdummy_deployment Regtest) Map.empty"
    by (simp add: cache_ok_def)
  from monitor_reports_unknown_bits [OF sound_index_view(1) [OF two_blocks_sound] v k this] show ?thesis by blast
qed

end
