(* ===== verification/Work.thy ===== *)
theory Work
  imports Compact
begin

text \<open>
  The work of a block: the rest of the 256-bit arithmetic of \<open>node/src/storage/blockindex.rs\<close>, on four
  64-bit limbs with the least significant first.  The lemmas give each limb operation as arithmetic on
  the number the limbs denote, and the division as the quotient.
\<close>

section \<open>Limbs\<close>

definition clz64 :: "u64 \<Rightarrow> nat" where
  "clz64 w = length (takeWhile (\<lambda>k. \<not> bit w k) (rev [0..<64]))"

primrec leading_zeros_loop :: "u64 list \<Rightarrow> nat \<Rightarrow> nat" where
  "leading_zeros_loop val 0 = 256"
| "leading_zeros_loop val (Suc i) =
     (if val ! i \<noteq> 0 then (3 - i) * 64 + clz64 (val ! i) else leading_zeros_loop val i)"

definition leading_zeros_u256_le :: "u64 list \<Rightarrow> nat" where
  "leading_zeros_u256_le val = leading_zeros_loop val 4"

definition shl_u256_le :: "u64 list \<Rightarrow> nat \<Rightarrow> u64 list" where
  "shl_u256_le val shift =
     (if shift \<ge> 256 then replicate 4 0
      else let limb_shift = shift div 64; bit_shift = shift mod 64 in
        map (\<lambda>i. if i < limb_shift then 0
                 else if bit_shift > 0 \<and> i > limb_shift
                 then push_bit bit_shift (val ! (i - limb_shift)) OR drop_bit (64 - bit_shift) (val ! (i - limb_shift - 1))
                 else push_bit bit_shift (val ! (i - limb_shift))) [0..<4])"

definition shr_u256_le :: "u64 list \<Rightarrow> nat \<Rightarrow> u64 list" where
  "shr_u256_le val shift =
     (if shift \<ge> 256 then replicate 4 0
      else let limb_shift = shift div 64; bit_shift = shift mod 64 in
        map (\<lambda>i. if i \<ge> 4 - limb_shift then 0
                 else if bit_shift > 0 \<and> i + limb_shift + 1 < 4
                 then drop_bit bit_shift (val ! (i + limb_shift)) OR push_bit (64 - bit_shift) (val ! (i + limb_shift + 1))
                 else drop_bit bit_shift (val ! (i + limb_shift))) [0..<4])"

text \<open>From the most significant limb down.\<close>

primrec gte_loop :: "u64 list \<Rightarrow> u64 list \<Rightarrow> nat \<Rightarrow> bool" where
  "gte_loop a b 0 = True"
| "gte_loop a b (Suc i) = (if a ! i > b ! i then True else if a ! i < b ! i then False else gte_loop a b i)"

definition gte_u256_le :: "u64 list \<Rightarrow> u64 list \<Rightarrow> bool" where
  "gte_u256_le a b = gte_loop a b 4"

fun sub_limbs :: "u64 list \<Rightarrow> u64 list \<Rightarrow> u64 \<Rightarrow> u64 list" where
  "sub_limbs (a # as) (b # bs) borrow =
     (let diff = a - b; b1 = a < b; diff2 = diff - borrow; b2 = diff < borrow
      in diff2 # sub_limbs as bs (if b1 \<or> b2 then 1 else 0))"
| "sub_limbs _ _ borrow = []"

definition sub_u256_le :: "u64 list \<Rightarrow> u64 list \<Rightarrow> u64 list" where
  "sub_u256_le a b = sub_limbs a b 0"

text \<open>The iterations for \<open>i\<close> from \<open>n - 1\<close> down to 0.\<close>

primrec div_shift_loop :: "nat \<Rightarrow> u64 list \<Rightarrow> u64 list \<Rightarrow> u64 list \<Rightarrow> u64 list" where
  "div_shift_loop 0 rem quot shifted_div = quot"
| "div_shift_loop (Suc i) rem quot shifted_div =
     (let fits = gte_u256_le rem shifted_div;
          quot' = (if fits then quot[i div 64 := quot ! (i div 64) OR push_bit (i mod 64) 1] else quot);
          rem' = (if fits then sub_u256_le rem shifted_div else rem)
      in div_shift_loop i rem' quot' (shr_u256_le shifted_div 1))"

text \<open>The highest limb that is not zero, or 0.\<close>

primrec top_limb :: "u64 list \<Rightarrow> nat \<Rightarrow> nat" where
  "top_limb divisor 0 = 0"
| "top_limb divisor (Suc i) = (if divisor ! Suc i = 0 then top_limb divisor i else Suc i)"

definition div_u256_le :: "u64 list \<Rightarrow> u64 list \<Rightarrow> u64 list" where
  "div_u256_le numerator divisor =
     (if divisor ! top_limb divisor 3 = 0 then replicate 4 0xFFFFFFFFFFFFFFFF
      else
        let num_bits = 256 - leading_zeros_u256_le numerator;
            div_bits = 256 - leading_zeros_u256_le divisor
        in if num_bits < div_bits then replicate 4 0
           else let shift = num_bits - div_bits
             in div_shift_loop (shift + 1) numerator (replicate 4 0) (shl_u256_le divisor shift))"

section \<open>Bytes and limbs\<close>

definition from_be_bytes :: "bytes \<Rightarrow> u64" where
  "from_be_bytes bs = foldl (\<lambda>w b. push_bit 8 w OR ucast b) 0 bs"

definition to_be_bytes :: "u64 \<Rightarrow> bytes" where
  "to_be_bytes w = map (\<lambda>k. ucast (drop_bit (8 * (7 - k)) w)) [0..<8]"

definition limbs_of :: "bytes \<Rightarrow> u64 list" where
  "limbs_of bs = map (\<lambda>i. from_be_bytes (take 8 (drop ((3 - i) * 8) bs))) [0..<4]"

fun add_carry :: "u64 list \<Rightarrow> u64 \<Rightarrow> u64 list" where
  "add_carry [] carry = []"
| "add_carry (limb # rest) carry =
     (let v = limb + carry in v # add_carry rest (if v < limb then 1 else 0))"

definition div_2_256_by :: "bytes \<Rightarrow> bytes" where
  "div_2_256_by divisor =
     (let neg = map NOT divisor;
          q_le = div_u256_le (limbs_of neg) (limbs_of divisor);
          result_le = add_carry q_le 1
      in concat (map to_be_bytes (rev result_le)))"

section \<open>Work\<close>

definition be4 :: "u32 \<Rightarrow> bytes" where
  "be4 w = [ucast (drop_bit 24 w), ucast (drop_bit 16 w), ucast (drop_bit 8 w), ucast w]"

definition target_with_work :: "u32 \<Rightarrow> bytes option" where
  "target_with_work compact =
     (let sz = unat (drop_bit 24 compact);
          word0 = compact AND 0x007fffff;
          word = (if sz \<le> 3 then drop_bit (8 * (3 - sz)) word0 else word0);
          target = (if sz \<le> 3 then replicate 28 0 @ be4 word
                    else foldl (\<lambda>t (i, byte). if 31 + i < sz then t else t[31 + i - sz := byte]) ZERO32 (enumerate 0 (be4 word)));
          negative = (word \<noteq> 0 \<and> compact AND 0x00800000 \<noteq> 0);
          overflow = (word \<noteq> 0 \<and> (sz > 34 \<or> (word > 0xff \<and> sz > 33) \<or> (word > 0xffff \<and> sz > 32)))
      in if \<not> negative \<and> \<not> overflow \<and> target \<noteq> ZERO32 then Some target else None)"

definition work_for_bits :: "u32 \<Rightarrow> bytes" where
  "work_for_bits bits_u32 = (case target_with_work bits_u32 of
       None \<Rightarrow> ZERO32
     | Some target \<Rightarrow>
       let target_plus_one = add_one_u256 target in
       if target_plus_one = ZERO32 then ZERO32[31 := 1]
       else div_2_256_by target_plus_one)"

section \<open>The number limbs denote\<close>

primrec limbs_nat :: "u64 list \<Rightarrow> nat" where
  "limbs_nat [] = 0"
| "limbs_nat (w # ws) = unat w + 2 ^ 64 * limbs_nat ws"

lemma unat_u64_less: "unat (w :: u64) < 2 ^ 64"
  using unsigned_less [of w, where ?'a = nat] by simp

lemma limbs_nat_less: "limbs_nat ws < 2 ^ (64 * length ws)"
proof (induction ws)
  case (Cons w ws)
  have "unat w + 2 ^ 64 * limbs_nat ws < 2 ^ 64 * (limbs_nat ws + 1)" using unat_u64_less [of w] by simp
  also have "\<dots> \<le> 2 ^ 64 * 2 ^ (64 * length ws)" using Cons by (intro mult_le_mono2) simp
  finally show ?case by (simp add: power_add)
qed simp

lemma bit_limbs: "bit (limbs_nat ws) n \<longleftrightarrow> n div 64 < length ws \<and> bit (ws ! (n div 64)) (n mod 64)"
proof (induction ws arbitrary: n)
  case (Cons w ws)
  have e: "limbs_nat (w # ws) = unat w OR push_bit 64 (limbs_nat ws)"
    using or_push_bit_nat [of "unat w" 64 "limbs_nat ws"] unat_u64_less [of w] by (simp add: push_bit_eq_mult)
  show ?case
  proof (cases "n < 64")
    case True
    then show ?thesis unfolding e by (simp add: bit_or_iff bit_push_bit_iff bit_unsigned_iff)
  next
    case False
    then have "n div 64 = Suc ((n - 64) div 64)" "n mod 64 = (n - 64) mod 64"
      by (simp_all add: le_div_geq le_mod_geq)
    moreover have "\<not> bit w n" using False by (auto dest: bit_imp_le_length)
    ultimately show ?thesis using False Cons.IH [of "n - 64"] unfolding e
      by (simp add: bit_or_iff bit_push_bit_iff bit_unsigned_iff)
  qed
qed simp

section \<open>Shifts\<close>

lemma split_sub:
  assumes "s \<le> (n :: nat)"
  shows "s mod 64 \<le> n mod 64 \<Longrightarrow> (n - s) div 64 = n div 64 - s div 64 \<and> (n - s) mod 64 = n mod 64 - s mod 64"
    "n mod 64 < s mod 64 \<Longrightarrow> (n - s) div 64 = n div 64 - s div 64 - 1 \<and> (n - s) mod 64 = n mod 64 + (64 - s mod 64) \<and> s div 64 < n div 64"
proof -
  let ?i = "n div 64" and ?j = "n mod 64" and ?k = "s div 64" and ?l = "s mod 64"
  have n: "n = 64 * ?i + ?j" and s: "s = 64 * ?k + ?l" by simp_all
  have l: "?l < 64" "?j < 64" by simp_all
  show "(n - s) div 64 = ?i - ?k \<and> (n - s) mod 64 = ?j - ?l" if "?l \<le> ?j"
  proof -
    have k: "?k \<le> ?i" using assms by (rule div_le_mono)
    have "n - s = 64 * (?i - ?k) + (?j - ?l)" using n s that k by (simp add: diff_mult_distrib2)
    then show ?thesis using l by (simp add: div_mult_self4 mod_mult_self4 less_imp_diff_less)
  qed
  show "(n - s) div 64 = ?i - ?k - 1 \<and> (n - s) mod 64 = ?j + (64 - ?l) \<and> ?k < ?i" if "?j < ?l"
  proof -
    have k: "?k < ?i"
    proof (rule ccontr)
      assume "\<not> ?k < ?i"
      then have "64 * ?i + ?j < 64 * ?k + ?l" using that by linarith
      then show False using assms n s by linarith
    qed
    then obtain d where d: "?i = ?k + Suc d" using less_imp_Suc_add by fastforce
    have "x - y = 64 * d + (j + (64 - l))" if "x = 64 * (k + Suc d) + j" "y = 64 * k + l" "j < l" "l < 64" for x y j k l :: nat
      using that by simp
    moreover have "n = 64 * (?k + Suc d) + ?j" using n d by simp
    ultimately have "n - s = 64 * d + (?j + (64 - ?l))" using s that l by blast
    moreover have "?j + (64 - ?l) < 64" using that l by linarith
    moreover have "x div 64 = d \<and> x mod 64 = r" if "x = 64 * d + r" "r < 64" for x r :: nat
      using that by simp
    moreover have "?i - ?k - 1 = d" using d by simp
    ultimately show ?thesis using k by simp
  qed
qed

lemma length_shifts [simp]: "length (shl_u256_le val s) = 4" "length (shr_u256_le val s) = 4"
  by (simp_all add: shl_u256_le_def shr_u256_le_def Let_def)

lemma nth_shl:
  assumes "i < 4" "s < 256"
  shows "shl_u256_le val s ! i = (if i < s div 64 then 0
    else if s mod 64 > 0 \<and> i > s div 64
    then push_bit (s mod 64) (val ! (i - s div 64)) OR drop_bit (64 - s mod 64) (val ! (i - s div 64 - 1))
    else push_bit (s mod 64) (val ! (i - s div 64)))"
  using assms by (simp add: shl_u256_le_def Let_def)

lemma nth_shr1:
  assumes "i < 4"
  shows "shr_u256_le val 1 ! i = (if i + 1 < 4 then drop_bit 1 (val ! i) OR push_bit 63 (val ! (i + 1)) else drop_bit 1 (val ! i))"
  using assms by (simp add: shr_u256_le_def Let_def)

lemma shl_limbs:
  assumes "length val = 4" "s < 256"
  shows "limbs_nat (shl_u256_le val s) = (limbs_nat val * 2 ^ s) mod 2 ^ 256"
proof -
  have "bit (limbs_nat (shl_u256_le val s)) n \<longleftrightarrow> bit (take_bit 256 (push_bit s (limbs_nat val))) n" for n
  proof (cases "n < 256 \<and> s \<le> n")
    case True
    have i: "n div 64 < 4" "s div 64 \<le> n div 64" "n div 64 - s div 64 < 4" "n div 64 - s div 64 - 1 < 4"
      using True by (auto intro: div_le_mono less_imp_diff_less)
    have r: "bit (take_bit 256 (push_bit s (limbs_nat val))) n \<longleftrightarrow> (n - s) div 64 < 4 \<and> bit (val ! ((n - s) div 64)) ((n - s) mod 64)"
      using True assms(1) by (simp add: bit_take_bit_iff bit_push_bit_iff bit_limbs)
    show ?thesis
    proof (cases "s mod 64 \<le> n mod 64")
      case le: True
      have "\<not> bit (drop_bit (64 - s mod 64) w) (n mod 64)" if "0 < s mod 64" for w :: u64
        using that le by (auto simp: bit_drop_bit_eq dest: bit_imp_le_length)
      then show ?thesis
        unfolding r using split_sub(1) [of s n] True le i assms
        by (auto simp: bit_limbs nth_shl bit_or_iff bit_push_bit_iff)
    next
      case False
      then show ?thesis
        unfolding r using split_sub(2) [of s n] True i assms
        by (auto simp: bit_limbs nth_shl bit_or_iff bit_push_bit_iff bit_drop_bit_eq add.commute)
    qed
  next
    case False
    then have r: "\<not> bit (take_bit 256 (push_bit s (limbs_nat val))) n" by (auto simp: bit_take_bit_iff bit_push_bit_iff)
    have "\<not> bit (limbs_nat (shl_u256_le val s)) n"
    proof
      assume b: "bit (limbs_nat (shl_u256_le val s)) n"
      then have n: "n div 64 < 4" by (simp add: bit_limbs)
      then have lt: "n < s" using False by auto
      then have "n div 64 \<le> s div 64" by (intro div_le_mono) simp
      moreover have "n mod 64 < s mod 64" if "n div 64 = s div 64"
        using lt that by (metis div_mult_mod_eq nat_add_left_cancel_less)
      ultimately show False
        using b n assms by (auto simp: bit_limbs nth_shl bit_push_bit_iff split: if_splits)
    qed
    then show ?thesis using r by blast
  qed
  then have "limbs_nat (shl_u256_le val s) = take_bit 256 (push_bit s (limbs_nat val))" by (rule bit_eqI)
  then show ?thesis by (simp add: take_bit_eq_mod push_bit_eq_mult)
qed

lemma shr1_limbs:
  assumes "length val = 4"
  shows "limbs_nat (shr_u256_le val 1) = limbs_nat val div 2"
proof -
  have "bit (limbs_nat (shr_u256_le val 1)) n \<longleftrightarrow> bit (drop_bit 1 (limbs_nat val)) n" for n
  proof (cases "n mod 64 = 63")
    case True
    then have "Suc n div 64 = Suc (n div 64)" "Suc n mod 64 = 0" by (simp_all add: div_Suc mod_Suc)
    moreover have "\<not> bit w 64" for w :: u64 by (auto dest: bit_imp_le_length)
    ultimately show ?thesis
      using True assms by (auto simp: bit_limbs nth_shr1 [unfolded One_nat_def] bit_drop_bit_eq bit_or_iff bit_push_bit_iff dest: bit_imp_le_length split: if_splits)
  next
    case False
    moreover have "n mod 64 < 64" by simp
    ultimately have "Suc n div 64 = n div 64" "Suc n mod 64 = Suc (n mod 64)" "\<not> 63 \<le> n mod 64"
      by (simp_all add: div_Suc mod_Suc)
    then show ?thesis
      using assms by (auto simp: bit_limbs nth_shr1 [unfolded One_nat_def] bit_drop_bit_eq bit_or_iff bit_push_bit_iff split: if_splits)
  qed
  then have "limbs_nat (shr_u256_le val 1) = drop_bit 1 (limbs_nat val)" by (rule bit_eqI)
  then show ?thesis by (simp add: drop_bit_eq_div)
qed

section \<open>Comparison and subtraction\<close>

lemma gte_loop_limbs:
  "n \<le> length a \<Longrightarrow> n \<le> length b \<Longrightarrow> gte_loop a b n \<longleftrightarrow> limbs_nat (take n b) \<le> limbs_nat (take n a)"
proof (induction n)
  case (Suc n)
  have snoc: "limbs_nat (ws @ [w]) = limbs_nat ws + 2 ^ (64 * length ws) * unat w" for ws w
    by (induction ws) (simp_all add: algebra_simps power_add)
  have t: "limbs_nat (take (Suc n) x) = limbs_nat (take n x) + 2 ^ (64 * n) * unat (x ! n)" if "Suc n \<le> length x" for x
    using that snoc [of "take n x" "x ! n"] by (simp add: take_Suc_conv_app_nth)
  have lt: "limbs_nat (take n x) < 2 ^ (64 * n)" if "Suc n \<le> length x" for x
    using limbs_nat_less [of "take n x"] that by (simp add: min_def)
  have order: "x + p * u < y + p * v" if "u < v" "x < p" for x y p u v :: nat
  proof -
    have "x + p * u < p * Suc u" using that(2) by simp
    also have "\<dots> \<le> p * v" using that(1) by (intro mult_le_mono2) simp
    finally show ?thesis by simp
  qed
  show ?case
    using Suc t [of a] t [of b] order [of "unat (a ! n)" "unat (b ! n)" "limbs_nat (take n a)" "2 ^ (64 * n)" "limbs_nat (take n b)"]
      order [of "unat (b ! n)" "unat (a ! n)" "limbs_nat (take n b)" "2 ^ (64 * n)" "limbs_nat (take n a)"] lt [of a] lt [of b]
    by (auto simp: word_less_nat_alt word_unat_eq_iff not_less)
qed simp

lemma gte_limbs: "length a = 4 \<Longrightarrow> length b = 4 \<Longrightarrow> gte_u256_le a b \<longleftrightarrow> limbs_nat b \<le> limbs_nat a"
  using gte_loop_limbs [of 4 a b] by (simp add: gte_u256_le_def)

lemma unat_sub_wrap: "int (unat (a - b :: 'a::len word)) = int (unat a) - int (unat b) + (if a < b then 2 ^ LENGTH('a) else 0)"
proof -
  have "int (unat a) < 2 ^ LENGTH('a)" "int (unat b) < 2 ^ LENGTH('a)" by (simp_all only: of_nat_unat uint_lt2p)
  then show ?thesis
    using uint_sub_if' [of a b] by (simp add: word_less_def not_less)
qed

lemma sub_limbs_int:
  "length as = length bs \<Longrightarrow> unat borrow \<le> 1 \<Longrightarrow> \<exists>out \<in> {0, 1}.
    int (limbs_nat (sub_limbs as bs borrow)) = int (limbs_nat as) - int (limbs_nat bs) - int (unat borrow) + out * 2 ^ (64 * length as)"
proof (induction as bs arbitrary: borrow rule: list_induct2)
  case (Cons a as b bs)
  let ?diff = "a - b" and ?nb = "if a < b \<or> a - b < borrow then 1 else 0 :: u64"
  have d: "int (unat ?diff) = int (unat a) - int (unat b) + (if a < b then 2 ^ 64 else 0)"
    "int (unat (?diff - borrow)) = int (unat ?diff) - int (unat borrow) + (if ?diff < borrow then 2 ^ 64 else 0)"
    using unat_sub_wrap [of a b] unat_sub_wrap [of ?diff borrow] by simp_all
  have ex: "\<not> (a < b \<and> ?diff < borrow)"
  proof
    assume x: "a < b \<and> ?diff < borrow"
    then have "unat ?diff = 0" using Cons.prems by (simp add: word_less_nat_alt)
    then show False using d(1) x unat_u64_less [of b] by (simp del: of_nat_unat)
  qed
  then have nb: "int (unat (?diff - borrow)) = int (unat a) - int (unat b) - int (unat borrow) + 2 ^ 64 * int (unat ?nb)"
    using d by auto
  have "unat ?nb \<le> 1" by simp
  then obtain out where o: "out \<in> {0, 1}" "int (limbs_nat (sub_limbs as bs ?nb))
      = int (limbs_nat as) - int (limbs_nat bs) - int (unat ?nb) + out * 2 ^ (64 * length as)"
    using Cons.IH by blast
  have "int (limbs_nat (sub_limbs (a # as) (b # bs) borrow)) = int (limbs_nat (a # as)) - int (limbs_nat (b # bs))
      - int (unat borrow) + out * 2 ^ (64 * length (a # as))"
  proof -
    have "int (limbs_nat (sub_limbs (a # as) (b # bs) borrow)) = int (unat (?diff - borrow)) + 2 ^ 64 * int (limbs_nat (sub_limbs as bs ?nb))"
      by (simp add: Let_def del: of_nat_unat)
    then show ?thesis unfolding nb o(2) by (simp add: algebra_simps power_add del: of_nat_unat)
  qed
  then show ?case using o(1) by blast
next
  case Nil
  then have "unat borrow = 0 \<or> unat borrow = 1" by linarith
  then show ?case by (intro bexI [of _ "int (unat borrow)"]) (auto simp del: of_nat_unat)
qed

lemma length_sub_limbs: "length as = length bs \<Longrightarrow> length (sub_limbs as bs borrow) = length as"
  by (induction as bs arbitrary: borrow rule: list_induct2) (simp_all add: Let_def)

lemma sub_limbs_nat:
  assumes "length a = 4" "length b = 4" "limbs_nat b \<le> limbs_nat a"
  shows "limbs_nat (sub_u256_le a b) = limbs_nat a - limbs_nat b" "length (sub_u256_le a b) = 4"
proof -
  show len: "length (sub_u256_le a b) = 4" using assms by (simp add: sub_u256_le_def length_sub_limbs)
  obtain out where o: "out \<in> {0, 1}" "int (limbs_nat (sub_u256_le a b)) = int (limbs_nat a) - int (limbs_nat b) + out * 2 ^ 256"
    using sub_limbs_int [of a b 0] assms by (auto simp: sub_u256_le_def)
  have "limbs_nat (sub_u256_le a b) < 2 ^ 256" using limbs_nat_less [of "sub_u256_le a b"] len by simp
  then have "int (limbs_nat (sub_u256_le a b)) < 2 ^ 256" by (simp only: of_nat_less_numeral_power_cancel_iff)
  then have "out = 0" using o assms(3) by auto
  then show "limbs_nat (sub_u256_le a b) = limbs_nat a - limbs_nat b" using o(2) assms(3) by simp
qed

section \<open>Bit lengths\<close>

lemma clz64_bounds:
  assumes "w \<noteq> 0"
  shows "clz64 w < 64" "2 ^ (63 - clz64 w) \<le> unat w" "unat w < 2 ^ (64 - clz64 w)"
proof -
  let ?t = "takeWhile (\<lambda>k. \<not> bit w k) (rev [0..<64])"
  obtain k where k: "bit w k" "k < 64" using assms by (auto simp: bit_eq_iff dest: bit_imp_le_length)
  have "?t \<noteq> rev [0..<64]" using k by (auto simp: takeWhile_eq_all_conv)
  then have lt: "length ?t < 64" using length_takeWhile_le [of _ "rev [0..<64]"] takeWhile_eq_take
    by (metis (no_types, lifting) diff_zero length_rev length_upt nat_less_le takeWhile_eq_all_conv take_all_iff)
  then show "clz64 w < 64" by (simp add: clz64_def)
  have n: "bit w (63 - clz64 w)"
    using nth_length_takeWhile [of "\<lambda>k. \<not> bit w k" "rev [0..<64]"] lt by (simp add: clz64_def rev_nth)
  then have "bit (unat w) (63 - clz64 w)" by (simp add: bit_unsigned_iff)
  then show "2 ^ (63 - clz64 w) \<le> unat w" by (metis bit_nat_iff bit_iff_odd div_less even_zero not_le)
  have hi: "\<not> bit w m" if "64 - clz64 w \<le> m" for m
  proof (cases "m < 64")
    case True
    then have "63 - m < length ?t" using that by (simp add: clz64_def)
    then have "rev [0..<64] ! (63 - m) \<in> set ?t" by (metis nth_mem takeWhile_nth)
    moreover have "rev [0..<64] ! (63 - m) = m" using True by (simp add: rev_nth)
    ultimately show ?thesis by (metis set_takeWhileD)
  qed (auto dest: bit_imp_le_length)
  have "take_bit (64 - clz64 w) (unat w) = unat w"
    by (rule bit_eqI) (use hi not_le in \<open>auto simp: bit_take_bit_iff bit_unsigned_iff\<close>)
  then show "unat w < 2 ^ (64 - clz64 w)" by (metis take_bit_nat_less_exp)
qed

definition bits_of :: "u64 list \<Rightarrow> nat" where
  "bits_of val = 256 - leading_zeros_u256_le val"

lemma limbs_nat_top:
  assumes "i < length val" "\<forall>k. i < k \<and> k < length val \<longrightarrow> val ! k = 0"
  shows "limbs_nat val = limbs_nat (take i val) + 2 ^ (64 * i) * unat (val ! i)"
proof -
  have app: "limbs_nat (xs @ ys) = limbs_nat xs + 2 ^ (64 * length xs) * limbs_nat ys" for xs ys
    by (induction xs) (simp_all add: algebra_simps power_add)
  have "limbs_nat ws = 0" if "\<forall>w \<in> set ws. w = 0" for ws using that by (induction ws) simp_all
  moreover have "w = 0" if w: "w \<in> set (drop (Suc i) val)" for w
  proof -
    obtain k where "k < length val - Suc i" "w = val ! (Suc i + k)" using w by (auto simp: in_set_conv_nth)
    then show ?thesis using assms(2) by simp
  qed
  ultimately have "limbs_nat (drop (Suc i) val) = 0" by blast
  moreover have "val = take i val @ val ! i # drop (Suc i) val" using assms(1) by (rule id_take_nth_drop)
  ultimately show ?thesis using app [of "take i val" "val ! i # drop (Suc i) val"] assms(1) by (simp add: min_def)
qed

lemma leading_zeros_facts:
  assumes "length val = 4"
  shows "n \<le> 4 \<Longrightarrow> \<forall>k. n \<le> k \<and> k < 4 \<longrightarrow> val ! k = 0 \<Longrightarrow>
    (if limbs_nat val = 0 then leading_zeros_loop val n = 256
     else leading_zeros_loop val n < 256 \<and> 2 ^ (255 - leading_zeros_loop val n) \<le> limbs_nat val
       \<and> limbs_nat val < 2 ^ (256 - leading_zeros_loop val n))"
proof (induction n)
  case 0
  then have "\<forall>w \<in> set val. w = 0" using assms by (auto simp: in_set_conv_nth)
  then have "limbs_nat val = 0" by (induction val) simp_all
  then show ?case by simp
next
  case (Suc n)
  show ?case
  proof (cases "val ! n = 0")
    case True
    then have "\<forall>k. n \<le> k \<and> k < 4 \<longrightarrow> val ! k = 0" using Suc.prems(2) by (metis le_neq_implies_less Suc_leI)
    then show ?thesis using Suc.IH Suc.prems(1) True by simp
  next
    case False
    note c = clz64_bounds [OF False]
    let ?p = "2 ^ (64 * n) :: nat"
    have top: "limbs_nat val = limbs_nat (take n val) + ?p * unat (val ! n)"
      using Suc.prems assms by (intro limbs_nat_top) (auto simp: Suc_le_eq)
    have lo: "limbs_nat (take n val) < ?p" using limbs_nat_less [of "take n val"] assms Suc.prems(1) by (simp add: min_def)
    have e: "255 - ((3 - n) * 64 + clz64 (val ! n)) = 64 * n + (63 - clz64 (val ! n))"
      "256 - ((3 - n) * 64 + clz64 (val ! n)) = 64 * n + (64 - clz64 (val ! n))" "(3 - n) * 64 + clz64 (val ! n) < 256"
      using c(1) Suc.prems(1) by auto
    have low: "?p * 2 ^ (63 - clz64 (val ! n)) \<le> limbs_nat val"
      unfolding top using mult_le_mono2 [OF c(2), of ?p] by linarith
    have "limbs_nat val < ?p * Suc (unat (val ! n))" unfolding top using lo by simp
    also have "\<dots> \<le> ?p * 2 ^ (64 - clz64 (val ! n))" using c(3) by (intro mult_le_mono2) simp
    finally have "limbs_nat val < ?p * 2 ^ (64 - clz64 (val ! n))" .
    moreover have "0 < limbs_nat val" by (rule less_le_trans [OF _ low]) simp
    moreover have "leading_zeros_loop val (Suc n) = (3 - n) * 64 + clz64 (val ! n)" using False by simp
    ultimately show ?thesis using low e(3) by (simp only: e power_add) simp
  qed
qed

lemma bits_of_bounds:
  assumes "length val = 4" "limbs_nat val \<noteq> 0"
  shows "0 < bits_of val" "bits_of val \<le> 256" "2 ^ (bits_of val - 1) \<le> limbs_nat val" "limbs_nat val < 2 ^ bits_of val"
proof -
  have "\<forall>k. 4 \<le> k \<and> k < 4 \<longrightarrow> val ! k = 0" by auto
  from leading_zeros_facts [OF assms(1) order_refl this] assms(2)
  show "0 < bits_of val" "bits_of val \<le> 256" "2 ^ (bits_of val - 1) \<le> limbs_nat val" "limbs_nat val < 2 ^ bits_of val"
    by (simp_all add: bits_of_def leading_zeros_u256_le_def)
qed

lemma bits_of_zero: "length val = 4 \<Longrightarrow> limbs_nat val = 0 \<Longrightarrow> bits_of val = 0"
  using leading_zeros_facts [of val 4] by (force simp: bits_of_def leading_zeros_u256_le_def)

section \<open>Division\<close>

lemma set_quot_bit:
  assumes "length quot = 4" "i < 256" "2 ^ Suc i dvd limbs_nat quot"
  shows "limbs_nat (quot[i div 64 := quot ! (i div 64) OR push_bit (i mod 64) 1]) = limbs_nat quot + 2 ^ i"
proof -
  have "limbs_nat (quot[i div 64 := quot ! (i div 64) OR push_bit (i mod 64) 1]) = limbs_nat quot OR 2 ^ i"
  proof (rule bit_eqI)
    fix n
    have "n div 64 = i div 64 \<and> n mod 64 = i mod 64 \<longleftrightarrow> n = i" by (metis div_mult_mod_eq)
    then show "bit (limbs_nat (quot[i div 64 := quot ! (i div 64) OR push_bit (i mod 64) 1])) n \<longleftrightarrow> bit (limbs_nat quot OR 2 ^ i) n"
      using assms(1,2) by (auto simp: bit_limbs bit_or_iff bit_exp_iff nth_list_update bit_push_bit_iff bit_1_iff possible_bit_def)
  qed
  moreover have "limbs_nat quot AND 2 ^ i = 0"
  proof (rule bit_eqI)
    fix n
    obtain q where "limbs_nat quot = 2 ^ i * (2 * q)" using assms(3) by (auto elim!: dvdE)
    then have "limbs_nat quot div 2 ^ i = 2 * q" by simp
    then have "\<not> bit (limbs_nat quot) i" by (simp add: bit_iff_odd)
    then show "bit (limbs_nat quot AND 2 ^ i) n \<longleftrightarrow> bit 0 n" by (auto simp: bit_and_iff bit_exp_iff)
  qed
  ultimately show ?thesis by (simp add: disjunctive_add_eq_or)
qed

lemma div_shift_loop_quot:
  assumes "0 < d"
  shows "length rem = 4 \<Longrightarrow> length quot = 4 \<Longrightarrow> length sd = 4 \<Longrightarrow> n \<le> 256 \<Longrightarrow> (0 < n \<longrightarrow> limbs_nat sd = d * 2 ^ (n - 1)) \<Longrightarrow>
    limbs_nat rem < d * 2 ^ n \<Longrightarrow> 2 ^ n dvd limbs_nat quot \<Longrightarrow>
    limbs_nat (div_shift_loop n rem quot sd) = limbs_nat quot + limbs_nat rem div d \<and> length (div_shift_loop n rem quot sd) = 4"
proof (induction n arbitrary: rem quot sd)
  case (Suc i)
  let ?r = "limbs_nat rem" and ?b = "d * 2 ^ i"
  have sd: "limbs_nat sd = ?b" using Suc.prems(5) by simp
  have sd': "0 < i \<longrightarrow> limbs_nat (shr_u256_le sd 1) = d * 2 ^ (i - 1)"
    using shr1_limbs [OF Suc.prems(3)] sd by (cases i) simp_all
  have two: "2 ^ i dvd (2 :: nat) ^ Suc i" by simp
  show ?case
  proof (cases "?b \<le> ?r")
    case True
    let ?rem = "sub_u256_le rem sd" and ?quot = "quot[i div 64 := quot ! (i div 64) OR push_bit (i mod 64) 1]"
    have r: "limbs_nat ?rem = ?r - ?b" "length ?rem = 4"
      using sub_limbs_nat [OF Suc.prems(1,3)] sd True by simp_all
    have q: "limbs_nat ?quot = limbs_nat quot + 2 ^ i" using Suc.prems(2,4,7) by (intro set_quot_bit) simp_all
    have "?r < 2 * ?b" using Suc.prems(6) by simp
    then have lt: "limbs_nat ?rem < ?b" using r(1) True by linarith
    have dv: "2 ^ i dvd limbs_nat ?quot" unfolding q using Suc.prems(7) two by (meson dvd_add dvd_refl dvd_trans)
    have "?r = 2 ^ i * d + (?r - ?b)" using True by (simp add: mult.commute)
    then have "?r div d = 2 ^ i + (?r - ?b) div d" using assms by (metis div_mult_self3 less_numeral_extra(3))
    then show ?thesis
      using Suc.IH [of ?rem ?quot "shr_u256_le sd 1", OF r(2) _ _ _ sd' lt dv] Suc.prems(2,4) True gte_limbs [OF Suc.prems(1,3)] sd q r(1)
      by (simp add: Let_def)
  next
    case False
    have dv: "2 ^ i dvd limbs_nat quot" using Suc.prems(7) two by (rule dvd_trans [rotated])
    have lt: "limbs_nat rem < ?b" using False by simp
    show ?thesis
      using Suc.IH [of rem quot "shr_u256_le sd 1", OF Suc.prems(1,2) _ _ sd' lt dv] Suc.prems(4) False gte_limbs [OF Suc.prems(1,3)] sd
      by (simp add: Let_def)
  qed
qed simp

lemma top_limb_zero: "\<forall>k. n < k \<and> k \<le> 3 \<longrightarrow> l ! k = 0 \<Longrightarrow> n \<le> 3 \<Longrightarrow> l ! top_limb l n = 0 \<longleftrightarrow> (\<forall>k \<le> 3. l ! k = 0)"
proof (induction n)
  case 0
  then show ?case by (metis gr0I top_limb.simps(1) zero_le)
next
  case (Suc n)
  show ?case
  proof (cases "l ! Suc n = 0")
    case True
    then have "\<forall>k. n < k \<and> k \<le> 3 \<longrightarrow> l ! k = 0" using Suc.prems(1) by (metis Suc_lessI)
    then show ?thesis using Suc True by simp
  next
    case False
    then show ?thesis using Suc.prems(2) by (auto intro: exI [of _ "Suc n"])
  qed
qed

lemma limbs_nat_zero: "limbs_nat ws = 0 \<longleftrightarrow> (\<forall>w \<in> set ws. w = 0)"
  by (induction ws) (auto simp: unat_eq_0)

lemma div_limbs:
  assumes "length n = 4" "length d = 4" "limbs_nat d \<noteq> 0"
  shows "limbs_nat (div_u256_le n d) = limbs_nat n div limbs_nat d" "length (div_u256_le n d) = 4"
proof -
  let ?n = "limbs_nat n" and ?d = "limbs_nat d" and ?s = "bits_of n - bits_of d"
  have d: "0 < bits_of d" "bits_of d \<le> 256" "2 ^ (bits_of d - 1) \<le> ?d" "?d < 2 ^ bits_of d"
    using bits_of_bounds [OF assms(2,3)] by simp_all
  have nz: "d ! top_limb d 3 \<noteq> 0"
  proof
    assume "d ! top_limb d 3 = 0"
    moreover have "\<forall>k. 3 < k \<and> k \<le> 3 \<longrightarrow> d ! k = 0" by auto
    ultimately have "\<forall>k \<le> 3. d ! k = 0" using top_limb_zero [of 3 d] by blast
    then show False using assms(2,3) unfolding limbs_nat_zero by (auto simp: in_set_conv_nth)
  qed
  have n: "bits_of n \<le> 256" "?n < 2 ^ bits_of n"
    using bits_of_bounds [OF assms(1)] bits_of_zero [OF assms(1)] by (cases "?n = 0"; simp)+
  have "limbs_nat (div_u256_le n d) = ?n div ?d \<and> length (div_u256_le n d) = 4"
  proof (cases "bits_of n < bits_of d")
    case True
    then have "(2 :: nat) ^ bits_of n \<le> 2 ^ (bits_of d - 1)" using d(1) by (intro power_increasing) simp_all
    then have "?n < ?d" using n(2) d(3) by linarith
    then show ?thesis using nz True by (simp add: div_u256_le_def bits_of_def [symmetric] Let_def limbs_nat_zero)
  next
    case False
    have s: "?s < 256" using d(1) n(1) by linarith
    have sum: "bits_of d + ?s = bits_of n" using False by simp
    have "?d * 2 ^ ?s < 2 ^ bits_of d * 2 ^ ?s" using d(4) by simp
    also have "\<dots> = 2 ^ bits_of n" by (simp add: sum power_add [symmetric])
    also have "\<dots> \<le> 2 ^ 256" using n(1) by (intro power_increasing) simp_all
    finally have sd: "limbs_nat (shl_u256_le d ?s) = ?d * 2 ^ ?s" using shl_limbs [OF assms(2) s] by simp
    have e: "bits_of n = bits_of d - 1 + (?s + 1)" using d(1) sum by simp
    have "2 ^ bits_of n = 2 ^ (bits_of d - 1) * (2 :: nat) ^ (?s + 1)" by (subst e) (rule power_add)
    also have "\<dots> \<le> ?d * 2 ^ (?s + 1)" using d(3) by (rule mult_le_mono1)
    finally have lt: "?n < ?d * 2 ^ (?s + 1)" using n(2) by linarith
    have z: "limbs_nat (replicate 4 0) = 0" by (simp add: limbs_nat_zero)
    have "limbs_nat (div_shift_loop (?s + 1) n (replicate 4 0) (shl_u256_le d ?s)) = limbs_nat (replicate 4 0) + ?n div ?d
        \<and> length (div_shift_loop (?s + 1) n (replicate 4 0) (shl_u256_le d ?s)) = 4"
      using s sd lt assms by (intro div_shift_loop_quot) (simp_all add: z)
    then show ?thesis using z nz False by (simp add: div_u256_le_def bits_of_def [symmetric] Let_def)
  qed
  then show "limbs_nat (div_u256_le n d) = limbs_nat n div limbs_nat d" "length (div_u256_le n d) = 4" by blast+
qed

section \<open>Bytes\<close>

lemma from_be_bytes_nat: "length bs \<le> 8 \<Longrightarrow> unat (from_be_bytes bs) = be_nat bs"
proof (induction bs rule: rev_induct)
  case (snoc b bs)
  let ?w = "from_be_bytes bs"
  have u: "unat ?w = be_nat bs" using snoc by simp
  have "be_nat bs < 256 ^ length bs" by (rule be_nat_less)
  also have "\<dots> \<le> 256 ^ 7" using snoc.prems by (intro power_increasing) simp_all
  finally have lt: "unat ?w * 256 < 2 ^ 64" unfolding u by simp
  have s: "unat (push_bit 8 ?w) = unat ?w * 256"
    using lt by (subst unsigned_push_bit_eq) (simp add: push_bit_eq_mult take_bit_eq_mod)
  have "unat (push_bit 8 ?w OR ucast b) = (unat ?w * 256) OR unat b"
    using s by (simp only: unsigned_or_eq unat_ucast_u64)
  also have "\<dots> = unat b + 256 * unat ?w"
    using or_push_bit_nat [of "unat b" 8 "unat ?w"] by (simp add: or.commute push_bit_eq_mult)
  finally show ?case by (simp add: from_be_bytes_def be_nat_append be_nat_Cons u [unfolded from_be_bytes_def])
qed (simp add: from_be_bytes_def)

lemma limbs_of_nat:
  assumes "length bs = 32"
  shows "limbs_nat (limbs_of bs) = be_nat bs" "length (limbs_of bs) = 4"
proof -
  let ?c = "\<lambda>k. take 8 (drop (8 * k) bs)"
  have ch: "drop n bs = take 8 (drop n bs) @ drop (n + 8) bs" for n
    using append_take_drop_id [of 8 "drop n bs"] by (simp add: add.commute)
  have "bs = ?c 0 @ ?c 1 @ ?c 2 @ ?c 3 @ drop 32 bs"
    using ch [of 0] ch [of 8] ch [of 16] ch [of 24] by simp
  then have "be_nat bs = be_nat (?c 0 @ ?c 1 @ ?c 2 @ ?c 3)" using assms by simp
  then have "be_nat bs = ((be_nat (?c 0) * 2 ^ 64 + be_nat (?c 1)) * 2 ^ 64 + be_nat (?c 2)) * 2 ^ 64 + be_nat (?c 3)"
    using assms by (simp add: be_nat_append)
  moreover have "[0..<4] = [0, 1, 2, 3 :: nat]" by (simp add: upt_rec)
  moreover have "unat (from_be_bytes (take 8 xs)) = be_nat (take 8 xs)" for xs
    by (rule from_be_bytes_nat) simp
  ultimately show "limbs_nat (limbs_of bs) = be_nat bs" by (simp add: limbs_of_def)
  show "length (limbs_of bs) = 4" by (simp add: limbs_of_def)
qed

lemma to_be_bytes_nat: "be_nat (to_be_bytes w) = unat w" "length (to_be_bytes w) = 8"
proof -
  show "length (to_be_bytes w) = 8" by (simp add: to_be_bytes_def)
  have g: "be_nat (map (\<lambda>k. ucast (drop_bit (8 * (n - Suc k)) w)) [0..<n]) = unat w mod 256 ^ n" for n
  proof (induction n)
    case (Suc n)
    have "[0..<Suc n] = 0 # map Suc [0..<n]" by (simp add: upt_conv_Cons map_Suc_upt del: upt_Suc)
    moreover have "unat (drop_bit (8 * n) w) = unat w div 256 ^ n"
      by (simp only: unat_drop_bit_eq drop_bit_eq_div [where ?'a = nat] power_mult) simp
    moreover have "unat w div 256 ^ n mod 256 * 256 ^ n + unat w mod 256 ^ n = unat w mod 256 ^ Suc n"
      using mod_mult2_eq [of "unat w" "256 ^ n" 256] by (simp add: mult.commute)
    ultimately show ?case using Suc by (simp add: be_nat_Cons unat_ucast_byte o_def del: upt_Suc)
  qed simp
  show "be_nat (to_be_bytes w) = unat w"
    using g [of 8] unat_u64_less [of w] by (simp add: to_be_bytes_def)
qed

lemma limbs_to_bytes: "be_nat (concat (map to_be_bytes (rev ws))) = limbs_nat ws" "length (concat (map to_be_bytes (rev ws))) = 8 * length ws"
  by (induction ws) (simp_all add: be_nat_append to_be_bytes_nat)

lemma be_nat_not: "be_nat (map NOT bs) = 256 ^ length bs - 1 - be_nat bs"
proof -
  have n: "unat (NOT b) = 255 - unat b" for b :: byte
  proof -
    have "NOT b = 255 - b" by (simp add: not_eq_complement minus_1_eq_mask mask_eq_exp_minus_1 algebra_simps)
    moreover have "b \<le> 255" using unat_byte_less [of b] by (simp add: word_le_nat_alt)
    ultimately show ?thesis by (simp add: unat_sub)
  qed
  have "be_nat (map NOT bs) + be_nat bs = 256 ^ length bs - 1"
  proof (induction bs)
    case (Cons b bs)
    have "unat b \<le> 255" using unat_byte_less [of b] by simp
    then have "(255 - unat b) * 256 ^ length bs + unat b * 256 ^ length bs = 255 * 256 ^ length bs"
      by (simp add: add_mult_distrib [symmetric])
    moreover have "(1 :: nat) \<le> 256 ^ length bs" by simp
    ultimately show ?case using Cons by (simp add: be_nat_Cons n)
  qed simp
  then show ?thesis by simp
qed

lemma add_carry_nat: "unat c \<le> 1 \<Longrightarrow> limbs_nat (add_carry ws c) = (limbs_nat ws + unat c) mod 2 ^ (64 * length ws) \<and> length (add_carry ws c) = length ws"
proof (induction ws arbitrary: c)
  case (Cons w ws)
  let ?v = "w + c" and ?k = "if w + c < w then 1 else 0 :: u64"
  have v: "unat ?v = unat w + unat c - (if ?v < w then 2 ^ 64 else 0)" "?v < w \<Longrightarrow> 2 ^ 64 \<le> unat w + unat c"
    using unat_plus_if' [of w c] unat_u64_less [of w] unat_u64_less [of c] Cons.prems by (auto simp: word_less_nat_alt split: if_splits)
  then have split: "unat w + unat c = unat ?v + 2 ^ 64 * unat ?k" by auto
  have ih: "limbs_nat (add_carry ws ?k) = (limbs_nat ws + unat ?k) mod 2 ^ (64 * length ws) \<and> length (add_carry ws ?k) = length ws"
    by (rule Cons.IH) simp
  have e: "limbs_nat (w # ws) + unat c = unat ?v + 2 ^ 64 * (limbs_nat ws + unat ?k)"
    "(2 :: nat) ^ (64 * length (w # ws)) = 2 ^ 64 * 2 ^ (64 * length ws)"
    using split by (simp_all add: power_add)
  have m: "(unat ?v + 2 ^ 64 * x) mod (2 ^ 64 * y) = unat ?v + 2 ^ 64 * (x mod y)" for x y
    using mod_mult2_eq [of "unat ?v + 2 ^ 64 * x" "2 ^ 64" y] unat_u64_less [of ?v] by simp
  have "(limbs_nat (w # ws) + unat c) mod 2 ^ (64 * length (w # ws)) = unat ?v + 2 ^ 64 * ((limbs_nat ws + unat ?k) mod 2 ^ (64 * length ws))"
    unfolding e by (rule m)
  then show ?case using ih by (simp add: Let_def)
qed simp

lemma add_one_nat: "be_nat (add_one_u256 a) = (be_nat a + 1) mod 256 ^ length a" "length (add_one_u256 a) = length a"
proof -
  have "le_nat (add_one_loop bs) = (le_nat bs + 1) mod 256 ^ length bs \<and> length (add_one_loop bs) = length bs" for bs
  proof (induction bs)
    case (Cons b bs)
    have lt: "le_nat (b # bs) < 256 ^ length (b # bs)" by (rule le_nat_less)
    show ?case
    proof (cases "b + 1 = 0")
      case True
      then have "b = - 1" by (simp add: eq_neg_iff_add_eq_0)
      then have "unat b = 255" by (simp add: unsigned_minus_1_eq_mask mask_eq_exp_minus_1)
      moreover have "(255 + 256 * x + 1) mod (256 * y) = 256 * (Suc x mod y)" for x y :: nat
        unfolding mult_mod_right by simp
      ultimately show ?thesis using Cons True by simp
    next
      case False
      then have "unat (b + 1) = unat b + 1" using unatSuc [of b] by (simp add: add.commute)
      moreover have "unat (b + 1) < 256" by (rule unat_byte_less)
      moreover have "le_nat bs < 256 ^ length bs" by (rule le_nat_less)
      ultimately show ?thesis using False by simp
    qed
  qed simp
  from this [of "rev a"] show "be_nat (add_one_u256 a) = (be_nat a + 1) mod 256 ^ length a" "length (add_one_u256 a) = length a"
    by (simp_all add: add_one_u256_def be_nat_def)
qed

lemma div_2_256_nat:
  assumes "length d = 32" "be_nat d \<noteq> 0"
  shows "be_nat (div_2_256_by d) = (2 ^ 256 - 1) div be_nat d" "length (div_2_256_by d) = 32"
proof -
  let ?d = "be_nat d"
  let ?q = "div_u256_le (limbs_of (map NOT d)) (limbs_of d)"
  have d: "limbs_nat (limbs_of d) = ?d" "length (limbs_of d) = 4" using limbs_of_nat [OF assms(1)] by simp_all
  have n: "limbs_nat (limbs_of (map NOT d)) = 2 ^ 256 - 1 - ?d" "length (limbs_of (map NOT d)) = 4"
    using limbs_of_nat [of "map NOT d"] assms(1) be_nat_not [of d] by simp_all
  have "limbs_nat (limbs_of d) \<noteq> 0" using assms(2) d(1) by simp
  note q = div_limbs [OF n(2) d(2) this, unfolded n(1) d(1)]
  have lt: "?d < 2 ^ 256" using be_nat_less [of d] assms(1) by simp
  have "2 ^ 256 - 1 = (2 ^ 256 - 1 - ?d) + ?d" using lt by simp
  then have "(2 ^ 256 - 1) div ?d = (2 ^ 256 - 1 - ?d) div ?d + 1" using assms(2) by (metis add.commute div_add_self2)
  moreover have "(2 ^ 256 - 1) div ?d < 2 ^ 256" by (rule le_less_trans [OF div_le_dividend]) simp
  ultimately show "be_nat (div_2_256_by d) = (2 ^ 256 - 1) div ?d"
    using add_carry_nat [of 1 ?q] q by (simp add: div_2_256_by_def limbs_to_bytes)
  show "length (div_2_256_by d) = 32"
    using add_carry_nat [of 1 ?q] q by (simp add: div_2_256_by_def limbs_to_bytes)
qed

end
