(* ===== verification/Work_Facts.thy ===== *)
theory Work_Facts
  imports Work
begin

text \<open>
  What the work arithmetic computes: the target of a compact form as Bitcoin Core decodes it, the work
  of a target, and sums and differences of chain work.
\<close>

section \<open>The target that counts\<close>

definition core_value :: "u32 \<Rightarrow> nat" where
  "core_value w =
     (let sz = unat (drop_bit 24 w); m = unat w mod 2 ^ 23
      in if sz \<le> 3 then m div 256 ^ (3 - sz) else m * 256 ^ (sz - 3))"

lemma be_nat_update:
  "pos < length t \<Longrightarrow> t ! pos = 0 \<Longrightarrow> be_nat (t[pos := b]) = be_nat t + unat b * 256 ^ (length t - 1 - pos)"
proof (induction t arbitrary: pos)
  case (Cons a t)
  then show ?case by (cases pos) (simp_all add: be_nat_Cons)
qed simp

lemma be4_nat: "be_nat (be4 w) = unat w" "length (be4 w) = 4" "unat (be4 w ! 0) = unat w div 2 ^ 24"
proof -
  show "length (be4 w) = 4" by (simp add: be4_def)
  have lt: "unat w < 2 ^ 32" using unsigned_less [of w, where ?'a = nat] by simp
  have q: "unat w div 2 ^ 24 mod 256 = unat w div 2 ^ 24" using lt by simp
  then show "unat (be4 w ! 0) = unat w div 2 ^ 24" by (simp only: be4_def nth_Cons_0 unat_ucast_byte unat_drop_u32)
  have "unat w div 256 div 256 div 256 * 256 + unat w div 256 div 256 mod 256 = unat w div 256 div 256"
    "unat w div 256 div 256 * 256 + unat w div 256 mod 256 = unat w div 256" "unat w div 256 * 256 + unat w mod 256 = unat w"
    by (rule div_mult_mod_eq)+
  moreover have "unat w div 2 ^ 8 = unat w div 256" "unat w div 2 ^ 16 = unat w div 256 div 256"
    "unat w div 2 ^ 24 = unat w div 256 div 256 div 256"
    by (simp_all add: div_mult2_eq [symmetric])
  moreover have "((a * 256 + b) * 256 + c) * 256 + d = a * 16777216 + b * 65536 + c * 256 + d" for a b c d :: nat by simp
  ultimately have "unat w = unat w div 2 ^ 24 * 16777216 + (unat w div 2 ^ 16 mod 256) * 65536 + (unat w div 2 ^ 8 mod 256) * 256 + unat w mod 256"
    by metis
  then show "be_nat (be4 w) = unat w"
    using q by (simp only: be4_def be_nat_Cons unat_ucast_byte unat_drop_u32 be_nat_Nil list.size) simp
qed

text \<open>The four bytes placed one after the other, those that fall off the front left out.\<close>

definition placed :: "nat \<Rightarrow> bytes \<Rightarrow> bytes" where
  "placed sz bs = foldl (\<lambda>t (i, byte). if 31 + i < sz then t else t[31 + i - sz := byte]) ZERO32 (enumerate 0 bs)"

lemma placed_nat:
  assumes "3 < sz"
  shows "length (placed sz [b0, b1, b2, b3]) = 32"
    "be_nat (placed sz [b0, b1, b2, b3]) =
      (if 31 < sz then 0 else unat b0 * 256 ^ sz) + (if 32 < sz then 0 else unat b1 * 256 ^ (sz - 1))
      + (if 33 < sz then 0 else unat b2 * 256 ^ (sz - 2)) + (if 34 < sz then 0 else unat b3 * 256 ^ (sz - 3))"
proof -
  define put where "put i b t = (if 31 + i < sz then t else t[31 + i - sz := b])" for i b and t :: bytes
  define free where "free n t \<longleftrightarrow> length t = 32 \<and> (\<forall>k. 31 + n - sz \<le> k \<and> k < 32 \<longrightarrow> t ! k = (0 :: byte))" for n t
  have p: "placed sz [b0, b1, b2, b3] = put 3 b3 (put 2 b2 (put 1 b1 (put 0 b0 ZERO32)))"
    by (simp add: placed_def put_def numeral_2_eq_2 numeral_3_eq_3)
  have step: "free (i + 1) (put i b t) \<and> be_nat (put i b t) = be_nat t + (if 31 + i < sz then 0 else unat b * 256 ^ (sz - i))"
    if f: "free i t" "i \<le> 3" for i b and t :: bytes
  proof (cases "31 + i < sz")
    case True
    then show ?thesis using f by (simp add: free_def put_def)
  next
    case False
    then have k: "31 + i - sz < 32" "32 - 1 - (31 + i - sz) = sz - i" using f(2) assms by simp_all
    then have "be_nat (t[31 + i - sz := b]) = be_nat t + unat b * 256 ^ (sz - i)"
      using be_nat_update [of "31 + i - sz" t b] f(1) by (simp add: free_def)
    then show ?thesis using False f(1) by (auto simp: free_def put_def nth_list_update)
  qed
  have f0: "free 0 ZERO32" by (simp add: free_def ZERO32_def)
  then have s0: "free 1 (put 0 b0 ZERO32)" using step [of 0 ZERO32] by simp
  then have s1: "free 2 (put 1 b1 (put 0 b0 ZERO32))" using step [of 1] by (simp add: one_add_one [symmetric])
  then have s2: "free 3 (put 2 b2 (put 1 b1 (put 0 b0 ZERO32)))" using step [of 2] by (simp add: eval_nat_numeral)
  have "be_nat ZERO32 = 0" by (simp add: ZERO32_def)
  then show "be_nat (placed sz [b0, b1, b2, b3]) =
      (if 31 < sz then 0 else unat b0 * 256 ^ sz) + (if 32 < sz then 0 else unat b1 * 256 ^ (sz - 1))
      + (if 33 < sz then 0 else unat b2 * 256 ^ (sz - 2)) + (if 34 < sz then 0 else unat b3 * 256 ^ (sz - 3))"
    unfolding p using step [OF f0, of b0] step [OF s0, of b1] step [OF s1, of b2] step [OF s2, of b3] by simp
  show "length (placed sz [b0, b1, b2, b3]) = 32" unfolding p by (simp add: put_def ZERO32_def)
qed

lemma zero_target: "length t = 32 \<Longrightarrow> t = ZERO32 \<longleftrightarrow> be_nat t = 0"
  using be_nat_inj [of t ZERO32] by (simp add: ZERO32_def)

lemma target_with_work_low:
  fixes w :: u32
  assumes "unat (drop_bit 24 w) \<le> 3"
  defines "word \<equiv> drop_bit (8 * (3 - unat (drop_bit 24 w))) (w AND 0x007fffff)"
  shows "target_with_work w = (if core_value w = 0 \<or> bit w 23 then None else Some (replicate 28 0 @ be4 word))"
    "be_nat (replicate 28 0 @ be4 word) = core_value w"
proof -
  have v: "unat word = core_value w"
    using assms(1) unfolding word_def by (simp only: unat_drop_u32 unat_mask_23 core_value_def Let_def power_mult) simp
  then have w0: "word = 0 \<longleftrightarrow> core_value w = 0" by (metis unat_eq_0)
  show n: "be_nat (replicate 28 0 @ be4 word) = core_value w" by (simp add: be_nat_append be4_nat v)
  have "replicate 28 0 @ be4 word = ZERO32 \<longleftrightarrow> core_value w = 0" using n by (subst zero_target) (simp_all add: be4_nat)
  moreover have "target_with_work w = (if \<not> (word \<noteq> 0 \<and> bit w 23) \<and> replicate 28 0 @ be4 word \<noteq> ZERO32
      then Some (replicate 28 0 @ be4 word) else None)"
    using assms(1) unfolding target_with_work_def bit_23 Let_def word_def by simp
  ultimately show "target_with_work w = (if core_value w = 0 \<or> bit w 23 then None else Some (replicate 28 0 @ be4 word))"
    using w0 by auto
qed

lemma high_fits:
  fixes m :: nat
  assumes "3 < sz" "0 < m" "m < 2 ^ 23"
  shows "2 ^ 256 \<le> m * 256 ^ (sz - 3) \<longleftrightarrow> sz > 34 \<or> (m > 0xff \<and> sz > 33) \<or> (m > 0xffff \<and> sz > 32)"
proof -
  have p: "(2 :: nat) ^ 256 = 256 ^ 32" by simp
  consider "sz \<le> 32" | "sz = 33" | "sz = 34" | "35 \<le> sz" by linarith
  then show ?thesis
  proof cases
    case 1
    have "m * 256 ^ (sz - 3) \<le> m * 256 ^ 29" using 1 by (intro mult_le_mono2 power_increasing) simp_all
    also have "\<dots> < 2 ^ 23 * 256 ^ 29" using assms(3) by simp
    also have "\<dots> \<le> 256 ^ 32" by simp
    finally show ?thesis using 1 unfolding p by simp
  next
    case 2
    have "256 ^ 32 \<le> m * 256 ^ 30 \<longleftrightarrow> 65536 \<le> m" by simp
    then show ?thesis using 2 unfolding p by auto
  next
    case 3
    have "256 ^ 32 \<le> m * 256 ^ 31 \<longleftrightarrow> 256 \<le> m" by simp
    then show ?thesis using 3 unfolding p by auto
  next
    case 4
    have "(256 :: nat) ^ 32 \<le> 256 ^ (sz - 3)" using 4 by (intro power_increasing) simp_all
    also have "\<dots> \<le> m * 256 ^ (sz - 3)" using assms(2) by simp
    finally show ?thesis using 4 unfolding p by simp
  qed
qed

lemma placed_value:
  assumes "3 < sz" "unat word < 2 ^ 23" "\<not> (sz > 34 \<or> (unat word > 0xff \<and> sz > 33) \<or> (unat word > 0xffff \<and> sz > 32))"
  shows "be_nat (placed sz (be4 word)) = unat word * 256 ^ (sz - 3)"
proof -
  obtain b0 b1 b2 b3 where b: "be4 word = [b0, b1, b2, b3]" by (simp add: be4_def)
  have "unat b0 = 0" using be4_nat(3) [of word] assms(2) by (simp add: b)
  moreover have m: "unat b0 * 16777216 + unat b1 * 65536 + unat b2 * 256 + unat b3 = unat word"
    using be4_nat(1) [of word] by (simp add: b be_nat_Cons)
  ultimately have v: "unat b1 * 65536 + unat b2 * 256 + unat b3 = unat word" "unat b0 = 0" by simp_all
  have e: "256 ^ (sz - 1) = 65536 * (256 :: nat) ^ (sz - 3)" "256 ^ (sz - 2) = 256 * (256 :: nat) ^ (sz - 3)"
  proof -
    have "sz - 1 = 2 + (sz - 3)" "sz - 2 = 1 + (sz - 3)" using assms(1) by simp_all
    then show "256 ^ (sz - 1) = 65536 * (256 :: nat) ^ (sz - 3)" "256 ^ (sz - 2) = 256 * (256 :: nat) ^ (sz - 3)"
      by (simp_all only: power_add) simp_all
  qed
  have z: "sz > 32 \<Longrightarrow> unat b1 = 0" "sz > 33 \<Longrightarrow> unat b2 = 0" using v(1) assms(3) by auto
  have "be_nat (placed sz (be4 word)) = unat b1 * 256 ^ (sz - 1) + unat b2 * 256 ^ (sz - 2) + unat b3 * 256 ^ (sz - 3)"
    unfolding b placed_nat(2) [OF assms(1)] using v(2) z assms(3) by auto
  also have "\<dots> = (unat b1 * 65536 + unat b2 * 256 + unat b3) * 256 ^ (sz - 3)" unfolding e by (simp add: algebra_simps)
  finally show ?thesis unfolding v(1) .
qed

lemma target_with_work_high:
  assumes "3 < unat (drop_bit 24 w)"
  shows "if core_value w = 0 \<or> bit w 23 \<or> 2 ^ 256 \<le> core_value w then target_with_work w = None
    else \<exists>t. target_with_work w = Some t \<and> length t = 32 \<and> be_nat t = core_value w"
proof -
  let ?sz = "unat (drop_bit 24 w)" and ?word = "w AND 0x007fffff"
  have m: "unat ?word = unat w mod 2 ^ 23" by (rule unat_mask_23)
  then have lt: "unat ?word < 2 ^ 23" by simp
  have v: "core_value w = unat ?word * 256 ^ (?sz - 3)" using assms m by (simp add: core_value_def)
  have len: "length (placed ?sz (be4 ?word)) = 32" using placed_nat(1) [OF assms] by (simp add: be4_def)
  have t: "target_with_work w = (if \<not> (?word \<noteq> 0 \<and> bit w 23) \<and> \<not> (?word \<noteq> 0 \<and> (?sz > 34 \<or> (?word > 0xff \<and> ?sz > 33) \<or> (?word > 0xffff \<and> ?sz > 32)))
      \<and> placed ?sz (be4 ?word) \<noteq> ZERO32 then Some (placed ?sz (be4 ?word)) else None)"
    using assms unfolding target_with_work_def bit_23 Let_def placed_def by simp
  have cmp: "?word > 0xff \<longleftrightarrow> unat ?word > 0xff" "?word > 0xffff \<longleftrightarrow> unat ?word > 0xffff" "?word = 0 \<longleftrightarrow> unat ?word = 0"
    by (simp_all add: word_less_nat_alt unat_eq_0)
  show ?thesis
  proof (cases "unat ?word = 0")
    case True
    have "be_nat (placed ?sz (be4 0)) = 0" using placed_nat(2) [OF assms] by (simp add: be4_def)
    then have "placed ?sz (be4 ?word) = ZERO32" using True len zero_target cmp(3) by metis
    then show ?thesis using t v True by simp
  next
    case False
    note fits = high_fits [OF assms _ lt] 
    have v0: "core_value w \<noteq> 0" using v False by simp
    show ?thesis
    proof (cases "?sz > 34 \<or> (unat ?word > 0xff \<and> ?sz > 33) \<or> (unat ?word > 0xffff \<and> ?sz > 32)")
      case True
      then show ?thesis using t fits False v unfolding cmp by auto
    next
      case ok: False
      have "be_nat (placed ?sz (be4 ?word)) = core_value w" unfolding v by (rule placed_value [OF assms lt ok])
      then have "placed ?sz (be4 ?word) \<noteq> ZERO32" using v0 zero_target [OF len] by simp
      moreover have "\<not> 2 ^ 256 \<le> core_value w" using fits False ok v by simp
      ultimately show ?thesis
        using t ok False v0 len \<open>be_nat (placed ?sz (be4 ?word)) = core_value w\<close> unfolding cmp by auto
    qed
  qed
qed

lemma target_with_work_core:
  "if core_value w = 0 \<or> bit w 23 \<or> 2 ^ 256 \<le> core_value w then target_with_work w = None
   else \<exists>t. target_with_work w = Some t \<and> length t = 32 \<and> be_nat t = core_value w"
proof (cases "unat (drop_bit 24 w) \<le> 3")
  case True
  have "core_value w < 2 ^ 256"
  proof -
    have "core_value w \<le> unat w mod 2 ^ 23" using True by (simp add: core_value_def div_le_dividend)
    also have "\<dots> < 2 ^ 256" by (rule less_trans [of _ "2 ^ 23"]) simp_all
    finally show ?thesis .
  qed
  then show ?thesis using target_with_work_low [OF True] by (auto simp: be4_nat not_le)
next
  case False
  then show ?thesis using target_with_work_high [of w] by simp
qed

lemma div_pred: "0 < d \<Longrightarrow> 0 < n \<Longrightarrow> (n - 1) div d = n div d - (if d dvd n then 1 else 0 :: nat)"
proof -
  assume a: "0 < d" "0 < n"
  show ?thesis
  proof (cases "d dvd n")
    case True
    then obtain q where q: "n = d * q" by (elim dvdE)
    then obtain k where k: "q = Suc k" using a by (cases q) auto
    have "(n - 1) div d = k" by (rule div_nat_eqI) (use q k a in auto)
    then show ?thesis using True q k a by simp
  next
    case False
    then have r: "0 < n mod d" "n mod d < d" using a by (simp_all add: mod_greater_zero_iff_not_dvd)
    have n: "n = d * (n div d) + n mod d" by simp
    have "(n - 1) div d = n div d"
    proof (rule div_nat_eqI)
      show "d * (n div d) \<le> n - 1" using n r by linarith
      have "d * Suc (n div d) = d * (n div d) + d" by simp
      then show "n - 1 < d * Suc (n div d)" using n r by linarith
    qed
    then show ?thesis using False by simp
  qed
qed

section \<open>Sums and differences\<close>

lemma unat_u16_sum: "unat c \<le> 1 \<Longrightarrow> unat (ucast (a :: byte) + ucast (b :: byte) + c :: u16) = unat a + unat b + unat c"
proof -
  assume c: "unat c \<le> 1"
  have u: "unat (ucast x :: u16) = unat x" for x :: byte by (simp add: unat_upcast)
  have l: "unat a < 256" "unat b < 256" by (rule unat_byte_less)+
  have ab: "unat (ucast a + ucast b :: u16) = unat a + unat b"
  proof -
    have "unat a + unat b < 65536" using l by linarith
    then show ?thesis by (simp add: unat_word_ariths u)
  qed
  have "unat a + unat b + unat c < 65536" using l c by linarith
  then show ?thesis using ab unat_word_ariths(1) [of "ucast a + ucast b" c] by simp
qed

lemma add_loop_nat:
  "length as = length bs \<Longrightarrow> unat c \<le> 1 \<Longrightarrow> add_loop as bs c = (r, c') \<Longrightarrow>
    le_nat as + le_nat bs + unat c = le_nat r + 256 ^ length as * unat c' \<and> unat c' \<le> 1 \<and> length r = length as"
proof (induction as bs arbitrary: c r c' rule: list_induct2)
  case (Cons a as b bs)
  let ?s = "ucast a + ucast b + c :: u16"
  have s: "unat ?s = unat a + unat b + unat c" using Cons.prems(1) by (rule unat_u16_sum)
  obtain r' where r: "add_loop as bs (drop_bit 8 ?s) = (r', c')" "r = ucast ?s # r'"
    using Cons.prems(2) by (auto simp: Let_def split: prod.splits)
  have k: "unat (drop_bit 8 ?s) = unat ?s div 256" by (rule unat_drop_8)
  have l: "unat a < 256" "unat b < 256" by (rule unat_byte_less)+
  have "unat (drop_bit 8 ?s) \<le> 1" unfolding k s using l Cons.prems(1) by linarith
  from Cons.IH [OF this r(1)] have ih: "le_nat as + le_nat bs + unat ?s div 256 = le_nat r' + 256 ^ length as * unat c'"
    "unat c' \<le> 1" "length r' = length as"
    unfolding k by simp_all
  have "x + 256 * p + (y + 256 * q) + z = m + 256 * (p + q + d)" if "x + y + z = 256 * d + m" for x y z p q d m :: nat
    using that by simp
  moreover have "unat a + unat b + unat c = 256 * (unat ?s div 256) + unat ?s mod 256" using s by simp
  ultimately have "le_nat (a # as) + le_nat (b # bs) + unat c = unat ?s mod 256 + 256 * (le_nat as + le_nat bs + unat ?s div 256)"
    unfolding le_nat.simps by blast
  then show ?case unfolding ih(1) using ih(2,3) r(2) by (simp add: unat_ucast_byte)
qed auto

lemma be_nat_max: "be_nat (replicate n 0xff) = 256 ^ n - 1"
proof (induction n)
  case (Suc n)
  have "(1 :: nat) \<le> 256 ^ n" by simp
  then show ?case using Suc by (simp add: be_nat_Cons)
qed simp

lemma be_nat_add:
  assumes "length a = 32" "length b = 32"
  shows "be_nat (add_u256 a b) = min (be_nat a + be_nat b) (2 ^ 256 - 1)" "length (add_u256 a b) = 32"
proof -
  obtain r c where r: "add_loop (rev a) (rev b) 0 = (r, c)" by fastforce
  then have e: "be_nat a + be_nat b = le_nat r + 2 ^ 256 * unat c" "unat c \<le> 1" "length r = 32"
    using add_loop_nat [of "rev a" "rev b" 0 r c] assms by (simp_all add: be_nat_def)
  have lt: "le_nat r < 2 ^ 256" using le_nat_less [of r] e(3) by simp
  show "length (add_u256 a b) = 32" using r e(3) by (simp add: add_u256_def)
  show "be_nat (add_u256 a b) = min (be_nat a + be_nat b) (2 ^ 256 - 1)"
  proof (cases "c = 0")
    case True
    then show ?thesis using r e lt by (simp add: add_u256_def be_nat_def)
  next
    case False
    then have "unat c = 1" using e(2) by (metis One_nat_def le_SucE le_zero_eq unat_eq_0)
    then show ?thesis using r e False be_nat_max [of 32] by (simp add: add_u256_def)
  qed
qed

lemma sub_loop_nat:
  "length as = length bs \<Longrightarrow> unat c \<le> 1 \<Longrightarrow> \<exists>out \<in> {0, 1}.
    int (le_nat (sub_loop as bs c)) = int (le_nat as) - int (le_nat bs) - int (unat c) + out * 256 ^ length as
    \<and> length (sub_loop as bs c) = length as"
proof (induction as bs arbitrary: c rule: list_induct2)
  case Nil
  then have "unat c = 0 \<or> unat c = 1" by linarith
  then show ?case by (intro bexI [of _ "int (unat c)"]) (auto simp del: of_nat_unat)
next
  case (Cons a as b bs)
  let ?d = "ucast a - ucast b - c :: u16" and ?x = "int (unat a) - int (unat b) - int (unat c)"
  let ?k = "if ?d > 0xff then 1 else 0 :: u16"
  have u: "unat (ucast x :: u16) = unat x" for x :: byte by (simp add: unat_upcast)
  have l: "unat a < 256" "unat b < 256" by (rule unat_byte_less)+
  have "int (unat ?d) = ?x mod 65536"
    by (simp only: of_nat_unat uint_word_ariths u [symmetric]) (simp add: mod_simps)
  moreover have "?x mod 65536 = (if ?x < 0 then ?x + 65536 else ?x)"
  proof (cases "?x < 0")
    case True
    have "0 \<le> ?x + 65536" "?x + 65536 < 65536" using True l Cons.prems by linarith+
    then have "(?x + 65536) mod 65536 = ?x + 65536" by (rule mod_pos_pos_trivial)
    then show ?thesis using True by simp
  next
    case False
    have "0 \<le> ?x" "?x < 65536" using False l by linarith+
    then show ?thesis using False by (simp only: mod_pos_pos_trivial) simp
  qed
  ultimately have d: "int (unat ?d) = (if ?x < 0 then ?x + 65536 else ?x)" by simp
  have "255 < int (unat ?d) \<longleftrightarrow> ?x < 0"
  proof (cases "?x < 0")
    case True
    then have "int (unat ?d) = ?x + 65536" using d by (simp only: if_True)
    then show ?thesis using True l Cons.prems by linarith
  next
    case False
    then have "int (unat ?d) = ?x" using d by (simp only: if_False)
    then show ?thesis using False l by linarith
  qed
  moreover have "?d > 0xff \<longleftrightarrow> 255 < int (unat ?d)" by (simp add: word_less_nat_alt del: of_nat_unat)
  ultimately have gt: "?d > 0xff \<longleftrightarrow> ?x < 0" by blast
  have bt: "int (unat (ucast ?d :: byte)) = ?x + 256 * int (unat ?k)"
  proof -
    have "int (unat (ucast ?d :: byte)) = int (unat ?d) mod 256" by (simp only: unat_ucast_byte of_nat_mod) simp
    also have "\<dots> = ?x mod 256" unfolding d by (simp add: mod_add_eq [symmetric])
    also have "\<dots> = ?x + 256 * int (unat ?k)"
    proof (cases "?x < 0")
      case True
      have "0 \<le> ?x + 256" "?x + 256 < 256" using True l Cons.prems by linarith+
      then have "(?x + 256) mod 256 = ?x + 256" by (rule mod_pos_pos_trivial)
      then show ?thesis using True gt by simp
    next
      case False
      have "0 \<le> ?x" "?x < 256" using False l by linarith+
      then show ?thesis using False gt by (simp only: mod_pos_pos_trivial) simp
    qed
    finally show ?thesis .
  qed
  have "unat ?k \<le> 1" by simp
  then obtain out where o: "out \<in> {0, 1}" "int (le_nat (sub_loop as bs ?k)) = int (le_nat as) - int (le_nat bs) - int (unat ?k) + out * 256 ^ length as"
    "length (sub_loop as bs ?k) = length as"
    using Cons.IH by blast
  have "int (le_nat (sub_loop (a # as) (b # bs) c)) = int (unat (ucast ?d :: byte)) + 256 * int (le_nat (sub_loop as bs ?k))"
    by (simp add: Let_def del: of_nat_unat)
  also have "\<dots> = int (le_nat (a # as)) - int (le_nat (b # bs)) - int (unat c) + out * 256 ^ length (a # as)"
    unfolding bt o(2) by (simp add: algebra_simps del: of_nat_unat)
  finally show ?case using o(1,3) by (intro bexI [of _ out]) (simp_all add: Let_def)
qed

lemma be_nat_sub:
  assumes "length a = 32" "length b = 32" "be_nat b \<le> be_nat a"
  shows "be_nat (sub_u256 a b) = be_nat a - be_nat b" "length (sub_u256 a b) = 32"
proof -
  obtain out where o: "out \<in> {0, 1}" "int (be_nat (sub_u256 a b)) = int (be_nat a) - int (be_nat b) + out * 2 ^ 256"
    "length (sub_u256 a b) = 32"
    using sub_loop_nat [of "rev a" "rev b" 0] assms by (auto simp: sub_u256_def be_nat_def)
  have "be_nat (sub_u256 a b) < 2 ^ 256" using be_nat_less [of "sub_u256 a b"] o(3) by simp
  then have "int (be_nat (sub_u256 a b)) < 2 ^ 256" by (simp only: of_nat_less_numeral_power_cancel_iff)
  then have "out = 0" using o assms(3) by auto
  then show "be_nat (sub_u256 a b) = be_nat a - be_nat b" using o(2) assms(3) by simp
  show "length (sub_u256 a b) = 32" by (rule o(3))
qed

lemma work_nat:
  assumes "core_value w \<noteq> 0" "\<not> bit w 23" "core_value w < 2 ^ 256"
  shows "be_nat (work_for_bits w) = (2 ^ 256 - 1) div (core_value w + 1)"
proof -
  obtain t where t: "target_with_work w = Some t" "length t = 32" "be_nat t = core_value w"
    using target_with_work_core [of w] assms by (auto simp: not_le)
  have "core_value w + 1 < 2 ^ 256"
  proof (rule ccontr)
    assume "\<not> ?thesis"
    then have v: "core_value w = 2 ^ 256 - 1" using assms(3) by simp
    have m: "unat w mod 2 ^ 23 < 2 ^ 23" by simp
    show False
    proof (cases "unat (drop_bit 24 w) \<le> 3")
      case True
      then have "core_value w \<le> unat w mod 2 ^ 23" by (simp add: core_value_def div_le_dividend)
      then show False using v m by simp
    next
      case False
      then have "unat (drop_bit 24 w) - 3 = Suc (unat (drop_bit 24 w) - 4)" by simp
      then have "core_value w = 2 * (unat w mod 2 ^ 23 * 128 * 256 ^ (unat (drop_bit 24 w) - 4))" using False by (simp add: core_value_def)
      then have "even (core_value w)" by (rule dvdI)
      then show False unfolding v by simp
    qed
  qed
  then have one: "be_nat (add_one_u256 t) = core_value w + 1" "length (add_one_u256 t) = 32"
    using add_one_nat [of t] t by simp_all
  then have "add_one_u256 t \<noteq> ZERO32" using zero_target [of "add_one_u256 t"] by simp
  then show ?thesis using t(1) one div_2_256_nat [of "add_one_u256 t"] by (simp add: work_for_bits_def)
qed

section \<open>Properties\<close>

text \<open>
  C11: The work of a compact target: nothing for a target that is zero, negative or too large, as
  Bitcoin Core decodes it, and otherwise the integer part of \<open>2 ^ 256\<close> over the target plus one,
  except that it is one less when the target plus one is a power of two.
\<close>

theorem work_for_bits_computes:
  "be_nat (work_for_bits w) =
    (if core_value w = 0 \<or> bit w 23 \<or> 2 ^ 256 \<le> core_value w then 0
     else 2 ^ 256 div (core_value w + 1) - (if core_value w + 1 dvd 2 ^ 256 then 1 else 0))"
proof (cases "core_value w = 0 \<or> bit w 23 \<or> 2 ^ 256 \<le> core_value w")
  case True
  then show ?thesis using target_with_work_core [of w] by (simp add: work_for_bits_def ZERO32_def)
next
  case False
  then show ?thesis using work_nat [of w] div_pred [of "core_value w + 1" "2 ^ 256"] by (simp add: not_le)
qed

text \<open>The exception is met: the target \<open>0x7fff\<close>.\<close>

lemma work_off_by_one: "be_nat (work_for_bits 0x03007fff) = 2 ^ 241 - 1"
proof -
  have v: "core_value 0x03007fff = 0x7fff" by (simp add: core_value_def unat_drop_u32 Let_def)
  have "bit (0x03007fff :: u32) 23 = False" by simp
  then show ?thesis using work_nat [of "0x03007fff"] v by simp
qed

text \<open>
  C13: Sums of chain work saturate at the largest 256-bit number instead of wrapping, so that a chain
  never loses work by growing, and the difference of two sums gives back what was added as long as
  nothing saturated.
\<close>

theorem chainwork_sums:
  assumes "length a = 32" "length b = 32"
  shows "be_nat (add_u256 a b) = min (be_nat a + be_nat b) (2 ^ 256 - 1)
    \<and> be_nat a \<le> be_nat (add_u256 a b)
    \<and> (be_nat a + be_nat b < 2 ^ 256 \<longrightarrow> sub_u256 (add_u256 a b) a = b)"
proof -
  note ad = be_nat_add [OF assms]
  have lt: "be_nat a < 2 ^ 256" using be_nat_less [of a] assms(1) by simp
  have le: "be_nat a \<le> be_nat (add_u256 a b)" using ad(1) lt by simp
  note sb = be_nat_sub [OF ad(2) assms(1) le]
  have "sub_u256 (add_u256 a b) a = b" if "be_nat a + be_nat b < 2 ^ 256"
  proof -
    have "be_nat (add_u256 a b) = be_nat a + be_nat b" using ad(1) that by simp
    then have "be_nat (sub_u256 (add_u256 a b) a) = be_nat b" using sb(1) by simp
    then show ?thesis using be_nat_inj [of "sub_u256 (add_u256 a b) a" b] sb(2) assms(2) by simp
  qed
  then show ?thesis using ad(1) le by blast
qed

theorem chainwork_sums_witness:
  "sub_u256 (add_u256 (replicate 32 1) (replicate 32 2)) (replicate 32 1) = replicate 32 2"
proof -
  have r: "replicate 32 x = [x, x, x, x, x, x, x, x, x, x, x, x, x, x, x, x, x, x, x, x, x, x, x, x, x, x, x, x, x, x, x, x]" for x :: byte
    by (simp add: numeral_eq_Suc)
  have "be_nat (replicate 32 1) + be_nat (replicate 32 2) < 2 ^ 256" by (simp add: be_nat_def r)
  then show ?thesis using chainwork_sums [of "replicate 32 1" "replicate 32 2"] by (simp only: length_replicate)
qed

text \<open>
  C12: The two decoders of compact targets agree on every target a header can meet: for exponents up to
  32 and a mantissa that is not negative, the target that counts for work is the one the proof of work
  is checked against, unless that is zero.
\<close>

theorem decoders_agree:
  assumes "unat (drop_bit 24 w) \<le> 32" "\<not> bit w 23"
  shows "target_with_work w = (if be_nat (target_from_compact w) = 0 then None else Some (target_from_compact w))"
proof -
  have v: "core_value w = be_nat (target_from_compact w)"
  proof -
    have "unat w mod 2 ^ 23 div 256 ^ 3 = 0" by (simp add: less_trans [OF mod_less_divisor])
    then show ?thesis using assms(1) by (auto simp: core_value_def be_nat_target_from_compact compact_value_def Let_def min_def)
  qed
  have "be_nat (target_from_compact w) < 2 ^ 256" using be_nat_less [of "target_from_compact w"] by simp
  then have lt: "core_value w < 2 ^ 256" unfolding v .
  show ?thesis
  proof (cases "core_value w = 0")
    case True
    then show ?thesis using target_with_work_core [of w] v by simp
  next
    case False
    then obtain t where t: "target_with_work w = Some t" "length t = 32" "be_nat t = core_value w"
      using target_with_work_core [of w] assms(2) lt by (auto simp: not_le)
    then have "t = target_from_compact w" using be_nat_inj [of t "target_from_compact w"] v by simp
    then show ?thesis using t(1) False v by simp
  qed
qed

theorem decoders_agree_witness: "target_with_work 0x1d00ffff = Some (target_from_compact 0x1d00ffff)"
proof -
  have "be_nat (target_from_compact 0x1d00ffff) \<noteq> 0"
    by (simp add: be_nat_target_from_compact compact_value_def unat_drop_u32)
  then show ?thesis using decoders_agree [of "0x1d00ffff"] by (simp add: unat_drop_u32)
qed

end
