(* ===== verification/Spec2Isabelle.thy ===== *)
theory Spec2Isabelle
  imports Engine_Facts Eval_Limits Multisig Taproot Templates Sigops_Facts Pow_Facts Activation Check_Block_Facts Unknown_Bits Work_Facts
begin

text \<open>
  Verification development of the script consensus engine.
\<close>

section \<open>Properties of the transaction entry point\<close>





text \<open>
  C3: Soft forks only tighten the transaction check: a transaction that is accepted under some flags
  is accepted under every coherent subset of them.
\<close>

theorem verify_transaction_flags_monotone:
  assumes "flags_le f g" "coherent_flags f" "verify_transaction C K tx prevs g = Ok ()"
  shows "verify_transaction C K tx prevs f = Ok ()"
  by (rule verify_transaction_relax [OF assms])

theorem verify_transaction_flags_monotone_witness:
  "verify_transaction sample_crypto sample_codec (0, sample_tx) [\<lparr>out_value = 7, script_pubkey = [0x51]\<rparr>] 0 = Ok ()"
proof (rule verify_transaction_flags_monotone)
  show "flags_le 0 (VERIFY_P2SH OR VERIFY_MINIMALDATA)" by simp
  show "coherent_flags 0" by (simp add: coherent_flags_def has_flag_def)
  let ?prevs = "[\<lparr>out_value = 7, script_pubkey = [0x51]\<rparr>]" and ?f = "VERIFY_P2SH OR VERIFY_MINIMALDATA"
  have "precheck sample_tx ?prevs ?f = None"
    by (simp add: precheck_def sample_tx_def valid_flags_def has_flag_def flag_defs)
  moreover have "input_verdict sample_crypto sample_codec sample_tx ?prevs ?f 0 = Ok ()"
    by (simp add: input_verdict_def sample_tx_def verify_script_def exec_simps op_num_def flag_defs check_true_def
        check_clean_def verify_bare_witness_def is_p2sh_def serialize_i64_def abs_bytes_pos)
  ultimately show "verify_transaction sample_crypto sample_codec (0, sample_tx) ?prevs ?f = Ok ()"
    by (simp add: verify_transaction_eq)
qed

end
